(* ===== verification/Prelude.thy ===== *)
theory Prelude
  imports Main "HOL-Library.Word"
begin

unbundle bit_operations_syntax

text \<open>
  Types and generic lemmas shared by every component: Go's bytes and strings, error values,
  the outcome of a Go call (a value, an error value, or a panic), the idiom
  \<^verbatim>\<open>x, err := op(); if err != nil { cleanup; return err }\<close> as a combinator, deferred
  cleanups, and decimal and hexadecimal rendering of numbers.
\<close>

subsection \<open>Collections of rewrite and introduction rules\<close>

named_theorems bytes_simps \<open>evaluation of byte strings and their conversions\<close>
named_theorems res_simps \<open>propagation of results through the Go idioms\<close>

subsection \<open>Bytes and strings\<close>

type_synonym byte = "8 word"
type_synonym u32 = "32 word"
type_synonym u64 = "64 word"
type_synonym i32 = "32 word"
type_synonym i64 = "64 word"

text \<open>Go strings are byte strings; \<open>of_str\<close> is \<^verbatim>\<open>[]byte(s)\<close>, \<open>to_str\<close> is \<^verbatim>\<open>string(b)\<close>.\<close>

definition of_str :: "string \<Rightarrow> byte list" where
  "of_str = map of_char"

definition to_str :: "byte list \<Rightarrow> string" where
  "to_str = map (\<lambda>b. char_of (unat b))"

lemma unat_of_char: "unat (of_char c :: byte) = of_char c"
proof -
  have "(of_char c :: byte) = word_of_nat (of_char c)"
    by (simp add: of_char_def flip: of_nat_of_char)
  moreover have "(of_char c :: nat) < 2 ^ 8"
    using nat_of_char_less_256[of c] by simp
  ultimately show ?thesis
    by (simp add: unat_of_nat take_bit_nat_eq_self del: of_nat_of_char)
qed

lemma to_str_of_str [simp, bytes_simps]: "to_str (of_str s) = s"
  by (simp add: to_str_def of_str_def unat_of_char comp_def)

lemma of_char_char_of_unat: "(of_char (char_of (unat b)) :: byte) = b"
proof -
  have "unat b < 256"
    using unsigned_less[of b] by simp
  then have "(of_char (char_of (unat b)) :: nat) = unat b"
    by simp
  then show ?thesis
    by (metis unat_of_char word_unat_eq_iff)
qed

lemma of_str_to_str [simp, bytes_simps]: "of_str (to_str b) = b"
  by (simp add: to_str_def of_str_def of_char_char_of_unat comp_def)

lemma of_str_append [simp, bytes_simps]: "of_str (s @ t) = of_str s @ of_str t"
  by (simp add: of_str_def)

lemma length_of_str [simp, bytes_simps]: "length (of_str s) = length s"
  by (simp add: of_str_def)

lemma length_to_str [simp, bytes_simps]: "length (to_str b) = length b"
  by (simp add: to_str_def)

lemma of_str_inject [simp]: "of_str s = of_str t \<longleftrightarrow> s = t"
  by (metis to_str_of_str)

lemma to_str_eq_iff: "to_str b = s \<longleftrightarrow> b = of_str s"
  by auto

subsection \<open>Errors, panics and results\<close>

text \<open>
  The error values the code tells apart or creates: the sentinels of \<^verbatim>\<open>io\<close>, \<^verbatim>\<open>net\<close> and
  \<^verbatim>\<open>bufio\<close>, the error of \<^verbatim>\<open>strconv\<close>, \<^verbatim>\<open>errors.New\<close> and \<^verbatim>\<open>fmt.Errorf\<close> texts, gRPC status errors,
  and the errors of the operating system, which the code only passes on.
\<close>

datatype code = InvalidArgument | FailedPrecondition | Internal

datatype goerr =
    EOF
  | UnexpectedEOF
  | NetClosed
  | TooLong
  | NumSyntax string
  | NewError string
  | GrpcStatus code string
  | SysError string

datatype gopanic = IndexOutOfRange | MakeSliceLen | NilDereference | InconsistentState
  | DivideByZero | DoubleFree | OutOfBoundsRead | NonPositiveTicker | LogFatal goerr

fun code_string :: "code \<Rightarrow> string" where
  "code_string InvalidArgument = ''InvalidArgument''"
| "code_string FailedPrecondition = ''FailedPrecondition''"
| "code_string Internal = ''Internal''"

text \<open>
  \<^verbatim>\<open>strconv.Quote\<close> of a byte string. A byte of 128 or more is written as a number, as in a string that
  is not valid UTF-8.
\<close>

definition digit_char :: "nat \<Rightarrow> char" where
  "digit_char d = (if d < 10 then char_of (48 + d) else char_of (87 + d))"

definition quote_char :: "char \<Rightarrow> string" where
  "quote_char c = (let n = of_char c :: nat in
     if n = 34 \<or> n = 92 then [char_of (92 :: nat), c]
     else if 32 \<le> n \<and> n < 127 then [c]
     else if 7 \<le> n \<and> n \<le> 13 then [char_of (92 :: nat), ''abtnvfr'' ! (n - 7)]
     else [char_of (92 :: nat), CHR ''x'', digit_char (n div 16), digit_char (n mod 16)])"

definition quote :: "string \<Rightarrow> string" where
  "quote s = [char_of (34 :: nat)] @ concat (map quote_char s) @ [char_of (34 :: nat)]"

text \<open>The text a value's \<^verbatim>\<open>Error()\<close> method returns.\<close>

fun err_string :: "goerr \<Rightarrow> string" where
  "err_string EOF = ''EOF''"
| "err_string UnexpectedEOF = ''unexpected EOF''"
| "err_string NetClosed = ''use of closed network connection''"
| "err_string TooLong = ''bufio.Scanner: token too long''"
| "err_string (NumSyntax s) = ''strconv.ParseInt: parsing '' @ quote s @ '': invalid syntax''"
| "err_string (NewError s) = s"
| "err_string (GrpcStatus c s) = ''rpc error: code = '' @ code_string c @ '' desc = '' @ s"
| "err_string (SysError s) = s"

datatype 'a res = Ok 'a | Err goerr | Panic gopanic

fun is_ok :: "'a res \<Rightarrow> bool" where
  "is_ok (Ok _) = True"
| "is_ok _ = False"

fun is_panic :: "'a res \<Rightarrow> bool" where
  "is_panic (Panic _) = True"
| "is_panic _ = False"

text \<open>
  \<open>on_ok r cleanup k\<close> is the Go idiom: the call \<open>r\<close> has been made; on an error run \<open>cleanup\<close> and
  return the error, otherwise go on with \<open>k\<close>. A panic unwinds past the cleanup, which is not
  deferred.
\<close>

definition on_ok ::
  "'a res \<times> 's \<Rightarrow> ('s \<Rightarrow> 's) \<Rightarrow> ('a \<Rightarrow> 's \<Rightarrow> 'b res \<times> 's) \<Rightarrow> 'b res \<times> 's" where
  "on_ok r cleanup k = (case r of
     (Ok a, s) \<Rightarrow> k a s
   | (Err e, s) \<Rightarrow> (Err e, cleanup s)
   | (Panic p, s) \<Rightarrow> (Panic p, s))"

text \<open>A deferred call runs whether the body returns or panics.\<close>

definition deferring :: "('s \<Rightarrow> 's) \<Rightarrow> 'a res \<times> 's \<Rightarrow> 'a res \<times> 's" where
  "deferring cleanup r = (fst r, cleanup (snd r))"

lemma on_ok_simps [simp, res_simps]:
  "on_ok (Ok a, s) cl k = k a s"
  "on_ok (Err e, s) cl k = (Err e, cl s)"
  "on_ok (Panic p, s) cl k = (Panic p, s)"
  by (simp_all add: on_ok_def)

lemma deferring_simps [simp, res_simps]:
  "deferring cl (r, s) = (r, cl s)"
  "fst (deferring cl x) = fst x"
  "snd (deferring cl x) = cl (snd x)"
  by (simp_all add: deferring_def)

lemma on_ok_eq_Ok:
  "on_ok r cl k = (Ok b, s') \<longleftrightarrow> (\<exists>a s. r = (Ok a, s) \<and> k a s = (Ok b, s'))"
  by (cases r; cases "fst r") auto

lemma res_pair_cases:
  obtains (Ok) a s where "r = (Ok a, s)" | (Err) e s where "r = (Err e, s)"
  | (Panic) p s where "r = (Panic p, s)"
  by (cases r; cases "fst r") auto

text \<open>The pure counterpart, for calls that touch no state.\<close>

fun bind_res :: "'a res \<Rightarrow> ('a \<Rightarrow> 'b res) \<Rightarrow> 'b res" where
  "bind_res (Ok a) k = k a"
| "bind_res (Err e) k = Err e"
| "bind_res (Panic p) k = Panic p"

lemma bind_res_eq_Ok: "bind_res r k = Ok b \<longleftrightarrow> (\<exists>a. r = Ok a \<and> k a = Ok b)"
  by (cases r) auto

subsection \<open>Lists updated by index\<close>

lemma nth_upd: "xs[i := y] ! j = (if i = j \<and> i < length xs then y else xs ! j)"
  by (cases "i < length xs") (auto simp: nth_list_update list_update_beyond)

subsection \<open>Numbers as text\<close>

text \<open>Digits in the given base, most significant first: \<^verbatim>\<open>%d\<close>, \<^verbatim>\<open>%x\<close> and \<^verbatim>\<open>strconv.FormatInt\<close>.\<close>

fun fmt_base :: "nat \<Rightarrow> nat \<Rightarrow> string" where
  "fmt_base b n = (if b < 2 \<or> n < b then [digit_char n]
                   else fmt_base b (n div b) @ [digit_char (n mod b)])"

declare fmt_base.simps [simp del]

definition fmt_d :: "nat \<Rightarrow> string" where
  "fmt_d = fmt_base 10"

text \<open>\<^verbatim>\<open>%04x\<close>: padded with zeros to four digits, longer when the number needs more.\<close>

definition fmt_04x :: "nat \<Rightarrow> string" where
  "fmt_04x n = (let s = fmt_base 16 n in replicate (4 - length s) (CHR ''0'') @ s)"

definition digit_val :: "char \<Rightarrow> nat option" where
  "digit_val c = (let n = of_char c :: nat in
     if 48 \<le> n \<and> n \<le> 57 then Some (n - 48)
     else if 97 \<le> n \<and> n \<le> 102 then Some (n - 87)
     else if 65 \<le> n \<and> n \<le> 70 then Some (n - 55)
     else None)"

text \<open>Horner's rule over hexadecimal digits; \<open>None\<close> at a character that is not one.\<close>

fun hex_digits :: "nat \<Rightarrow> string \<Rightarrow> nat option" where
  "hex_digits acc [] = Some acc"
| "hex_digits acc (c # cs) =
     (case digit_val c of None \<Rightarrow> None | Some d \<Rightarrow> hex_digits (16 * acc + d) cs)"

text \<open>
  \<^verbatim>\<open>strconv.ParseInt(s, 16, 64)\<close>: an optional sign, then at least one digit. The code calls it on
  four characters, so the value never leaves the range of \<^verbatim>\<open>int64\<close>.
\<close>

definition ParseInt16 :: "string \<Rightarrow> int res" where
  "ParseInt16 s = (case s of
     [] \<Rightarrow> Err (NumSyntax s)
   | c # cs \<Rightarrow>
      (let neg = (c = CHR ''-''); ds = (if c = CHR ''-'' \<or> c = CHR ''+'' then cs else s)
       in if ds = [] then Err (NumSyntax s)
          else case hex_digits 0 ds of
            None \<Rightarrow> Err (NumSyntax s)
          | Some n \<Rightarrow> Ok (if neg then - int n else int n)))"

lemma digit_val_digit_char: "d < 16 \<Longrightarrow> digit_val (digit_char d) = Some d"
proof -
  assume "d < 16"
  then consider "d < 10" | "10 \<le> d" "d < 16" by linarith
  then show ?thesis
    by cases (auto simp: digit_val_def digit_char_def)
qed

lemma hex_digits_append:
  "hex_digits acc (s @ t) = (case hex_digits acc s of None \<Rightarrow> None | Some a \<Rightarrow> hex_digits a t)"
  by (induction s arbitrary: acc) (auto split: option.splits)

lemma hex_digits_fmt_base: "hex_digits 0 (fmt_base 16 n) = Some n"
proof (induction n rule: less_induct)
  case (less n)
  show ?case
  proof (cases "n < 16")
    case True
    then show ?thesis
      by (simp add: fmt_base.simps[of 16 n] digit_val_digit_char)
  next
    case False
    then have "hex_digits 0 (fmt_base 16 (n div 16)) = Some (n div 16)"
      by (intro less) simp
    with False show ?thesis
      by (simp add: fmt_base.simps[of 16 n] hex_digits_append digit_val_digit_char)
  qed
qed

lemma hex_digits_zeros: "hex_digits 0 (replicate k (CHR ''0'') @ s) = hex_digits 0 s"
  by (induction k) (simp_all add: digit_val_def)

lemma hex_digits_04x: "hex_digits 0 (fmt_04x n) = Some n"
  by (simp add: fmt_04x_def Let_def hex_digits_zeros hex_digits_fmt_base)

lemma length_fmt_base_le: "n < b ^ Suc k \<Longrightarrow> 2 \<le> b \<Longrightarrow> length (fmt_base b n) \<le> Suc k"
proof (induction k arbitrary: n)
  case 0
  then show ?case by (simp add: fmt_base.simps[of b n])
next
  case (Suc k)
  have "n div b < b ^ Suc k"
    using Suc.prems by (simp add: less_mult_imp_div_less mult.commute)
  with Suc show ?case
    by (simp add: fmt_base.simps[of b n])
qed

lemma length_fmt_base_ge: "b ^ k \<le> n \<Longrightarrow> 2 \<le> b \<Longrightarrow> Suc k \<le> length (fmt_base b n)"
proof (induction k arbitrary: n)
  case 0
  then show ?case by (simp add: fmt_base.simps[of b n])
next
  case (Suc k)
  have "b ^ k \<le> n div b"
    using Suc.prems by (simp add: less_eq_div_iff_mult_less_eq mult.commute)
  moreover have "b \<le> b ^ Suc k"
    using Suc.prems by simp
  then have "\<not> n < b"
    using Suc.prems(1) by linarith
  ultimately show ?case
    using Suc by (simp add: fmt_base.simps[of b n])
qed

lemma length_04x: "n < 65536 \<Longrightarrow> length (fmt_04x n) = 4"
  using length_fmt_base_le[of n 16 3] by (simp add: fmt_04x_def Let_def)

lemma length_04x_big: "65536 \<le> n \<Longrightarrow> 5 \<le> length (fmt_04x n)"
  using length_fmt_base_ge[of 16 4 n] by (simp add: fmt_04x_def Let_def)

lemma digit_char_not_sign: "d < 16 \<Longrightarrow> digit_char d \<noteq> CHR ''-'' \<and> digit_char d \<noteq> CHR ''+''"
  using digit_val_digit_char[of d] by (auto simp: digit_val_def)

end
