(* ===== verification/Bytes.thy ===== *)
theory Bytes
  imports Prelude
begin

unbundle bit_operations_syntax

text \<open>
  Byte-level routines of the standard library that the program relies on, written out:
  little-endian integers (\<^verbatim>\<open>encoding/binary\<close>), prefixes, white space and fields
  (\<^verbatim>\<open>strings\<close>), searching and splitting (\<^verbatim>\<open>bytes\<close>). The locale \<open>codec\<close> is the contract of
  a fixed-width encoding; its instances here are the two integer widths, and the wire records
  of the sync protocol follow in later theories.
\<close>

subsection \<open>Fixed-width codecs\<close>

locale codec =
  fixes enc :: "'a \<Rightarrow> byte list"
    and dec :: "byte list \<Rightarrow> 'a"
    and width :: nat
  assumes enc_width: "length (enc a) = width"
    and dec_enc: "dec (enc a) = a"
begin

lemma enc_inject: "enc a = enc b \<longleftrightarrow> a = b"
  by (metis dec_enc)

lemma take_enc: "take width (enc a @ rest) = enc a"
  by (simp add: enc_width)

lemma drop_enc: "drop width (enc a @ rest) = rest"
  by (simp add: enc_width)

lemma dec_take: "dec (take width (enc a @ rest)) = a"
  by (simp only: take_enc dec_enc)

lemma enc_append_inject: "enc a @ xs = enc b @ ys \<longleftrightarrow> a = b \<and> xs = ys"
  by (simp add: enc_width enc_inject)

lemma length_concat_enc: "length (concat (map enc as)) = width * length as"
  by (induction as) (simp_all add: enc_width)

lemma concat_enc_inject:
  assumes "0 < width"
  shows "concat (map enc as) = concat (map enc bs) \<longleftrightarrow> as = bs"
proof
  assume eq: "concat (map enc as) = concat (map enc bs)"
  then have "length as = length bs"
    using assms by (metis length_concat_enc mult_cancel1 not_gr_zero)
  then show "as = bs"
    using eq by (induction as bs rule: list_induct2) (simp_all add: enc_append_inject)
qed simp

end

subsection \<open>Little-endian integers\<close>

definition PutUint32 :: "u32 \<Rightarrow> byte list" where
  "PutUint32 v = [ucast v, ucast (drop_bit 8 v), ucast (drop_bit 16 v), ucast (drop_bit 24 v)]"

definition Uint32 :: "byte list \<Rightarrow> u32" where
  "Uint32 b = ucast (b ! 0) OR push_bit 8 (ucast (b ! 1)) OR push_bit 16 (ucast (b ! 2))
     OR push_bit 24 (ucast (b ! 3))"

definition PutUint64 :: "u64 \<Rightarrow> byte list" where
  "PutUint64 v = [ucast v, ucast (drop_bit 8 v), ucast (drop_bit 16 v), ucast (drop_bit 24 v),
     ucast (drop_bit 32 v), ucast (drop_bit 40 v), ucast (drop_bit 48 v), ucast (drop_bit 56 v)]"

definition Uint64 :: "byte list \<Rightarrow> u64" where
  "Uint64 b = ucast (b ! 0) OR push_bit 8 (ucast (b ! 1)) OR push_bit 16 (ucast (b ! 2))
     OR push_bit 24 (ucast (b ! 3)) OR push_bit 32 (ucast (b ! 4)) OR push_bit 40 (ucast (b ! 5))
     OR push_bit 48 (ucast (b ! 6)) OR push_bit 56 (ucast (b ! 7))"

lemma length_PutUint [simp, bytes_simps]:
  "length (PutUint32 v) = 4" "length (PutUint64 w) = 8"
  by (simp_all add: PutUint32_def PutUint64_def)

text \<open>A byte cut out of a word and put back at its place keeps exactly its eight bits.\<close>

lemma bit_byte_at:
  fixes v :: "'w::len word"
  shows "bit (push_bit k (ucast (ucast (drop_bit k v) :: byte)) :: 'w word) n
    \<longleftrightarrow> k \<le> n \<and> n < k + 8 \<and> bit v n"
  by (auto simp: bit_simps dest: bit_imp_le_length)

lemma bit_byte_at_0:
  fixes v :: "'w::len word"
  shows "bit (ucast (ucast v :: byte) :: 'w word) n \<longleftrightarrow> n < 8 \<and> bit v n"
  by (auto simp: bit_simps dest: bit_imp_le_length)

lemma Uint32_PutUint32 [simp, bytes_simps]: "Uint32 (PutUint32 v) = v"
proof (rule bit_word_eqI)
  fix n assume "n < LENGTH(32)"
  then consider "n < 8" | "8 \<le> n" "n < 16" | "16 \<le> n" "n < 24" | "24 \<le> n" "n < 32"
    by fastforce
  then show "bit (Uint32 (PutUint32 v)) n = bit v n"
    by cases (simp_all add: Uint32_def PutUint32_def bit_or_iff bit_byte_at bit_byte_at_0)
qed

lemma Uint64_PutUint64 [simp, bytes_simps]: "Uint64 (PutUint64 v) = v"
proof (rule bit_word_eqI)
  fix n assume "n < LENGTH(64)"
  then consider "n < 8" | "8 \<le> n" "n < 16" | "16 \<le> n" "n < 24" | "24 \<le> n" "n < 32"
    | "32 \<le> n" "n < 40" | "40 \<le> n" "n < 48" | "48 \<le> n" "n < 56" | "56 \<le> n" "n < 64"
    by fastforce
  then show "bit (Uint64 (PutUint64 v)) n = bit v n"
    by cases (simp_all add: Uint64_def PutUint64_def bit_or_iff bit_byte_at bit_byte_at_0)
qed

lemma byte_bit_beyond: "8 \<le> n \<Longrightarrow> \<not> bit (w :: byte) n"
  by (auto dest: bit_imp_le_length)

lemma PutUint32_Uint32:
  assumes "length b = 4"
  shows "PutUint32 (Uint32 b) = b"
proof -
  obtain p q r s where b: "b = [p, q, r, s]"
    using assms by (auto simp: numeral_eq_Suc length_Suc_conv)
  have "ucast (Uint32 b) = p" "ucast (drop_bit 8 (Uint32 b)) = q"
    "ucast (drop_bit 16 (Uint32 b)) = r" "ucast (drop_bit 24 (Uint32 b)) = s"
    by (auto simp: b Uint32_def bit_simps byte_bit_beyond intro!: bit_word_eqI)
  then show ?thesis
    by (simp add: PutUint32_def b)
qed

lemma PutUint64_Uint64:
  assumes "length b = 8"
  shows "PutUint64 (Uint64 b) = b"
proof -
  obtain p q r s t u v w where b: "b = [p, q, r, s, t, u, v, w]"
    using assms by (auto simp: numeral_eq_Suc length_Suc_conv)
  have "ucast (Uint64 b) = p" "ucast (drop_bit 8 (Uint64 b)) = q"
    "ucast (drop_bit 16 (Uint64 b)) = r" "ucast (drop_bit 24 (Uint64 b)) = s"
    "ucast (drop_bit 32 (Uint64 b)) = t" "ucast (drop_bit 40 (Uint64 b)) = u"
    "ucast (drop_bit 48 (Uint64 b)) = v" "ucast (drop_bit 56 (Uint64 b)) = w"
    by (auto simp: b Uint64_def bit_simps byte_bit_beyond intro!: bit_word_eqI)
  then show ?thesis
    by (simp add: PutUint64_def b)
qed

interpretation u32_codec: codec PutUint32 Uint32 4
  by unfold_locales simp_all

interpretation u64_codec: codec PutUint64 Uint64 8
  by unfold_locales simp_all

subsection \<open>Prefixes, white space, fields\<close>

definition HasPrefix :: "'a list \<Rightarrow> 'a list \<Rightarrow> bool" where
  "HasPrefix s p \<longleftrightarrow> take (length p) s = p"

definition HasSuffix :: "'a list \<Rightarrow> 'a list \<Rightarrow> bool" where
  "HasSuffix s p \<longleftrightarrow> HasPrefix (rev s) (rev p)"

definition TrimPrefix :: "'a list \<Rightarrow> 'a list \<Rightarrow> 'a list" where
  "TrimPrefix s p = (if HasPrefix s p then drop (length p) s else s)"

lemma HasPrefix_append [simp]: "HasPrefix (p @ s) p"
  by (simp add: HasPrefix_def)

lemma HasPrefix_iff: "HasPrefix s p \<longleftrightarrow> (\<exists>t. s = p @ t)"
  by (metis HasPrefix_append HasPrefix_def append_take_drop_id)

lemma HasSuffix_iff: "HasSuffix s p \<longleftrightarrow> (\<exists>t. s = t @ p)"
  unfolding HasSuffix_def HasPrefix_iff by (metis rev_append rev_rev_ident)

lemma TrimPrefix_append [simp]: "TrimPrefix (p @ s) p = s"
  by (simp add: TrimPrefix_def)

lemma TrimPrefix_id: "\<not> HasPrefix s p \<Longrightarrow> TrimPrefix s p = s"
  by (simp add: TrimPrefix_def)

text \<open>
  The UTF-8 encodings of the characters \<^verbatim>\<open>unicode.IsSpace\<close> accepts. No one of them occurs inside
  the encoding of another character, so looking for them byte by byte finds the runs of white
  space that decoding the string first would find.
\<close>

definition space_seqs :: "nat list list" where
  "space_seqs = [[9], [10], [11], [12], [13], [32], [194, 133], [194, 160], [225, 154, 128],
     [226, 128, 128], [226, 128, 129], [226, 128, 130], [226, 128, 131], [226, 128, 132],
     [226, 128, 133], [226, 128, 134], [226, 128, 135], [226, 128, 136], [226, 128, 137],
     [226, 128, 138], [226, 128, 168], [226, 128, 169], [226, 128, 175], [226, 129, 159],
     [227, 128, 128]]"

text \<open>The length of the white-space character the string starts with, 0 if there is none.\<close>

fun first_space :: "string list \<Rightarrow> string \<Rightarrow> nat" where
  "first_space [] s = 0"
| "first_space (p # ps) s = (if HasPrefix s p then length p else first_space ps s)"

definition space_strings :: "string list" where
  "space_strings = map (map char_of) space_seqs"

definition space_len :: "string \<Rightarrow> nat" where
  "space_len s = first_space space_strings s"

definition space_len_rev :: "string \<Rightarrow> nat" where
  "space_len_rev s = first_space (map rev space_strings) s"

text \<open>\<^verbatim>\<open>strings.Fields\<close>: \<open>skip\<close> counts the remaining bytes of a white-space character, \<open>cur\<close> is the
  field being read.\<close>

fun fields_aux :: "nat \<Rightarrow> string \<Rightarrow> string \<Rightarrow> string list" where
  "fields_aux skip cur [] = (if cur = [] then [] else [cur])"
| "fields_aux (Suc k) cur (c # cs) = fields_aux k cur cs"
| "fields_aux 0 cur (c # cs) =
     (case space_len (c # cs) of
        0 \<Rightarrow> fields_aux 0 (cur @ [c]) cs
      | Suc k \<Rightarrow> (if cur = [] then [] else [cur]) @ fields_aux k [] cs)"

definition Fields :: "string \<Rightarrow> string list" where
  "Fields s = fields_aux 0 [] s"

text \<open>Fields of printable ASCII text.\<close>

lemma first_space_0: "\<forall>p \<in> set ps. p \<noteq> [] \<and> hd p \<noteq> c \<Longrightarrow> first_space ps (c # cs) = 0"
proof (induction ps)
  case (Cons p ps)
  then show ?case by (cases p) (auto simp: HasPrefix_def)
qed simp

lemma space_strings_heads: "\<forall>p \<in> set space_strings. p \<noteq> [] \<and> (of_char (hd p) :: nat) \<notin> {33..126}"
  by (simp add: space_strings_def space_seqs_def)

lemma space_len_visible: "(of_char c :: nat) \<in> {33..126} \<Longrightarrow> space_len (c # cs) = 0"
  unfolding space_len_def using space_strings_heads by (intro first_space_0) blast

lemma space_len_space: "space_len (CHR '' '' # cs) = 1"
  by (simp add: space_len_def space_strings_def space_seqs_def HasPrefix_def char_of_eq_iff eq_commute[of "CHR '' ''"])

lemma fields_aux_visible: "\<forall>c \<in> set w. (of_char c :: nat) \<in> {33..126} \<Longrightarrow>
   fields_aux 0 cur (w @ s) = fields_aux 0 (cur @ w) s"
  by (induction w arbitrary: cur) (simp_all add: space_len_visible)

lemma Fields_two:
  assumes "\<forall>c \<in> set (v @ w). (of_char c :: nat) \<in> {33..126}" "v \<noteq> []" "w \<noteq> []"
  shows "Fields (v @ CHR '' '' # w) = [v, w]"
  using assms fields_aux_visible[of v "[]" "CHR '' '' # w"] fields_aux_visible[of w "[]" "[]"]
  by (simp add: Fields_def space_len_space)

text \<open>\<^verbatim>\<open>strings.TrimSpace\<close>: white space is dropped at the front, then at the end.\<close>

fun trim_aux :: "(string \<Rightarrow> nat) \<Rightarrow> nat \<Rightarrow> string \<Rightarrow> string" where
  "trim_aux sp skip [] = []"
| "trim_aux sp (Suc k) (c # cs) = trim_aux sp k cs"
| "trim_aux sp 0 (c # cs) = (case sp (c # cs) of 0 \<Rightarrow> c # cs | Suc k \<Rightarrow> trim_aux sp k cs)"

definition TrimSpace :: "string \<Rightarrow> string" where
  "TrimSpace s = rev (trim_aux space_len_rev 0 (rev (trim_aux space_len 0 s)))"

subsection \<open>Searching and splitting\<close>

text \<open>\<^verbatim>\<open>bytes.Index\<close>: the first position at which the pattern occurs, \<open>None\<close> for \<^verbatim>\<open>-1\<close>.\<close>

fun Index :: "'a list \<Rightarrow> 'a list \<Rightarrow> nat option" where
  "Index [] p = (if p = [] then Some 0 else None)"
| "Index (x # xs) p = (if HasPrefix (x # xs) p then Some 0 else map_option Suc (Index xs p))"

lemma Index_Some: "Index s p = Some i \<Longrightarrow> i + length p \<le> length s \<and> HasPrefix (drop i s) p"
proof (induction s arbitrary: i)
  case Nil
  then show ?case by (simp add: HasPrefix_def split: if_splits)
next
  case (Cons x xs)
  show ?case
  proof (cases "HasPrefix (x # xs) p")
    case True
    with Cons.prems have "i = 0" by simp
    moreover from True have "length p \<le> length (x # xs)"
      unfolding HasPrefix_iff by (metis length_append le_add1)
    ultimately show ?thesis using True by simp
  next
    case False
    with Cons.prems obtain j where "Index xs p = Some j" "i = Suc j" by auto
    with Cons.IH[of j] show ?thesis by simp
  qed
qed

lemma Index_None: "Index s p = None \<Longrightarrow> \<not> HasPrefix (drop i s) p"
proof (induction s arbitrary: i)
  case Nil
  then show ?case by (simp add: HasPrefix_def split: if_splits)
next
  case (Cons x xs)
  then show ?case by (cases i) (auto split: if_splits)
qed

lemma Index_first: "Index s p = Some i \<Longrightarrow> j < i \<Longrightarrow> \<not> HasPrefix (drop j s) p"
proof (induction s arbitrary: i j)
  case Nil
  then show ?case by (simp split: if_splits)
next
  case (Cons x xs)
  then show ?case by (cases j) (auto split: if_splits)
qed

text \<open>\<^verbatim>\<open>bytes.Split\<close> with a non-empty separator: the pieces between its occurrences, left to right.\<close>

function Split :: "'a list \<Rightarrow> 'a list \<Rightarrow> 'a list list" where
  "Split s sep = (if sep = [] then [s] else
     (case Index s sep of
        None \<Rightarrow> [s]
      | Some i \<Rightarrow> take i s # Split (drop (i + length sep) s) sep))"
  by pat_completeness auto
termination
proof (relation "measure (\<lambda>(s, sep). length s)")
  fix s sep :: "'a list" and i
  assume "sep \<noteq> []" "Index s sep = Some i"
  then have "0 < length sep" "i + length sep \<le> length s"
    by (auto dest: Index_Some)
  then have "length s - (i + length sep) < length s"
    by linarith
  then show "((drop (i + length sep) s, sep), (s, sep)) \<in> measure (\<lambda>(s, sep). length s)"
    by simp
qed simp

declare Split.simps [simp del]

text \<open>Joining pieces with a separator, the inverse of splitting.\<close>

fun join_with :: "'a list \<Rightarrow> 'a list list \<Rightarrow> 'a list" where
  "join_with sep [] = []"
| "join_with sep [p] = p"
| "join_with sep (p # q # ps) = p @ sep @ join_with sep (q # ps)"

lemma Split_nonempty: "Split s sep \<noteq> []"
  by (subst Split.simps) (simp split: option.splits)

lemma join_with_Cons: "ps \<noteq> [] \<Longrightarrow> join_with sep (p # ps) = p @ sep @ join_with sep ps"
  by (cases ps) simp_all

lemma join_Split: "sep \<noteq> [] \<Longrightarrow> join_with sep (Split s sep) = s"
proof (induction s sep rule: Split.induct)
  case (1 s sep)
  show ?case
  proof (cases "Index s sep")
    case None
    with "1.prems" show ?thesis by (simp add: Split.simps[of s sep])
  next
    case (Some i)
    have "sep @ drop (i + length sep) s = drop i s"
      using Index_Some[OF Some] unfolding HasPrefix_def
      by (metis add.commute append_take_drop_id drop_drop)
    then have "take i s @ sep @ drop (i + length sep) s = s"
      by (metis append_take_drop_id)
    moreover have "join_with sep (Split (drop (i + length sep) s) sep) = drop (i + length sep) s"
      using "1" Some by simp
    ultimately show ?thesis
      using Some "1.prems" by (simp add: Split.simps[of s sep] join_with_Cons Split_nonempty)
  qed
qed

end
