(* ===== verification/Scanner.thy ===== *)
theory Scanner
  imports Bytes
begin

text \<open>
  \<^verbatim>\<open>bufio.Scanner\<close> with its default line splitter, as \<^verbatim>\<open>agent/util/util.go\<close>, the system log,
  the emulator's log readers and \<^verbatim>\<open>ReadLine\<close> of the ADB connection use it. A reader is the list
  of the chunks its successive \<^verbatim>\<open>Read\<close> calls deliver and the error after the last one.
  \<open>scan_lines\<close> is the sequence of tokens of a whole stream; \<open>scan_first\<close> is the first
  \<^verbatim>\<open>Scan\<close> of a fresh scanner with its buffer growth, which decides how much of the stream the
  scanner takes into its buffer.
\<close>

definition newline :: byte where "newline = 10"
definition carriage :: byte where "carriage = 13"

definition maxTokenSize :: nat where "maxTokenSize = 65536"

definition dropCR :: "byte list \<Rightarrow> byte list" where
  "dropCR l = (if l \<noteq> [] \<and> last l = carriage then butlast l else l)"

definition line_of :: "byte list \<Rightarrow> byte list" where
  "line_of s = takeWhile (\<lambda>b. b \<noteq> newline) s"

text \<open>All the tokens of a stream, and whether a line too long for the buffer ended the scan.\<close>

function scan_lines :: "byte list \<Rightarrow> byte list list \<times> bool" where
  "scan_lines s = (if s = [] then ([], False)
     else if maxTokenSize \<le> length (line_of s) then ([], True)
     else (let r = scan_lines (drop (Suc (length (line_of s))) s)
           in (dropCR (line_of s) # fst r, snd r)))"
  by pat_completeness auto
termination
  by (relation "measure length") auto

declare scan_lines.simps [simp del]

lemma scan_lines_Nil [simp]: "scan_lines [] = ([], False)"
  by (simp add: scan_lines.simps)

lemma line_of_append: "newline \<notin> set l \<Longrightarrow> line_of (l @ newline # s) = l"
  unfolding line_of_def by (subst takeWhile_append2) auto

lemma line_of_last: "newline \<notin> set l \<Longrightarrow> line_of l = l"
  by (auto simp: line_of_def takeWhile_eq_all_conv)

lemma scan_lines_line:
  assumes "newline \<notin> set l" "length l < maxTokenSize"
  shows "scan_lines (l @ newline # s) = (dropCR l # fst (scan_lines s), snd (scan_lines s))"
  using assms by (subst scan_lines.simps) (simp add: line_of_append Let_def)

lemma scan_lines_last:
  assumes "newline \<notin> set l" "length l < maxTokenSize" "l \<noteq> []"
  shows "scan_lines l = ([dropCR l], False)"
  using assms by (subst scan_lines.simps) (simp add: line_of_last Let_def)

text \<open>Lines without terminators of their own come back as they were written.\<close>

definition plain_line :: "byte list \<Rightarrow> bool" where
  "plain_line l \<longleftrightarrow> newline \<notin> set l \<and> length l < maxTokenSize \<and> (l \<noteq> [] \<longrightarrow> last l \<noteq> carriage)"

lemma dropCR_plain: "plain_line l \<Longrightarrow> dropCR l = l"
  by (auto simp: plain_line_def dropCR_def)

definition unlines :: "byte list list \<Rightarrow> byte list" where
  "unlines ls = concat (map (\<lambda>l. l @ [newline]) ls)"

lemma unlines_simps [simp]:
  "unlines [] = []" "unlines (l # ls) = l @ newline # unlines ls"
  by (simp_all add: unlines_def)

lemma scan_lines_unlines:
  "\<forall>l \<in> set ls. plain_line l \<Longrightarrow> scan_lines (unlines ls) = (ls, False)"
proof (induction ls)
  case (Cons l ls)
  then have "newline \<notin> set l" "length l < maxTokenSize" "dropCR l = l"
    by (auto simp: plain_line_def dropCR_plain)
  with Cons show ?case by (simp add: scan_lines_line)
qed simp

subsection \<open>agent/util/util.go\<close>

text \<open>The scanner's error is not looked at: the lines before an over-long one are returned.\<close>

definition SplitLines :: "string \<Rightarrow> string list" where
  "SplitLines s = map to_str (fst (scan_lines (of_str s)))"

text \<open>Text of one plain line.\<close>

lemma SplitLines_one: "s \<noteq> [] \<Longrightarrow> plain_line s \<Longrightarrow> SplitLines (to_str s) = [to_str s]"
  using scan_lines_last[of s] by (simp add: SplitLines_def dropCR_plain plain_line_def)

subsection \<open>The first scan of a fresh scanner\<close>

text \<open>One \<^verbatim>\<open>Read\<close> with room for \<open>n\<close> bytes: at most one chunk; what does not fit stays.\<close>

fun read_chunk :: "nat \<Rightarrow> byte list list \<Rightarrow> (byte list \<times> byte list list) option" where
  "read_chunk n [] = None"
| "read_chunk n (ch # cs) =
     (if ch = [] then read_chunk n cs
      else if length ch \<le> n then Some (ch, cs)
      else Some (take n ch, drop n ch # cs))"

lemma read_chunk_concat:
  "read_chunk n cs = Some (d, cs') \<Longrightarrow> concat cs = d @ concat cs' \<and> length d \<le> n"
  by (induction n cs rule: read_chunk.induct) (auto split: if_splits)

lemma read_chunk_nonempty:
  "read_chunk n cs = Some (d, cs') \<Longrightarrow> 0 < n \<Longrightarrow> d \<noteq> []"
  by (induction n cs rule: read_chunk.induct) (auto split: if_splits)

lemma read_chunk_None: "read_chunk n cs = None \<longleftrightarrow> concat cs = []"
  by (induction n cs rule: read_chunk.induct) auto

datatype scan_result = Token "byte list" | NoToken | ScanErr goerr

definition grow :: "nat \<Rightarrow> nat" where
  "grow cap = min maxTokenSize (if cap = 0 then 4096 else 2 * cap)"

lemma grow_less: "cap < maxTokenSize \<Longrightarrow> cap < grow cap"
  by (simp add: grow_def maxTokenSize_def)

text \<open>
  \<open>cap\<close> is the size of the buffer and \<open>pend\<close> what it holds; \<open>e\<close> is the error the reader gives
  after its last chunk.
\<close>

function scan_first :: "goerr \<Rightarrow> nat \<Rightarrow> byte list \<Rightarrow> byte list list \<Rightarrow> scan_result \<times> byte list list" where
  "scan_first e cap pend cs =
     (if newline \<in> set pend then (Token (dropCR (line_of pend)), cs)
      else if cap \<le> length pend then
        (if maxTokenSize \<le> cap then (ScanErr TooLong, cs) else scan_first e (grow cap) pend cs)
      else (case read_chunk (cap - length pend) cs of
          None \<Rightarrow> (if pend \<noteq> [] then Token (dropCR pend)
                   else if e = EOF then NoToken else ScanErr e, [])
        | Some (d, cs') \<Rightarrow> scan_first e cap (pend @ d) cs'))"
  by pat_completeness auto
termination
proof (relation "measures [\<lambda>(e, cap, pend, cs). length (concat cs), \<lambda>(e, cap, pend, cs). maxTokenSize - cap]",
    goal_cases)
  case (2 e cap pend cs)
  then show ?case using grow_less[of cap] by simp
next
  case (3 e cap pend cs x d cs')
  then have "read_chunk (cap - length pend) cs = Some (d, cs')" "0 < cap - length pend"
    by auto
  then have "concat cs = d @ concat cs'" "d \<noteq> []"
    by (auto dest: read_chunk_concat read_chunk_nonempty)
  then show ?case by simp
qed simp

declare scan_first.simps [simp del]

text \<open>The token does not depend on how the stream was cut into chunks: it is the first line.\<close>

definition first_token :: "goerr \<Rightarrow> byte list \<Rightarrow> scan_result" where
  "first_token e s =
     (if s = [] then (if e = EOF then NoToken else ScanErr e)
      else if maxTokenSize \<le> length (line_of s) then ScanErr TooLong
      else Token (dropCR (line_of s)))"

lemma line_of_prefix: "newline \<in> set p \<Longrightarrow> line_of (p @ s) = line_of p"
  by (auto simp: line_of_def takeWhile_append1)

lemma line_of_all: "newline \<notin> set p \<Longrightarrow> length p \<le> length (line_of (p @ s))"
  unfolding line_of_def by (subst takeWhile_append2) auto

lemma length_line_of_less: "newline \<in> set p \<Longrightarrow> length (line_of p) < length p"
  unfolding line_of_def by (induction p) auto

lemma scan_first_token:
  "cap \<le> maxTokenSize \<Longrightarrow> length pend \<le> cap \<Longrightarrow>
   fst (scan_first e cap pend cs) = first_token e (pend @ concat cs)"
proof (induction e cap pend cs rule: scan_first.induct)
  case (1 e cap pend cs)
  show ?case
  proof (cases "newline \<in> set pend")
    case True
    then have "line_of (pend @ concat cs) = line_of pend" "length (line_of pend) < maxTokenSize" "pend \<noteq> []"
      using line_of_prefix length_line_of_less[OF True] "1.prems" by auto
    with True show ?thesis by (subst scan_first.simps) (simp add: first_token_def)
  next
    case nonl: False
    show ?thesis
    proof (cases "cap \<le> length pend")
      case full: True
      show ?thesis
      proof (cases "maxTokenSize \<le> cap")
        case True
        then have "pend \<noteq> []" "maxTokenSize \<le> length (line_of (pend @ concat cs))"
          using full line_of_all[OF nonl, of "concat cs"] by (auto simp: maxTokenSize_def)
        with True full nonl show ?thesis by (subst scan_first.simps) (simp add: first_token_def)
      next
        case False
        then have "grow cap \<le> maxTokenSize" "length pend \<le> grow cap"
          using grow_less[of cap] "1.prems" by (auto simp: grow_def)
        with "1.IH"(1)[OF nonl full False] nonl full False show ?thesis
          by (subst scan_first.simps) simp
      qed
    next
      case room: False
      show ?thesis
      proof (cases "read_chunk (cap - length pend) cs")
        case None
        then have "pend @ concat cs = pend" by (simp only: read_chunk_None append_Nil2)
        with None nonl room "1.prems" show ?thesis
          by (subst scan_first.simps) (auto simp: first_token_def line_of_last simp del: concat_eq_Nil_conv)
      next
        case (Some r)
        obtain d cs' where r: "r = (d, cs')" by (cases r)
        with Some have c: "concat cs = d @ concat cs'" "length (pend @ d) \<le> cap"
          using read_chunk_concat[of "cap - length pend" cs d cs'] room by auto
        with "1.IH"(2)[OF nonl room Some] "1.prems" nonl room Some r show ?thesis
          by (subst scan_first.simps) simp
      qed
    qed
  qed
qed

text \<open>Only whole chunks, or the front of one, are taken: the rest of the stream is a suffix.\<close>

lemma scan_first_suffix: "\<exists>t. pend @ concat cs = t @ concat (snd (scan_first e cap pend cs))"
proof (induction e cap pend cs rule: scan_first.induct)
  case (1 e cap pend cs)
  show ?case
  proof (cases "newline \<in> set pend")
    case True
    then show ?thesis by (subst scan_first.simps) auto
  next
    case nonl: False
    show ?thesis
    proof (cases "cap \<le> length pend")
      case True
      with "1.IH"(1)[OF nonl] nonl show ?thesis by (subst scan_first.simps) auto
    next
      case room: False
      show ?thesis
      proof (cases "read_chunk (cap - length pend) cs")
        case None
        with nonl room show ?thesis by (subst scan_first.simps) (auto split: if_splits)
      next
        case (Some r)
        obtain d cs' where r: "r = (d, cs')" by (cases r)
        with Some have "concat cs = d @ concat cs'"
          by (auto dest: read_chunk_concat)
        with "1.IH"(2)[OF nonl room Some] nonl room Some r show ?thesis
          by (subst scan_first.simps) auto
      qed
    qed
  qed
qed

end
