(* ===== verification/RawConn.thy ===== *)
theory RawConn
  imports Scanner
begin

text \<open>
  \<^verbatim>\<open>agent/server/adb/raw.go\<close>: the framing of the ADB protocol over a network connection.

  A connection is described by what its environment will do: the chunks the peer's bytes arrive
  in and the error after them, the outcome of each \<^verbatim>\<open>Write\<close>, the error \<^verbatim>\<open>Close\<close> reports. The
  program's part is what it has written, and whether it has closed the connection. Statements
  over all connections are statements over all peers: whatever the peer answers along the
  way is the input of some connection. A peer that stays silent for ever is not
  distinguished from one that has not answered yet.
\<close>

subsection \<open>Network connections\<close>

text \<open>What one \<^verbatim>\<open>Write\<close> does: all of it, only some bytes, or some bytes and an error.\<close>

datatype wres = WFull | WShort nat | WFail nat goerr

record conn =
  inq :: "byte list list"
  inend :: goerr
  outb :: "byte list"
  wscript :: "wres list"
  closed :: bool
  close_err :: "goerr option"

definition incoming :: "conn \<Rightarrow> byte list" where
  "incoming c = concat (inq c)"

definition net_write :: "byte list \<Rightarrow> conn \<Rightarrow> (nat \<times> goerr option) \<times> conn" where
  "net_write p c =
     (if closed c then ((0, Some NetClosed), c)
      else case wscript c of
        [] \<Rightarrow> ((length p, None), c\<lparr>outb := outb c @ p\<rparr>)
      | WFull # ws \<Rightarrow> ((length p, None), c\<lparr>outb := outb c @ p, wscript := ws\<rparr>)
      | WShort n # ws \<Rightarrow>
          ((min n (length p), None), c\<lparr>outb := outb c @ take n p, wscript := ws\<rparr>)
      | WFail n e # ws \<Rightarrow>
          ((min n (length p), Some e), c\<lparr>outb := outb c @ take n p, wscript := ws\<rparr>))"

definition net_close :: "conn \<Rightarrow> goerr option \<times> conn" where
  "net_close c = (if closed c then (Some NetClosed, c) else (close_err c, c\<lparr>closed := True\<rparr>))"

text \<open>The loop of \<^verbatim>\<open>io.ReadFull\<close>: whole chunks while they fit, then the front of one.\<close>

fun take_bytes :: "nat \<Rightarrow> byte list list \<Rightarrow> byte list \<times> byte list list" where
  "take_bytes n [] = ([], [])"
| "take_bytes n (ch # cs) =
     (if n = 0 then ([], ch # cs)
      else if n < length ch then (take n ch, drop n ch # cs)
      else (let r = take_bytes (n - length ch) cs in (ch @ fst r, snd r)))"

definition ReadFull :: "nat \<Rightarrow> conn \<Rightarrow> byte list res \<times> conn" where
  "ReadFull n c =
     (if n = 0 then (Ok [], c)
      else if closed c then (Err NetClosed, c)
      else (let r = take_bytes n (inq c); c' = c\<lparr>inq := snd r\<rparr>
            in if length (fst r) = n then (Ok (fst r), c')
               else (Err (if inend c = EOF \<and> fst r \<noteq> [] then UnexpectedEOF else inend c), c')))"

lemma take_bytes_eq:
  "fst (take_bytes n cs) = take n (concat cs) \<and> concat (snd (take_bytes n cs)) = drop n (concat cs)"
  by (induction n cs rule: take_bytes.induct) (auto simp: Let_def)

lemma ReadFull_eq:
  assumes "\<not> closed c"
  shows "fst (ReadFull n c) =
      (if n \<le> length (incoming c) then Ok (take n (incoming c))
       else Err (if inend c = EOF \<and> incoming c \<noteq> [] then UnexpectedEOF else inend c))"
    and "incoming (snd (ReadFull n c)) = drop n (incoming c)"
    and "\<exists>q. snd (ReadFull n c) = c\<lparr>inq := q\<rparr>"
  using assms take_bytes_eq[of n "inq c"]
  by (auto simp: ReadFull_def Let_def incoming_def min_def intro: exI[of _ "inq c"])

subsection \<open>The operations of networkRawConn\<close>

text \<open>\<^verbatim>\<open>Close\<close> hides the error of closing twice.\<close>

definition Close :: "conn \<Rightarrow> unit res \<times> conn" where
  "Close c = (case net_close c of
     (None, c') \<Rightarrow> (Ok (), c')
   | (Some e, c') \<Rightarrow> (if e = NetClosed then Ok () else Err e, c'))"

text \<open>A call of \<^verbatim>\<open>Close\<close> whose result is dropped.\<close>

abbreviation do_close :: "conn \<Rightarrow> conn" where
  "do_close c \<equiv> snd (Close c)"

definition WriteRaw :: "byte list \<Rightarrow> conn \<Rightarrow> unit res \<times> conn" where
  "WriteRaw packet c = (case net_write packet c of
     ((wrote, Some e), c') \<Rightarrow> (Err e, do_close c')
   | ((wrote, None), c') \<Rightarrow>
       (if wrote \<noteq> length packet
        then (Err (NewError ''failed to write full packet''), do_close c')
        else (Ok (), c')))"

definition message_packet :: "byte list \<Rightarrow> byte list" where
  "message_packet msg = of_str (fmt_04x (length msg)) @ msg"

definition WriteMessage :: "byte list \<Rightarrow> conn \<Rightarrow> unit res \<times> conn" where
  "WriteMessage msg c = on_ok (WriteRaw (message_packet msg) c) do_close (\<lambda>_ c. (Ok (), c))"

definition ReadRaw :: "nat \<Rightarrow> conn \<Rightarrow> byte list res \<times> conn" where
  "ReadRaw n c = on_ok (ReadFull n c) do_close (\<lambda>blob c. (Ok blob, c))"

definition ReadStatus :: "conn \<Rightarrow> string res \<times> conn" where
  "ReadStatus c = on_ok (ReadFull 4 c) do_close (\<lambda>resp c. (Ok (to_str resp), c))"

definition ReadHexPrefixedBlob :: "conn \<Rightarrow> byte list res \<times> conn" where
  "ReadHexPrefixedBlob c =
     on_ok (ReadFull 4 c) do_close (\<lambda>sizeBlob c.
     on_ok (ParseInt16 (to_str sizeBlob), c) do_close (\<lambda>size c.
     if size < 0 then (Panic MakeSliceLen, c)
     else on_ok (ReadFull (nat size) c) do_close (\<lambda>blob c. (Ok blob, c))))"

definition ReadShellBlob :: "conn \<Rightarrow> (byte \<times> byte list) res \<times> conn" where
  "ReadShellBlob c =
     on_ok (ReadFull 5 c) do_close (\<lambda>header c.
     let sid = header ! 0; size = Uint32 (drop 1 header)
     in on_ok (ReadFull (unat size) c) do_close (\<lambda>blob c. (Ok (sid, blob), c)))"

text \<open>A scanner is made for this one line; what it has buffered is lost with it.\<close>

definition ReadLine :: "conn \<Rightarrow> string option res \<times> conn" where
  "ReadLine c =
     (case (if closed c then (ScanErr NetClosed, inq c) else scan_first (inend c) 0 [] (inq c)) of
        (Token t, q) \<Rightarrow> (Ok (Some (to_str t)), c\<lparr>inq := q\<rparr>)
      | (NoToken, q) \<Rightarrow> (Ok None, do_close (c\<lparr>inq := q\<rparr>))
      | (ScanErr e, q) \<Rightarrow> (Err e, do_close (c\<lparr>inq := q\<rparr>)))"

definition shell_header :: "byte \<Rightarrow> byte list \<Rightarrow> byte list" where
  "shell_header sid blob = sid # PutUint32 (word_of_nat (length blob))"

definition WriteShellBlob :: "byte \<Rightarrow> byte list \<Rightarrow> conn \<Rightarrow> unit res \<times> conn" where
  "WriteShellBlob sid blob c =
     on_ok (WriteRaw (shell_header sid blob) c) do_close (\<lambda>_ c.
     on_ok (WriteRaw blob c) do_close (\<lambda>_ c. (Ok (), c)))"

definition SendCommand :: "byte list \<Rightarrow> conn \<Rightarrow> unit res \<times> conn" where
  "SendCommand cmd c =
     on_ok (WriteMessage cmd c) do_close (\<lambda>_ c.
     on_ok (ReadStatus c) do_close (\<lambda>status c.
     if status \<noteq> ''OKAY'' then
       on_ok (ReadHexPrefixedBlob c) do_close (\<lambda>errBlob c.
         (Err (NewError (''server error: '' @ to_str errBlob)), c))
     else (Ok (), c)))"

subsection \<open>The contract of an operation\<close>

text \<open>
  \<open>later c c'\<close>: \<open>c'\<close> is \<open>c\<close> after some of its input has been read and some output appended; a
  closed connection stays closed. \<open>same_stream c d\<close>: the two connections differ only in how
  the peer's bytes are cut into chunks.
\<close>

definition later :: "conn \<Rightarrow> conn \<Rightarrow> bool" where
  "later c c' \<longleftrightarrow> (\<exists>r. incoming c = r @ incoming c') \<and> (\<exists>w. outb c' = outb c @ w)
     \<and> (closed c \<longrightarrow> closed c' \<and> outb c' = outb c)"

definition same_stream :: "conn \<Rightarrow> conn \<Rightarrow> bool" where
  "same_stream c d \<longleftrightarrow> incoming c = incoming d \<and> inend c = inend d \<and> outb c = outb d
     \<and> wscript c = wscript d \<and> closed c = closed d \<and> close_err c = close_err d"

lemma later_refl [simp, intro]: "later c c"
  by (simp add: later_def)

lemma later_trans [trans]: "later a b \<Longrightarrow> later b c \<Longrightarrow> later a c"
  by (auto simp: later_def)

lemma later_out: "later c c' \<Longrightarrow> outb c' = outb c @ drop (length (outb c)) (outb c')"
  by (auto simp: later_def)

lemma same_stream_refl [simp, intro]: "same_stream c c"
  by (simp add: same_stream_def)

lemma same_stream_sym: "same_stream c d \<Longrightarrow> same_stream d c"
  by (simp add: same_stream_def)

text \<open>
  Every operation of the connection keeps \<open>later\<close>, and all but \<open>ReadLine\<close> give the same result
  however the input is segmented.
\<close>

locale conn_op =
  fixes f :: "conn \<Rightarrow> 'a res \<times> conn"
  assumes advances: "later c (snd (f c))"
    and blind: "same_stream c d \<Longrightarrow> fst (f c) = fst (f d) \<and> same_stream (snd (f c)) (snd (f d))"
begin

lemma stays_closed: "closed c \<Longrightarrow> closed (snd (f c))"
  using advances[of c] by (simp add: later_def)

lemma silent_when_closed: "closed c \<Longrightarrow> outb (snd (f c)) = outb c"
  using advances[of c] by (simp add: later_def)

lemma result_flat: "fst (f c) = fst (f (c\<lparr>inq := [incoming c]\<rparr>))"
proof -
  have "same_stream c (c\<lparr>inq := [incoming c]\<rparr>)"
    by (simp add: same_stream_def incoming_def)
  then show ?thesis using blind by blast
qed

end

text \<open>Operations whose every error leaves the connection closed.\<close>

locale closing_op = conn_op +
  assumes err_closes: "fst (f c) = Err e \<Longrightarrow> closed (snd (f c))"
begin

lemma open_unless_err: "\<not> closed (snd (f c)) \<Longrightarrow> fst (f c) \<noteq> Err e"
  using err_closes by blast

end

subsection \<open>Composing operations\<close>

text \<open>The contracts are closed under the program's control flow, so that each operation's proof is a
  walk over its body.\<close>

named_theorems conn_intros \<open>contracts of composed operations\<close>

lemma later_Close: "later c (do_close c)"
  by (auto simp: Close_def net_close_def later_def incoming_def split: option.splits)

lemma Close_blind:
  "same_stream c d \<Longrightarrow> fst (Close c) = fst (Close d) \<and> same_stream (do_close c) (do_close d)"
  by (auto simp: Close_def net_close_def same_stream_def incoming_def split: option.splits)

lemma closed_Close [simp]: "closed (do_close c)"
  by (auto simp: Close_def net_close_def split: option.splits)

lemma conn_op_return [conn_intros]: "conn_op (\<lambda>c. (r, c))"
  by unfold_locales simp_all

lemma conn_op_fail [conn_intros]: "conn_op (\<lambda>c. (r, do_close c))"
  by unfold_locales (simp_all add: later_Close Close_blind)

lemma conn_op_if [conn_intros]: "conn_op f \<Longrightarrow> conn_op g \<Longrightarrow> conn_op (\<lambda>c. if b then f c else g c)"
  by (cases b) simp_all

lemma conn_op_on_ok [conn_intros]:
  assumes f: "conn_op f" and k: "\<And>a. conn_op (k a)"
  shows "conn_op (\<lambda>c. on_ok (f c) do_close k)"
proof
  fix c
  show "later c (snd (on_ok (f c) do_close k))"
    using conn_op.advances[OF f, of c]
    by (cases "f c" rule: res_pair_cases) (auto intro: later_trans later_Close conn_op.advances[OF k])
next
  fix c d assume "same_stream c d"
  from conn_op.blind[OF f this] have "fst (f c) = fst (f d)" "same_stream (snd (f c)) (snd (f d))"
    by auto
  then show "fst (on_ok (f c) do_close k) = fst (on_ok (f d) do_close k)
      \<and> same_stream (snd (on_ok (f c) do_close k)) (snd (on_ok (f d) do_close k))"
    using conn_op.blind[OF k] Close_blind
    by (cases "f c" rule: res_pair_cases; cases "f d") auto
qed

lemma conn_op_deferring [conn_intros]:
  assumes "conn_op f"
  shows "conn_op (\<lambda>c. deferring do_close (f c))"
  using conn_op.blind[OF assms] Close_blind
  by unfold_locales (auto intro: later_trans[OF conn_op.advances[OF assms]] later_Close)

lemma closing_op_return [conn_intros]: "closing_op (\<lambda>c. (Ok a, c))"
  by (intro closing_op.intro conn_op_return closing_op_axioms.intro) simp

lemma closing_op_panic [conn_intros]: "closing_op (\<lambda>c. (Panic p, c))"
  by (intro closing_op.intro conn_op_return closing_op_axioms.intro) simp

lemma closing_op_fail [conn_intros]: "closing_op (\<lambda>c. (r, do_close c))"
  by (intro closing_op.intro conn_op_fail closing_op_axioms.intro) simp

lemma closing_op_if [conn_intros]:
  "closing_op f \<Longrightarrow> closing_op g \<Longrightarrow> closing_op (\<lambda>c. if b then f c else g c)"
  by (cases b) simp_all

lemma closing_op_deferring [conn_intros]:
  "conn_op f \<Longrightarrow> closing_op (\<lambda>c. deferring do_close (f c))"
  by (intro closing_op.intro conn_op_deferring closing_op_axioms.intro) auto

lemma closing_op_on_ok [conn_intros]:
  assumes f: "conn_op f" and k: "\<And>a. closing_op (k a)"
  shows "closing_op (\<lambda>c. on_ok (f c) do_close k)"
proof (intro closing_op.intro conn_op_on_ok closing_op_axioms.intro f)
  show "conn_op (k a)" for a
    using k[of a] by (simp add: closing_op_def)
next
  fix c e assume "fst (on_ok (f c) do_close k) = Err e"
  then show "closed (snd (on_ok (f c) do_close k))"
    by (cases "f c" rule: res_pair_cases) (auto intro: closing_op.err_closes[OF k])
qed

lemma closing_op_conn_op: "closing_op f \<Longrightarrow> conn_op f"
  by (simp add: closing_op_def)

lemma conn_op_ReadFull [conn_intros]: "conn_op (ReadFull n)"
proof
  fix c
  show "later c (snd (ReadFull n c))"
  proof (cases "closed c")
    case True
    then show ?thesis by (simp add: ReadFull_def)
  next
    case False
    from ReadFull_eq(3)[OF this] obtain q where "snd (ReadFull n c) = c\<lparr>inq := q\<rparr>" by auto
    with ReadFull_eq(2)[OF False, of n] show ?thesis
      by (auto simp: later_def False intro: exI[of _ "take n (incoming c)"])
  qed
next
  fix c d assume ss: "same_stream c d"
  show "fst (ReadFull n c) = fst (ReadFull n d) \<and> same_stream (snd (ReadFull n c)) (snd (ReadFull n d))"
  proof (cases "closed c")
    case True
    then show ?thesis using ss by (auto simp: ReadFull_def same_stream_def)
  next
    case False
    then have d: "\<not> closed d" using ss by (simp add: same_stream_def)
    obtain q r where "snd (ReadFull n c) = c\<lparr>inq := q\<rparr>" "snd (ReadFull n d) = d\<lparr>inq := r\<rparr>"
      using ReadFull_eq(3)[OF False] ReadFull_eq(3)[OF d] by blast
    with ss ReadFull_eq(1,2)[OF False, of n] ReadFull_eq(1,2)[OF d, of n] show ?thesis
      by (simp add: same_stream_def)
  qed
qed

lemma net_write_later: "later c (snd (net_write p c))"
  by (auto simp: net_write_def later_def incoming_def split: list.splits wres.splits)

lemma net_write_blind:
  "same_stream c d \<Longrightarrow>
   fst (net_write p c) = fst (net_write p d) \<and> same_stream (snd (net_write p c)) (snd (net_write p d))"
  by (auto simp: net_write_def same_stream_def incoming_def split: list.splits wres.splits)

lemma WriteRaw_cases:
  obtains "WriteRaw p c = (Ok (), snd (net_write p c))"
  | e where "WriteRaw p c = (Err e, do_close (snd (net_write p c)))"
  by (cases "net_write p c"; cases "fst (net_write p c)"; cases "snd (fst (net_write p c))";
      cases "fst (fst (net_write p c)) = length p") (auto simp: WriteRaw_def)

lemma closing_op_WriteRaw [conn_intros]: "closing_op (WriteRaw p)"
proof
  fix c
  show "later c (snd (WriteRaw p c))"
    by (rule WriteRaw_cases[of p c]) (auto intro: later_trans net_write_later later_Close)
next
  fix c d assume "same_stream c d"
  from net_write_blind[OF this, of p] show
    "fst (WriteRaw p c) = fst (WriteRaw p d) \<and> same_stream (snd (WriteRaw p c)) (snd (WriteRaw p d))"
    using Close_blind
    by (cases "net_write p c"; cases "net_write p d") (auto simp: WriteRaw_def split: option.splits prod.splits)
next
  fix c e assume "fst (WriteRaw p c) = Err e"
  then show "closed (snd (WriteRaw p c))"
    by (rule_tac WriteRaw_cases[of p c]) auto
qed

lemmas conn_op_WriteRaw [conn_intros] = closing_op_WriteRaw [THEN closing_op_conn_op]

subsection \<open>The operations keep their contracts\<close>

interpretation read_raw: closing_op "ReadRaw n" for n
  unfolding ReadRaw_def[abs_def] by (intro conn_intros)

interpretation read_status: closing_op ReadStatus
  unfolding ReadStatus_def[abs_def] by (intro conn_intros)

interpretation read_hex: closing_op ReadHexPrefixedBlob
  unfolding ReadHexPrefixedBlob_def[abs_def] by (intro conn_intros)

interpretation read_shell: closing_op ReadShellBlob
  unfolding ReadShellBlob_def[abs_def] Let_def by (intro conn_intros)

interpretation write_message: closing_op "WriteMessage msg" for msg
  unfolding WriteMessage_def[abs_def] by (intro conn_intros)

interpretation write_shell: closing_op "WriteShellBlob sid blob" for sid blob
  unfolding WriteShellBlob_def[abs_def] by (intro conn_intros)

lemmas conn_op_basic [conn_intros] =
  read_raw.conn_op_axioms read_status.conn_op_axioms read_hex.conn_op_axioms
  read_shell.conn_op_axioms write_message.conn_op_axioms write_shell.conn_op_axioms

lemmas closing_op_basic [conn_intros] =
  read_raw.closing_op_axioms read_status.closing_op_axioms read_hex.closing_op_axioms
  read_shell.closing_op_axioms write_message.closing_op_axioms write_shell.closing_op_axioms

text \<open>\<open>SendCommand\<close> is only a \<open>conn_op\<close>: a refusal by the server leaves the connection open.\<close>

interpretation send_command: conn_op "SendCommand cmd" for cmd
  unfolding SendCommand_def[abs_def] by (intro conn_intros)

lemmas conn_op_SendCommand [conn_intros] = send_command.conn_op_axioms

lemma SendCommand_err:
  assumes "fst (SendCommand cmd c) = Err e"
  shows "closed (snd (SendCommand cmd c)) \<or> (\<exists>m. e = NewError (''server error: '' @ m))"
proof -
  obtain c1 where w: "WriteMessage cmd c = (Ok (), c1) \<or> fst (SendCommand cmd c) \<noteq> Ok () \<and> closed (snd (SendCommand cmd c))"
    using assms by (cases "WriteMessage cmd c" rule: res_pair_cases) (auto simp: SendCommand_def)
  show ?thesis
    using w assms
    by (cases "ReadStatus c1" rule: res_pair_cases;
        cases "ReadHexPrefixedBlob (snd (ReadStatus c1))" rule: res_pair_cases)
      (auto simp: SendCommand_def split: if_splits)
qed

subsection \<open>Running the operations on a healthy connection\<close>

definition healthy :: "conn \<Rightarrow> bool" where
  "healthy c \<longleftrightarrow> \<not> closed c \<and> wscript c = []"

definition emit :: "byte list \<Rightarrow> conn \<Rightarrow> conn" where
  "emit p c = c\<lparr>outb := outb c @ p\<rparr>"

definition consume :: "nat \<Rightarrow> conn \<Rightarrow> conn" where
  "consume n c = c\<lparr>inq := snd (take_bytes n (inq c))\<rparr>"

lemma emit_simps [simp]:
  "incoming (emit p c) = incoming c" "healthy (emit p c) = healthy c" "outb (emit p c) = outb c @ p"
  "closed (emit p c) = closed c" "inend (emit p c) = inend c"
  by (simp_all add: emit_def incoming_def healthy_def)

lemma consume_simps [simp]:
  "incoming (consume n c) = drop n (incoming c)" "healthy (consume n c) = healthy c"
  "outb (consume n c) = outb c" "closed (consume n c) = closed c" "inend (consume n c) = inend c"
  using take_bytes_eq[of n "inq c"] by (simp_all add: consume_def incoming_def healthy_def)

lemma Close_healthy [simp]: "outb (do_close c) = outb c" "incoming (do_close c) = incoming c"
  by (auto simp: Close_def net_close_def incoming_def split: option.splits)

lemma take_bytes_0: "take_bytes 0 q = ([], q)"
  by (cases q) simp_all

lemma ReadFull_ok:
  "healthy c \<Longrightarrow> n \<le> length (incoming c) \<Longrightarrow> ReadFull n c = (Ok (take n (incoming c)), consume n c)"
  using take_bytes_eq[of n "inq c"]
  by (cases "n = 0")
    (auto simp: ReadFull_def Let_def healthy_def incoming_def consume_def min_def take_bytes_0)

lemma ReadFull_prefix:
  "healthy c \<Longrightarrow> incoming c = d @ rest \<Longrightarrow> n = length d \<Longrightarrow> ReadFull n c = (Ok d, consume n c)"
  by (simp add: ReadFull_ok)

lemma ReadFull_short:
  assumes "healthy c" "length (incoming c) < n"
  shows "\<exists>e c'. ReadFull n c = (Err e, c')"
  using ReadFull_eq(1)[of c n] assms
  by (cases "ReadFull n c") (auto simp: healthy_def split: if_splits)

lemma WriteRaw_ok: "healthy c \<Longrightarrow> WriteRaw p c = (Ok (), emit p c)"
  by (simp add: WriteRaw_def net_write_def healthy_def emit_def)

lemma ReadRaw_prefix:
  "healthy c \<Longrightarrow> incoming c = d @ rest \<Longrightarrow> n = length d \<Longrightarrow> ReadRaw n c = (Ok d, consume n c)"
  by (simp add: ReadRaw_def ReadFull_ok)

lemma WriteMessage_ok: "healthy c \<Longrightarrow> WriteMessage m c = (Ok (), emit (message_packet m) c)"
  by (simp add: WriteMessage_def WriteRaw_ok)

lemma WriteShellBlob_ok:
  "healthy c \<Longrightarrow> WriteShellBlob sid b c = (Ok (), emit b (emit (shell_header sid b) c))"
  by (simp add: WriteShellBlob_def WriteRaw_ok)

lemma ParseInt16_04x: "ParseInt16 (fmt_04x n) = Ok (int n)"
proof -
  obtain c cs where eq: "fmt_04x n = c # cs"
    using length_fmt_base_ge[of 16 0 n] by (cases "fmt_04x n") (auto simp: fmt_04x_def Let_def)
  have "c \<noteq> CHR ''-'' \<and> c \<noteq> CHR ''+''"
    using hex_digits_04x[of n] eq by (auto simp: digit_val_def split: option.splits)
  then show ?thesis
    using hex_digits_04x[of n] eq by (simp add: ParseInt16_def Let_def)
qed

lemma ReadHex_ok:
  assumes "healthy c" "incoming c = message_packet m @ rest" "length m < 65536"
  shows "ReadHexPrefixedBlob c = (Ok m, consume (length m) (consume 4 c))"
proof -
  let ?h = "of_str (fmt_04x (length m))"
  have h: "length ?h = 4" using assms(3) by (simp add: length_04x)
  have "ReadFull 4 c = (Ok ?h, consume 4 c)"
    using assms h by (intro ReadFull_prefix) (simp_all add: message_packet_def)
  moreover have "ReadFull (length m) (consume 4 c) = (Ok m, consume (length m) (consume 4 c))"
    using assms h by (intro ReadFull_prefix) (simp_all add: message_packet_def)
  ultimately show ?thesis
    by (simp add: ReadHexPrefixedBlob_def ParseInt16_04x)
qed

lemma ReadShellBlob_ok:
  assumes "healthy c" "incoming c = shell_header sid b @ b @ rest" "length b < 2 ^ 32"
  shows "ReadShellBlob c = (Ok (sid, b), consume (length b) (consume 5 c))"
proof -
  have "ReadFull 5 c = (Ok (shell_header sid b), consume 5 c)"
    using assms by (intro ReadFull_prefix) (simp_all add: shell_header_def)
  moreover have "ReadFull (length b) (consume 5 c) = (Ok b, consume (length b) (consume 5 c))"
    using assms by (intro ReadFull_prefix) (simp_all add: shell_header_def)
  moreover have "unat (word_of_nat (length b) :: u32) = length b"
    using assms(3) by (simp add: unat_of_nat take_bit_nat_eq_self)
  ultimately show ?thesis
    by (simp add: ReadShellBlob_def shell_header_def Let_def)
qed

lemma ReadStatus_ok:
  "healthy c \<Longrightarrow> incoming c = of_str s @ rest \<Longrightarrow> length s = 4 \<Longrightarrow> ReadStatus c = (Ok s, consume 4 c)"
  using ReadFull_prefix[of c "of_str s" rest 4] by (simp add: ReadStatus_def)

lemma okay_twice: "of_str ''OKAYOKAY'' = of_str ''OKAY'' @ of_str ''OKAY''"
  by (simp add: of_str_def)

lemma SendCommand_okay:
  assumes "healthy c" "incoming c = of_str ''OKAY'' @ rest"
  shows "SendCommand cmd c = (Ok (), consume 4 (emit (message_packet cmd) c))"
  using assms ReadStatus_ok[of "emit (message_packet cmd) c" "''OKAY''" rest]
  by (simp add: SendCommand_def WriteMessage_ok)

lemma SendCommand_refused:
  assumes "healthy c" "incoming c = of_str s @ message_packet m @ rest"
    "length s = 4" "s \<noteq> ''OKAY''" "length m < 65536"
  shows "SendCommand cmd c = (Err (NewError (''server error: '' @ to_str m)),
    consume (length m) (consume 4 (consume 4 (emit (message_packet cmd) c))))"
  using assms ReadStatus_ok[of "emit (message_packet cmd) c" s "message_packet m @ rest"]
    ReadHex_ok[of "consume 4 (emit (message_packet cmd) c)" m rest]
  by (simp add: SendCommand_def WriteMessage_ok)

text \<open>What a length prefix of four characters can announce.\<close>

lemma digit_val_less: "digit_val c = Some d \<Longrightarrow> d < 16"
  by (auto simp: digit_val_def Let_def split: if_splits)

lemma hex_digits_less: "hex_digits acc s = Some n \<Longrightarrow> n < 16 ^ length s * Suc acc"
proof (induction s arbitrary: acc)
  case (Cons c cs)
  then obtain d where d: "digit_val c = Some d" "hex_digits (16 * acc + d) cs = Some n"
    by (auto split: option.splits)
  then have "n < 16 ^ length cs * Suc (16 * acc + d)"
    using Cons.IH by blast
  also have "\<dots> \<le> 16 ^ length cs * (16 * Suc acc)"
    using digit_val_less[OF d(1)] by (intro mult_le_mono2) simp
  finally show ?case by (simp add: algebra_simps)
qed simp

lemma hex_digits_0_less: "hex_digits 0 t = Some n \<Longrightarrow> length t \<le> k \<Longrightarrow> int n < 16 ^ k"
proof -
  assume "hex_digits 0 t = Some n" "length t \<le> k"
  then have "n < 16 ^ length t" "(16::nat) ^ length t \<le> 16 ^ k"
    using hex_digits_less[of 0 t n] by simp_all
  then have "n < 16 ^ k" by linarith
  then show "int n < 16 ^ k"
    by (metis of_nat_less_iff of_nat_numeral of_nat_power)
qed

lemma ParseInt16_less:
  assumes "ParseInt16 s = Ok i"
  shows "i < 16 ^ length s"
proof (cases s)
  case Nil
  then show ?thesis using assms by (simp add: ParseInt16_def)
next
  case (Cons c cs)
  have neg: "- int n < 16 ^ k" for n k
    by (rule le_less_trans[of _ 0]) simp_all
  show ?thesis
    using assms hex_digits_0_less[of cs _ "length s"] hex_digits_0_less[of s _ "length s"] neg
    by (auto simp only: ParseInt16_def Let_def Cons list.case res.inject res.distinct length_Cons
        split: if_splits option.splits)
qed

lemma ReadFull_length: "fst (ReadFull n c) = Ok d \<Longrightarrow> length d = n"
  by (auto simp: ReadFull_def Let_def split: if_splits)

lemma ReadHex_length:
  assumes "fst (ReadHexPrefixedBlob c) = Ok b"
  shows "length b < 65536"
proof -
  obtain h c1 i c2 where h: "ReadFull 4 c = (Ok h, c1)" and i: "ParseInt16 (to_str h) = Ok i"
    and b: "ReadFull (nat i) c1 = (Ok b, c2)" "0 \<le> i"
    using assms unfolding ReadHexPrefixedBlob_def
    by (cases "ReadFull 4 c" rule: res_pair_cases; cases "ParseInt16 (to_str (take 4 (incoming c)))")
      (auto simp: on_ok_def split: res.splits prod.splits if_splits)
  have "length h = 4"
    using ReadFull_length[of 4 c h] h by simp
  with i have "i < 65536"
    using ParseInt16_less[OF i] by simp
  moreover have "length b = nat i"
    using ReadFull_length[of "nat i" c1 b] b by simp
  ultimately show ?thesis using b(2) by simp
qed

subsection \<open>Framing\<close>

text \<open>
  The contract between the two ends of a connection: what one writes as a frame, the other reads
  back, and nothing more. Any sequence of frames is then read back in order, and a stream of
  frames has one reading.
\<close>

fun recv_many :: "(conn \<Rightarrow> 'm res \<times> conn) \<Rightarrow> nat \<Rightarrow> conn \<Rightarrow> 'm list res \<times> conn" where
  "recv_many recv 0 c = (Ok [], c)"
| "recv_many recv (Suc n) c =
     on_ok (recv c) (\<lambda>c. c) (\<lambda>m c. on_ok (recv_many recv n c) (\<lambda>c. c) (\<lambda>ms c. (Ok (m # ms), c)))"

definition peer_conn :: "byte list \<Rightarrow> conn" where
  "peer_conn s = \<lparr>inq = [s], inend = EOF, outb = [], wscript = [], closed = False, close_err = None\<rparr>"

lemma peer_conn_simps [simp]:
  "healthy (peer_conn s)" "incoming (peer_conn s) = s" "outb (peer_conn s) = []"
  "closed (peer_conn s) = False"
  by (simp_all add: peer_conn_def healthy_def incoming_def)

locale framing =
  fixes frame :: "'m \<Rightarrow> byte list"
    and recv :: "conn \<Rightarrow> 'm res \<times> conn"
    and fits :: "'m \<Rightarrow> bool"
  assumes recv_frame: "healthy c \<Longrightarrow> incoming c = frame m @ rest \<Longrightarrow> fits m \<Longrightarrow>
    \<exists>c'. recv c = (Ok m, c') \<and> incoming c' = rest \<and> healthy c' \<and> outb c' = outb c"
begin

lemma frame_unique:
  assumes "frame m @ r = frame m' @ r'" "fits m" "fits m'"
  shows "m = m' \<and> r = r'"
proof -
  let ?c = "peer_conn (frame m @ r)"
  obtain c1 where "recv ?c = (Ok m, c1)" "incoming c1 = r"
    using recv_frame[of ?c m r] assms by auto
  moreover obtain c2 where "recv ?c = (Ok m', c2)" "incoming c2 = r'"
    using recv_frame[of ?c m' r'] assms by auto
  ultimately show ?thesis by simp
qed

lemma recv_stream:
  "healthy c \<Longrightarrow> incoming c = concat (map frame ms) @ rest \<Longrightarrow> \<forall>m \<in> set ms. fits m \<Longrightarrow>
   \<exists>c'. recv_many recv (length ms) c = (Ok ms, c') \<and> incoming c' = rest \<and> healthy c' \<and> outb c' = outb c"
proof (induction ms arbitrary: c)
  case (Cons m ms)
  then have "incoming c = frame m @ (concat (map frame ms) @ rest)" "fits m"
    by simp_all
  with recv_frame[OF Cons.prems(1)] obtain c1 where
    c1: "recv c = (Ok m, c1)" "incoming c1 = concat (map frame ms) @ rest" "healthy c1" "outb c1 = outb c"
    by blast
  with Cons.IH[of c1] Cons.prems(3) show ?case by auto
qed simp

lemma stream_unique:
  "concat (map frame ms) @ r = concat (map frame ns) @ r' \<Longrightarrow> length ms = length ns \<Longrightarrow>
   \<forall>m \<in> set ms. fits m \<Longrightarrow> \<forall>m \<in> set ns. fits m \<Longrightarrow> ms = ns \<and> r = r'"
proof (induction ms arbitrary: ns)
  case (Cons m ms)
  then obtain n ns' where ns: "ns = n # ns'" by (cases ns) auto
  with Cons.prems have "m = n \<and> concat (map frame ms) @ r = concat (map frame ns') @ r'"
    by (intro frame_unique) auto
  with Cons ns show ?case by auto
qed simp

end

definition message_fits :: "byte list \<Rightarrow> bool" where
  "message_fits m \<longleftrightarrow> length m < 65536"

definition shell_frame :: "byte \<times> byte list \<Rightarrow> byte list" where
  "shell_frame m = shell_header (fst m) (snd m) @ snd m"

definition shell_fits :: "byte \<times> byte list \<Rightarrow> bool" where
  "shell_fits m \<longleftrightarrow> length (snd m) < 2 ^ 32"

interpretation messages: framing message_packet ReadHexPrefixedBlob message_fits
proof
  fix c m rest
  assume "healthy c" "incoming c = message_packet m @ rest" "message_fits m"
  then show "\<exists>c'. ReadHexPrefixedBlob c = (Ok m, c') \<and> incoming c' = rest \<and> healthy c' \<and> outb c' = outb c"
    using ReadHex_ok[of c m rest] by (simp add: message_fits_def message_packet_def length_04x)
qed

interpretation shell_frames: framing shell_frame ReadShellBlob shell_fits
proof
  fix c m rest
  assume "healthy c" "incoming c = shell_frame m @ rest" "shell_fits m"
  then show "\<exists>c'. ReadShellBlob c = (Ok m, c') \<and> incoming c' = rest \<and> healthy c' \<and> outb c' = outb c"
    using ReadShellBlob_ok[of c "fst m" "snd m" rest]
    by (simp add: shell_frame_def shell_fits_def shell_header_def)
qed

lemma WriteMessage_many:
  "healthy c \<Longrightarrow> outb (foldl (\<lambda>c m. snd (WriteMessage m c)) c ms) = outb c @ concat (map message_packet ms)"
  by (induction ms arbitrary: c) (simp_all add: WriteMessage_ok)

lemma WriteShellBlob_many:
  "healthy c \<Longrightarrow>
   outb (foldl (\<lambda>c m. snd (WriteShellBlob (fst m) (snd m) c)) c ms) = outb c @ concat (map shell_frame ms)"
  by (induction ms arbitrary: c) (simp_all add: WriteShellBlob_ok shell_frame_def)

subsection \<open>Properties\<close>

text \<open>C18: Messages written one after the other with \<open>WriteMessage\<close>, each shorter than 65536 bytes, are
  read back by \<open>ReadHexPrefixedBlob\<close> at the other end, in order and with nothing else consumed,
  however the network cuts the bytes.\<close>

theorem message_roundtrip:
  assumes "healthy c" "outb c = []" "\<forall>m \<in> set ms. length m < 65536"
    and "healthy d" "incoming d = outb (foldl (\<lambda>c m. snd (WriteMessage m c)) c ms) @ rest"
  shows "\<exists>d'. recv_many ReadHexPrefixedBlob (length ms) d = (Ok ms, d') \<and> incoming d' = rest"
  using messages.recv_stream[of d ms rest] assms by (auto simp: WriteMessage_many message_fits_def)

theorem message_roundtrip_witness:
  "\<exists>d'. recv_many ReadHexPrefixedBlob 2 (peer_conn (of_str ''0002hi0000!'')) =
     (Ok [of_str ''hi'', []], d') \<and> incoming d' = of_str ''!''"
proof -
  have "fmt_04x 2 = ''0002''" "fmt_04x 0 = ''0000''"
    by code_simp+
  then have "message_packet (of_str ''hi'') = of_str ''0002hi''" "message_packet [] = of_str ''0000''"
    by (simp_all add: message_packet_def of_str_def numeral_2_eq_2)
  then show ?thesis
    using message_roundtrip[of "peer_conn []" "[of_str ''hi'', []]" "peer_conn (of_str ''0002hi0000!'')" "of_str ''!''"]
    by (simp add: WriteMessage_ok of_str_def numeral_2_eq_2)
qed

text \<open>\<open>WriteMessage\<close> does not check the length its four-digit header can hold: a message of 65536
  bytes or more is written and reported as sent, but no reader gets it back.\<close>

lemma long_message_lost:
  assumes "healthy c" "65536 \<le> length m"
  shows "fst (WriteMessage m c) = Ok () \<and>
    (\<forall>d rest. incoming d = outb (snd (WriteMessage m c)) @ rest \<longrightarrow> fst (ReadHexPrefixedBlob d) \<noteq> Ok m)"
  using assms ReadHex_length[of _ m] by (auto simp: WriteMessage_ok not_less)

lemma long_message_lost_witness:
  "fst (WriteMessage (replicate 65536 0) (peer_conn [])) = Ok ()"
  using long_message_lost[of "peer_conn []" "replicate 65536 0"] by simp

lemma ReadLine_token:
  assumes "\<not> closed c"
  shows "fst (ReadLine c) = (case first_token (inend c) (incoming c) of
      Token t \<Rightarrow> Ok (Some (to_str t)) | NoToken \<Rightarrow> Ok None | ScanErr e \<Rightarrow> Err e)
    \<and> (closed (snd (ReadLine c)) \<longleftrightarrow> (\<forall>t. first_token (inend c) (incoming c) \<noteq> Token t))"
  using scan_first_token[of 0 "[]" "inend c" "inq c"] assms
  by (cases "scan_first (inend c) 0 [] (inq c)")
    (auto simp: ReadLine_def incoming_def maxTokenSize_def split: scan_result.splits)

text \<open>C28: On an open connection \<open>ReadLine\<close> returns the first line of the stream, without its line
  ending, whatever the chunks; it reports the end of the stream, its error, or a line longer than
  the scanner's buffer as such, and closes the connection exactly when it returns no line.\<close>

theorem ReadLine_first_line:
  assumes "\<not> closed c"
  shows "fst (ReadLine c) = (case first_token (inend c) (incoming c) of
      Token t \<Rightarrow> Ok (Some (to_str t)) | NoToken \<Rightarrow> Ok None | ScanErr e \<Rightarrow> Err e)
    \<and> (closed (snd (ReadLine c)) \<longleftrightarrow> (\<forall>t. first_token (inend c) (incoming c) \<noteq> Token t))"
  using assms by (rule ReadLine_token)

theorem ReadLine_first_line_witness:
  "fst (ReadLine (peer_conn [65, 13, 10, 66])) = Ok (Some ''A'')"
proof -
  have "first_token EOF [65, 13, 10, 66] = Token [65]"
    by (simp add: first_token_def line_of_def newline_def carriage_def dropCR_def maxTokenSize_def)
  moreover have "to_str [65] = ''A''"
    by (simp add: to_str_eq_iff of_str_def)
  ultimately show ?thesis
    using ReadLine_first_line[of "peer_conn [65, 13, 10, 66]"] by (simp add: peer_conn_def incoming_def)
qed

lemma scan_first_chunk:
  assumes "newline \<notin> set l" "length l + length s < 4096"
  shows "scan_first e 0 [] ((l @ newline # s) # q) = (Token (dropCR l), q)"
proof -
  let ?ch = "l @ newline # s"
  have "scan_first e 0 [] (?ch # q) = scan_first e 4096 [] (?ch # q)"
    by (subst scan_first.simps) (simp add: grow_def maxTokenSize_def)
  also have "\<dots> = scan_first e 4096 ?ch q"
    using assms(2) by (subst scan_first.simps) simp
  also have "\<dots> = (Token (dropCR l), q)"
    using assms(1) by (subst scan_first.simps) (simp add: line_of_append)
  finally show ?thesis .
qed

text \<open>Each \<open>ReadLine\<close> makes a scanner of its own, so what one read of the network brought beyond
  the first line is lost: the second of two lines that arrive together is never returned.\<close>

lemma ReadLine_loses_rest:
  assumes "\<not> closed c" "inq c = (l1 @ newline # l2 @ newline # s) # q"
    and "newline \<notin> set l1" "length (l1 @ newline # l2 @ newline # s) \<le> 4096"
  shows "\<exists>c'. ReadLine c = (Ok (Some (to_str (dropCR l1))), c') \<and> incoming c' = concat q
    \<and> fst (ReadLine c') = fst (ReadLine (c\<lparr>inq := q\<rparr>))"
  using scan_first_chunk[of l1 "l2 @ newline # s" "inend c" q] assms
  by (simp add: ReadLine_def incoming_def)

lemma ReadLine_loses_rest_witness:
  "\<exists>c'. ReadLine (peer_conn [65, 10, 66, 10]) = (Ok (Some (to_str (dropCR [65]))), c') \<and> incoming c' = []"
  using ReadLine_loses_rest[of "peer_conn [65, 10, 66, 10]" "[65]" "[66]" "[]" "[]"]
  by (auto simp: peer_conn_def newline_def)

text \<open>Reading a length-prefixed blob panics exactly when the four header characters are a
  negative number, such as \<^verbatim>\<open>-001\<close>: the sign is accepted by the parser and the size is not checked
  before the buffer is made.\<close>

lemma ReadHex_panics_iff:
  "fst (ReadHexPrefixedBlob c) = Panic p \<longleftrightarrow>
     p = MakeSliceLen \<and> \<not> closed c \<and> 4 \<le> length (incoming c) \<and>
     (\<exists>i. ParseInt16 (to_str (take 4 (incoming c))) = Ok i \<and> i < 0)"
proof -
  have rf: "fst (ReadFull n c) \<noteq> Panic p" for n c
    by (auto simp: ReadFull_def Let_def)
  have rf': "ReadFull n c \<noteq> (Panic p, c')" for n c c'
    using rf[of n c] by auto
  have ph: "ParseInt16 s \<noteq> Panic p" for s
    by (auto simp: ParseInt16_def Let_def split: list.splits option.splits)
  show ?thesis
  proof (cases "closed c")
    case True
    then show ?thesis by (simp add: ReadHexPrefixedBlob_def ReadFull_def)
  next
    case False
    note eq = ReadFull_eq(1)[OF False, of 4]
    show ?thesis
    proof (cases "4 \<le> length (incoming c)")
      case True
      then obtain c1 where r: "ReadFull 4 c = (Ok (take 4 (incoming c)), c1)"
        using eq by (cases "ReadFull 4 c") simp
      show ?thesis
      proof (cases "ParseInt16 (to_str (take 4 (incoming c)))")
        case (Ok i)
        then show ?thesis
          using True False rf'[of "nat i" c1]
          by (cases "ReadFull (nat i) c1" rule: res_pair_cases) (auto simp: ReadHexPrefixedBlob_def r)
      qed (use ph[of "to_str (take 4 (incoming c))"] in \<open>auto simp: ReadHexPrefixedBlob_def r\<close>)
    next
      case short: False
      then obtain e c1 where "ReadFull 4 c = (Err e, c1)"
        using eq by (cases "ReadFull 4 c") simp
      with short show ?thesis by (simp add: ReadHexPrefixedBlob_def)
    qed
  qed
qed

text \<open>A command the server refuses ends in its error text, and leaves the connection open: of
  the errors of \<open>SendCommand\<close> this is the only one that does not close it.\<close>

lemma SendCommand_errors:
  "(fst (SendCommand cmd c) = Err e \<longrightarrow>
      closed (snd (SendCommand cmd c)) \<or> (\<exists>m. e = NewError (''server error: '' @ m))) \<and>
   (healthy c \<and> incoming c = of_str ''FAIL'' @ message_packet m @ rest \<and> length m < 65536 \<longrightarrow>
      (\<exists>c'. SendCommand cmd c = (Err (NewError (''server error: '' @ to_str m)), c') \<and> \<not> closed c'))"
  using SendCommand_err[of cmd c e] SendCommand_refused[of c "''FAIL''" m rest cmd]
  by (auto simp: healthy_def)

lemma SendCommand_errors_witness:
  "\<exists>c'. SendCommand [] (peer_conn (of_str ''FAIL'' @ message_packet [33])) =
     (Err (NewError (''server error: '' @ to_str [33])), c') \<and> \<not> closed c'"
  using SendCommand_errors[of "[]" "peer_conn (of_str ''FAIL'' @ message_packet [33])" EOF "[33]" "[]"] by simp

text \<open>C27: What the operations that read a frame return depends only on the bytes the peer sends, not
  on how the network cuts them, and an error of any of them leaves the connection closed.\<close>

theorem reads_segmentation_blind:
  assumes "incoming c = incoming d" "inend c = inend d" "closed c = closed d" "outb c = outb d"
    "wscript c = wscript d" "close_err c = close_err d"
  shows "fst (ReadStatus c) = fst (ReadStatus d) \<and> fst (ReadRaw n c) = fst (ReadRaw n d) \<and>
    fst (ReadHexPrefixedBlob c) = fst (ReadHexPrefixedBlob d) \<and>
    fst (ReadShellBlob c) = fst (ReadShellBlob d) \<and> fst (SendCommand cmd c) = fst (SendCommand cmd d) \<and>
    (fst (ReadStatus c) = Err e \<longrightarrow> closed (snd (ReadStatus c))) \<and>
    (fst (ReadRaw n c) = Err e \<longrightarrow> closed (snd (ReadRaw n c))) \<and>
    (fst (ReadHexPrefixedBlob c) = Err e \<longrightarrow> closed (snd (ReadHexPrefixedBlob c))) \<and>
    (fst (ReadShellBlob c) = Err e \<longrightarrow> closed (snd (ReadShellBlob c)))"
proof -
  have "same_stream c d" using assms by (simp add: same_stream_def)
  then show ?thesis
    using read_status.blind[of c d] read_raw.blind[of c d n] read_hex.blind[of c d]
      read_shell.blind[of c d] send_command.blind[of c d cmd] read_status.err_closes[of c e]
      read_raw.err_closes[of n c e] read_hex.err_closes[of c e] read_shell.err_closes[of c e] by simp
qed

theorem reads_segmentation_blind_witness:
  "fst (ReadStatus (peer_conn [79, 75, 65, 89])) =
   fst (ReadStatus (peer_conn []\<lparr>inq := [[79], [75, 65], [], [89]]\<rparr>))"
  using reads_segmentation_blind[of "peer_conn [79, 75, 65, 89]" "peer_conn []\<lparr>inq := [[79], [75, 65], [], [89]]\<rparr>"]
  by (simp add: peer_conn_def incoming_def)

end
