(* ===== verification/AdbClient.thy ===== *)
theory AdbClient
  imports RawConn
begin

text \<open>
  \<^verbatim>\<open>agent/server/adb/adb.go\<close> and \<^verbatim>\<open>agent/server/adb/client.go\<close>: starting the local ADB server, sending
  it commands, waiting for the emulator to appear.

  \<^verbatim>\<open>net.Dial\<close> is an argument: the error or the connection it gives. An operation returns its
  result and the connection in the state it leaves it, \<open>None\<close> when there never was one.
\<close>

subsection \<open>Contracts with other cleanups\<close>

lemma conn_op_on_ok_id [conn_intros]:
  assumes f: "conn_op f" and k: "\<And>a. conn_op (k a)"
  shows "conn_op (\<lambda>c. on_ok (f c) (\<lambda>c. c) k)"
proof
  fix c
  show "later c (snd (on_ok (f c) (\<lambda>c. c) k))"
    using conn_op.advances[OF f, of c]
    by (cases "f c" rule: res_pair_cases) (auto intro: later_trans conn_op.advances[OF k])
next
  fix c d assume "same_stream c d"
  from conn_op.blind[OF f this] have "fst (f c) = fst (f d)" "same_stream (snd (f c)) (snd (f d))"
    by auto
  then show "fst (on_ok (f c) (\<lambda>c. c) k) = fst (on_ok (f d) (\<lambda>c. c) k)
      \<and> same_stream (snd (on_ok (f c) (\<lambda>c. c) k)) (snd (on_ok (f d) (\<lambda>c. c) k))"
    using conn_op.blind[OF k]
    by (cases "f c" rule: res_pair_cases; cases "f d") auto
qed

lemma closing_op_on_ok_id [conn_intros]:
  assumes f: "closing_op f" and k: "\<And>a. closing_op (k a)"
  shows "closing_op (\<lambda>c. on_ok (f c) (\<lambda>c. c) k)"
proof (intro closing_op.intro conn_op_on_ok_id closing_op_axioms.intro closing_op_conn_op[OF f])
  show "conn_op (k a)" for a
    by (rule closing_op_conn_op[OF k])
next
  fix c e assume "fst (on_ok (f c) (\<lambda>c. c) k) = Err e"
  then show "closed (snd (on_ok (f c) (\<lambda>c. c) k))"
    using closing_op.err_closes[OF f, of c]
    by (cases "f c" rule: res_pair_cases) (auto intro: closing_op.err_closes[OF k])
qed

subsection \<open>adb.go: starting the server\<close>

text \<open>
  The calls of the operating system that the agent makes, in the order it makes them;
  \<open>SaveIni\<close> and \<open>Spawn\<close> (arguments and environment) are those of the emulator's start.
\<close>

datatype oscall =
    UserHomeDir
  | MkdirAll string nat
  | WriteFile string "byte list" nat
  | Run "string list"
  | Chmod string nat
  | SaveIni string "(string \<times> string) list"
  | Spawn "string list" "string list"

text \<open>\<^verbatim>\<open>filepath.Join(homedir, name)\<close> for a clean home directory.\<close>

definition join_path :: "string \<Rightarrow> string \<Rightarrow> string" where
  "join_path d f = d @ ''/'' @ f"

text \<open>One call of the operating system: its outcome is given by \<open>os\<close>, and it is recorded.\<close>

definition os_do :: "(oscall \<Rightarrow> goerr option) \<Rightarrow> oscall \<Rightarrow> oscall list \<Rightarrow> unit res \<times> oscall list" where
  "os_do os call tr = ((case os call of None \<Rightarrow> Ok () | Some e \<Rightarrow> Err e), tr @ [call])"

definition StartServer ::
  "goerr + string \<Rightarrow> (oscall \<Rightarrow> goerr option) \<Rightarrow> oscall list \<Rightarrow> unit res \<times> oscall list" where
  "StartServer home os tr = (case home of
     Inl e \<Rightarrow> (Err e, tr @ [UserHomeDir])
   | Inr homedir \<Rightarrow>
      (let keyPath = join_path homedir ''.android/adbkey'';
           skip = (\<lambda>tr. tr)
       in on_ok (os_do os (MkdirAll (join_path homedir ''.android'') 420) (tr @ [UserHomeDir])) skip (\<lambda>_ tr.
          on_ok (os_do os (Run [''/android/platform-tools/adb'', ''keygen'', keyPath]) tr) skip (\<lambda>_ tr.
          on_ok (os_do os (Chmod keyPath 384) tr) skip (\<lambda>_ tr.
          on_ok (os_do os (Run [''/android/platform-tools/adb'', ''start-server'']) tr) skip (\<lambda>_ tr.
          (Ok (), tr)))))))"

subsection \<open>client.go: commands\<close>

definition NewRawConnection :: "goerr + conn \<Rightarrow> (conn \<Rightarrow> 'a res \<times> conn) \<Rightarrow> 'a res \<times> conn option" where
  "NewRawConnection dial k = (case dial of
     Inl e \<Rightarrow> (Err e, None)
   | Inr c \<Rightarrow> map_prod id Some (k c))"

text \<open>\<^verbatim>\<open>systemImpl.SendCommand\<close> after the dial.\<close>

definition sys_SendCommand :: "byte list \<Rightarrow> conn \<Rightarrow> unit res \<times> conn" where
  "sys_SendCommand cmd c = on_ok (SendCommand cmd c) do_close (\<lambda>_ c. (Ok (), c))"

text \<open>\<open>None\<close> is the nil slice of a command without a body.\<close>

definition ExecuteCommand ::
  "byte list \<Rightarrow> bool \<Rightarrow> goerr + conn \<Rightarrow> byte list option res \<times> conn option" where
  "ExecuteCommand cmd hasBody dial = NewRawConnection dial (\<lambda>c.
     on_ok (sys_SendCommand cmd c) (\<lambda>c. c) (\<lambda>_ c.
     deferring do_close
       (if \<not> hasBody then (Ok None, c)
        else on_ok (ReadHexPrefixedBlob c) (\<lambda>c. c) (\<lambda>b c. (Ok (Some b), c)))))"

text \<open>The lines of one device report: \<open>Ok True\<close> at the first ready device.\<close>

fun scan_devices :: "string list \<Rightarrow> bool res" where
  "scan_devices [] = Ok False"
| "scan_devices (line # lines) =
     (let parts = Fields line
      in if length parts < 2 then Panic IndexOutOfRange
         else if parts ! 1 = ''device'' then Ok True
         else scan_devices lines)"

lemma ReadFull_shrinks:
  assumes "ReadFull n c = (Ok d, c')"
  shows "length (incoming c) = n + length (incoming c')"
proof (cases "n = 0")
  case True
  then show ?thesis using assms by (simp add: ReadFull_def)
next
  case False
  then have op: "\<not> closed c" using assms by (auto simp: ReadFull_def)
  from ReadFull_eq(1)[OF op, of n] ReadFull_eq(2)[OF op, of n] assms show ?thesis
    by (auto split: if_splits)
qed

lemma ReadHex_shrinks:
  assumes "ReadHexPrefixedBlob c = (Ok m, c')"
  shows "length (incoming c') + 4 \<le> length (incoming c)"
  using assms unfolding ReadHexPrefixedBlob_def
  by (auto simp: on_ok_eq_Ok split: if_splits dest!: ReadFull_shrinks)

function wait_loop :: "conn \<Rightarrow> unit res \<times> conn" where
  "wait_loop c = (case ReadHexPrefixedBlob c of
     (Err e, c') \<Rightarrow> (Err e, c')
   | (Panic p, c') \<Rightarrow> (Panic p, c')
   | (Ok msg, c') \<Rightarrow>
      (case scan_devices (SplitLines (to_str msg)) of
         Ok True \<Rightarrow> (Ok (), c')
       | Ok False \<Rightarrow> wait_loop c'
       | Err e \<Rightarrow> (Err e, c')
       | Panic p \<Rightarrow> (Panic p, c')))"
  by pat_completeness auto
termination
  by (relation "measure (\<lambda>c. length (incoming c))") (auto dest!: ReadHex_shrinks[OF sym])

declare wait_loop.simps [simp del]

definition WaitForEmulator :: "goerr + conn \<Rightarrow> unit res \<times> conn option" where
  "WaitForEmulator dial = NewRawConnection dial (\<lambda>c.
     on_ok (sys_SendCommand (of_str ''host:track-devices'') c) (\<lambda>c. c) (\<lambda>_ c.
     deferring do_close (wait_loop c)))"

definition open_emulator :: "conn \<Rightarrow> unit res \<times> conn" where
  "open_emulator c = sys_SendCommand (of_str ''host:transport-local'') c"

definition OpenEmulator :: "goerr + conn \<Rightarrow> unit res \<times> conn option" where
  "OpenEmulator dial = NewRawConnection dial open_emulator"

subsection \<open>Contracts\<close>

text \<open>Going through \<open>systemImpl\<close> repairs the leak of a refused command.\<close>

interpretation sys_send: closing_op "sys_SendCommand cmd" for cmd
  unfolding sys_SendCommand_def[abs_def] by (intro conn_intros)

lemmas conn_op_sys_send [conn_intros] = sys_send.conn_op_axioms
lemmas closing_op_sys_send [conn_intros] = sys_send.closing_op_axioms

interpretation open_emu: closing_op open_emulator
  unfolding open_emulator_def[abs_def] by (intro conn_intros)

lemmas conn_op_open [conn_intros] = open_emu.conn_op_axioms
lemmas closing_op_open [conn_intros] = open_emu.closing_op_axioms

lemma wait_loop_step:
  assumes "ReadHexPrefixedBlob c = (Ok msg, c')"
  shows "wait_loop c = (case scan_devices (SplitLines (to_str msg)) of
         Ok True \<Rightarrow> (Ok (), c') | Ok False \<Rightarrow> wait_loop c'
       | Err e \<Rightarrow> (Err e, c') | Panic p \<Rightarrow> (Panic p, c'))"
  using assms by (subst wait_loop.simps) simp

lemma wait_loop_later: "later c (snd (wait_loop c))"
proof (induction c rule: wait_loop.induct)
  case (1 c)
  have adv: "later c (snd (ReadHexPrefixedBlob c))" by (rule read_hex.advances)
  show ?case
  proof (cases "ReadHexPrefixedBlob c" rule: res_pair_cases)
    case (Ok msg c')
    with "1.IH"[of "Ok msg" c' msg False] adv show ?thesis
      by (auto simp: wait_loop_step[OF Ok] split: res.splits bool.splits intro: later_trans)
  qed (use adv in \<open>auto simp: wait_loop.simps[of c]\<close>)
qed

lemma wait_loop_blind:
  "same_stream c d \<Longrightarrow> fst (wait_loop c) = fst (wait_loop d) \<and> same_stream (snd (wait_loop c)) (snd (wait_loop d))"
proof (induction c arbitrary: d rule: wait_loop.induct)
  case (1 c)
  from read_hex.blind[OF "1.prems"] have
    bl: "fst (ReadHexPrefixedBlob c) = fst (ReadHexPrefixedBlob d)"
      "same_stream (snd (ReadHexPrefixedBlob c)) (snd (ReadHexPrefixedBlob d))" by auto
  show ?case
  proof (cases "ReadHexPrefixedBlob c" rule: res_pair_cases)
    case (Ok msg c')
    with bl obtain d' where d: "ReadHexPrefixedBlob d = (Ok msg, d')" "same_stream c' d'"
      by (cases "ReadHexPrefixedBlob d") auto
    from "1.IH"[of "Ok msg" c' msg False d'] Ok d(2) show ?thesis
      by (auto simp: wait_loop_step[OF Ok] wait_loop_step[OF d(1)] split: res.splits bool.splits)
  next
    case (Err e c')
    with bl show ?thesis
      by (cases "ReadHexPrefixedBlob d") (auto simp: wait_loop.simps[of c] wait_loop.simps[of d])
  next
    case (Panic p c')
    with bl show ?thesis
      by (cases "ReadHexPrefixedBlob d") (auto simp: wait_loop.simps[of c] wait_loop.simps[of d])
  qed
qed

interpretation wait_op: conn_op wait_loop
  by unfold_locales (simp_all add: wait_loop_later wait_loop_blind)

lemmas conn_op_wait [conn_intros] = wait_op.conn_op_axioms

subsection \<open>Running the commands\<close>

lemma sys_send_okay:
  "healthy c \<Longrightarrow> incoming c = of_str ''OKAY'' @ rest \<Longrightarrow>
   sys_SendCommand cmd c = (Ok (), consume 4 (emit (message_packet cmd) c))"
  by (simp add: sys_SendCommand_def SendCommand_okay)

lemma open_emulator_okay:
  "healthy c \<Longrightarrow> incoming c = of_str ''OKAY'' @ rest \<Longrightarrow>
   open_emulator c = (Ok (), consume 4 (emit (message_packet (of_str ''host:transport-local'')) c))"
  by (simp add: open_emulator_def sys_send_okay)

text \<open>A device report is a message whose lines all have a state field.\<close>

definition report_ok :: "byte list \<Rightarrow> bool" where
  "report_ok m \<longleftrightarrow> length m < 65536 \<and> (\<forall>l \<in> set (SplitLines (to_str m)). 2 \<le> length (Fields l))"

definition report_ready :: "byte list \<Rightarrow> bool" where
  "report_ready m \<longleftrightarrow> (\<exists>l \<in> set (SplitLines (to_str m)). 2 \<le> length (Fields l) \<and> Fields l ! 1 = ''device'')"

lemma scan_devices_ok:
  "\<forall>l \<in> set ls. 2 \<le> length (Fields l) \<Longrightarrow>
   scan_devices ls = Ok (\<exists>l \<in> set ls. Fields l ! 1 = ''device'')"
  by (induction ls) (auto simp: Let_def)

lemma scan_devices_True:
  "scan_devices ls = Ok True \<Longrightarrow> \<exists>l \<in> set ls. 2 \<le> length (Fields l) \<and> Fields l ! 1 = ''device''"
  by (induction ls) (auto simp: Let_def split: if_splits)

text \<open>The loop takes the reports up to the first that is ready, and without one it ends with the stream.\<close>

lemma wait_loop_exact:
  "healthy c \<Longrightarrow> incoming c = concat (map message_packet ms) \<Longrightarrow> \<forall>m \<in> set ms. report_ok m \<Longrightarrow>
   \<exists>c'. wait_loop c = (if \<exists>m \<in> set ms. report_ready m then Ok () else Err (inend c), c') \<and> outb c' = outb c \<and>
     incoming c' = concat (map message_packet (tl (dropWhile (\<lambda>m. \<not> report_ready m) ms)))"
proof (induction ms arbitrary: c)
  case Nil
  then have op: "\<not> closed c" by (simp add: healthy_def)
  obtain c1 where c1: "ReadFull 4 c = (Err (inend c), c1)" "incoming c1 = []" "outb c1 = outb c"
    using ReadFull_eq[OF op, of 4] Nil(2) by (cases "ReadFull 4 c") auto
  then have "ReadHexPrefixedBlob c = (Err (inend c), do_close c1)" by (simp add: ReadHexPrefixedBlob_def)
  then have "wait_loop c = (Err (inend c), do_close c1)" by (subst wait_loop.simps) simp
  then show ?case using c1 by simp
next
  case (Cons m ms)
  let ?c = "consume (length m) (consume 4 c)"
  have m: "report_ok m" using Cons.prems(3) by simp
  have r: "ReadHexPrefixedBlob c = (Ok m, ?c)"
    using Cons.prems m by (intro ReadHex_ok) (auto simp: report_ok_def)
  have rest: "incoming ?c = concat (map message_packet ms)"
    using Cons.prems m by (simp add: message_packet_def[of m] length_04x report_ok_def)
  have scan: "scan_devices (SplitLines (to_str m)) = Ok (report_ready m)"
    using m scan_devices_ok[of "SplitLines (to_str m)"] by (auto simp: report_ok_def report_ready_def)
  show ?case
  proof (cases "report_ready m")
    case True
    then show ?thesis using scan rest by (simp add: wait_loop_step[OF r])
  next
    case False
    obtain c' where "wait_loop ?c = (if \<exists>m \<in> set ms. report_ready m then Ok () else Err (inend ?c), c')"
      "outb c' = outb ?c" "incoming c' = concat (map message_packet (tl (dropWhile (\<lambda>m. \<not> report_ready m) ms)))"
      using Cons.IH[OF _ rest] Cons.prems by auto
    then show ?thesis using False scan by (intro exI[of _ c']) (simp add: wait_loop_step[OF r])
  qed
qed

lemma sample_reports:
  "\<forall>m \<in> set [of_str ''emulator-5556 offline'', of_str ''emulator-5556 device'']. report_ok m"
  "map report_ready [of_str ''emulator-5556 offline'', of_str ''emulator-5556 device''] = [False, True]"
proof -
  have "plain_line m \<and> m \<noteq> []" if "m \<in> set [of_str ''emulator-5556 offline'', of_str ''emulator-5556 device'']" for m
    using that by (auto simp: plain_line_def of_str_def newline_def carriage_def maxTokenSize_def)
  then have "SplitLines ''emulator-5556 offline'' = [''emulator-5556 offline'']"
    "SplitLines ''emulator-5556 device'' = [''emulator-5556 device'']"
    using SplitLines_one[of "of_str ''emulator-5556 offline''"] SplitLines_one[of "of_str ''emulator-5556 device''"] by auto
  moreover have "Fields ''emulator-5556 offline'' = [''emulator-5556'', ''offline'']"
    "Fields ''emulator-5556 device'' = [''emulator-5556'', ''device'']"
    using Fields_two[of "''emulator-5556''" "''offline''"] Fields_two[of "''emulator-5556''" "''device''"] by simp_all
  ultimately show "\<forall>m \<in> set [of_str ''emulator-5556 offline'', of_str ''emulator-5556 device'']. report_ok m"
    "map report_ready [of_str ''emulator-5556 offline'', of_str ''emulator-5556 device''] = [False, True]"
    by (simp_all add: report_ok_def report_ready_def)
qed

lemma WaitForEmulator_reports:
  assumes "healthy c" "incoming c = of_str ''OKAY'' @ concat (map message_packet ms)" "\<forall>m \<in> set ms. report_ok m"
  shows "\<exists>c'. WaitForEmulator (Inr c) = (if \<exists>m \<in> set ms. report_ready m then Ok () else Err (inend c), Some c') \<and>
    closed c' \<and> outb c' = outb c @ message_packet (of_str ''host:track-devices'') \<and>
    incoming c' = concat (map message_packet (tl (dropWhile (\<lambda>m. \<not> report_ready m) ms)))"
proof -
  let ?c = "consume 4 (emit (message_packet (of_str ''host:track-devices'')) c)"
  have "incoming ?c = concat (map message_packet ms)" using assms(1,2) by simp
  from wait_loop_exact[OF _ this assms(3)] assms(1) show ?thesis
    using sys_send_okay[OF assms(1,2)] by (auto simp: WaitForEmulator_def NewRawConnection_def deferring_def)
qed

text \<open>C22: Waiting for the emulator follows the device reports up to the first that shows a ready device, and
  ends with the stream's error when none does; the connection is closed in both cases, and what it
  wrote is the one request.\<close>

theorem WaitForEmulator_exact:
  assumes "healthy c" "incoming c = of_str ''OKAY'' @ concat (map message_packet ms)" "\<forall>m \<in> set ms. report_ok m"
  shows "\<exists>c'. WaitForEmulator (Inr c) = (if \<exists>m \<in> set ms. report_ready m then Ok () else Err (inend c), Some c') \<and>
    closed c' \<and> outb c' = outb c @ message_packet (of_str ''host:track-devices'') \<and>
    incoming c' = concat (map message_packet (tl (dropWhile (\<lambda>m. \<not> report_ready m) ms)))"
  using assms by (rule WaitForEmulator_reports)

theorem WaitForEmulator_exact_witness:
  "\<exists>c'. WaitForEmulator (Inr (peer_conn (of_str ''OKAY'' @ message_packet (of_str ''emulator-5556 offline'') @
      message_packet (of_str ''emulator-5556 device'')))) = (Ok (), Some c') \<and> closed c' \<and> incoming c' = []"
  using WaitForEmulator_exact[of "peer_conn (of_str ''OKAY'' @ message_packet (of_str ''emulator-5556 offline'') @
      message_packet (of_str ''emulator-5556 device''))" "[of_str ''emulator-5556 offline'', of_str ''emulator-5556 device'']"]
    sample_reports by auto

end
