(* ===== verification/Protocol.thy ===== *)
theory Protocol
  imports Prelude
begin

text \<open>
  The messages of the agent's gRPC protocol, \<^verbatim>\<open>agent/protocol/agent.pb.go\<close> (generated from
  \<^verbatim>\<open>agent.proto\<close>): each message a record, whose fields carry the name of their message; each
  oneof an optional value of a datatype with the wrapper types as constructors; each enum the
  32-bit integer Go makes it, with its constants and its tables of names. A pointer to a message is an
  \<open>option\<close>, on which the getters are defined as the generated ones are, nil included; the value
  \<open>X_zero\<close> is \<^verbatim>\<open>X{}\<close>. The bookkeeping fields of the protobuf runtime and its reflection
  methods are left out; gRPC carries messages from one side to the other as they are.
\<close>

subsection \<open>Enumerations\<close>

type_synonym AgentState_EmulatorState = i32

definition AgentState_ERROR :: AgentState_EmulatorState where "AgentState_ERROR = 0"
definition AgentState_OFF :: AgentState_EmulatorState where "AgentState_OFF = 1"
definition AgentState_STARTING :: AgentState_EmulatorState where "AgentState_STARTING = 2"
definition AgentState_RUNNING :: AgentState_EmulatorState where "AgentState_RUNNING = 3"

definition AgentState_EmulatorState_name :: "i32 \<rightharpoonup> string" where
  "AgentState_EmulatorState_name = map_of [(0, ''ERROR''), (1, ''OFF''), (2, ''STARTING''), (3, ''RUNNING'')]"

definition AgentState_EmulatorState_value :: "string \<rightharpoonup> i32" where
    "AgentState_EmulatorState_value = map_of [(''ERROR'', 0), (''OFF'', 1), (''STARTING'', 2),
    (''RUNNING'', 3)]"

type_synonym StreamDisplayRequest_FrameFormat = i32

definition StreamDisplayRequest_RGB888 :: StreamDisplayRequest_FrameFormat where "StreamDisplayRequest_RGB888 = 0"
definition StreamDisplayRequest_VP8 :: StreamDisplayRequest_FrameFormat where "StreamDisplayRequest_VP8 = 1"

definition StreamDisplayRequest_FrameFormat_name :: "i32 \<rightharpoonup> string" where
  "StreamDisplayRequest_FrameFormat_name = map_of [(0, ''RGB888''), (1, ''VP8'')]"

definition StreamDisplayRequest_FrameFormat_value :: "string \<rightharpoonup> i32" where
  "StreamDisplayRequest_FrameFormat_value = map_of [(''RGB888'', 0), (''VP8'', 1)]"

type_synonym ShellStartRequest_ShellType = i32

definition ShellStartRequest_RAW :: ShellStartRequest_ShellType where "ShellStartRequest_RAW = 0"
definition ShellStartRequest_PTY :: ShellStartRequest_ShellType where "ShellStartRequest_PTY = 1"

definition ShellStartRequest_ShellType_name :: "i32 \<rightharpoonup> string" where
  "ShellStartRequest_ShellType_name = map_of [(0, ''RAW''), (1, ''PTY'')]"

definition ShellStartRequest_ShellType_value :: "string \<rightharpoonup> i32" where
  "ShellStartRequest_ShellType_value = map_of [(''RAW'', 0), (''PTY'', 1)]"

type_synonym ShellOutputResponse_ShellOutputChannel = i32

definition ShellOutputResponse_OUT :: ShellOutputResponse_ShellOutputChannel where "ShellOutputResponse_OUT = 0"
definition ShellOutputResponse_ERR :: ShellOutputResponse_ShellOutputChannel where "ShellOutputResponse_ERR = 1"

definition ShellOutputResponse_ShellOutputChannel_name :: "i32 \<rightharpoonup> string" where
  "ShellOutputResponse_ShellOutputChannel_name = map_of [(0, ''OUT''), (1, ''ERR'')]"

definition ShellOutputResponse_ShellOutputChannel_value :: "string \<rightharpoonup> i32" where
  "ShellOutputResponse_ShellOutputChannel_value = map_of [(''OUT'', 0), (''ERR'', 1)]"

subsection \<open>AgentState\<close>

record AgentState =
  AgentState_EmulatorState :: "AgentState_EmulatorState"
  AgentState_EmulatorError :: "string option"

definition AgentState_zero :: AgentState where
  "AgentState_zero = \<lparr>AgentState_EmulatorState = 0, AgentState_EmulatorError = None\<rparr>"

primrec AgentState_GetEmulatorState :: "AgentState option \<Rightarrow> AgentState_EmulatorState" where
  "AgentState_GetEmulatorState None = AgentState_ERROR"
| "AgentState_GetEmulatorState (Some x) = AgentState_EmulatorState x"

primrec AgentState_GetEmulatorError :: "AgentState option \<Rightarrow> string" where
  "AgentState_GetEmulatorError None = ''''"
| "AgentState_GetEmulatorError (Some x) = (case AgentState_EmulatorError x of None \<Rightarrow> '''' | Some v \<Rightarrow> v)"

subsection \<open>StartEmulatorRequest\<close>

record StartEmulatorRequest =
  StartEmulatorRequest_RamSize :: "u32"
  StartEmulatorRequest_CoreCount :: "u32"
  StartEmulatorRequest_LcdDensity :: "u32"
  StartEmulatorRequest_LcdWidth :: "u32"
  StartEmulatorRequest_LcdHeight :: "u32"
  StartEmulatorRequest_RootAdb :: "bool"

definition StartEmulatorRequest_zero :: StartEmulatorRequest where
    "StartEmulatorRequest_zero = \<lparr>StartEmulatorRequest_RamSize = 0, StartEmulatorRequest_CoreCount
    = 0, StartEmulatorRequest_LcdDensity = 0, StartEmulatorRequest_LcdWidth = 0,
    StartEmulatorRequest_LcdHeight = 0, StartEmulatorRequest_RootAdb = False\<rparr>"

primrec StartEmulatorRequest_GetRamSize :: "StartEmulatorRequest option \<Rightarrow> u32" where
  "StartEmulatorRequest_GetRamSize None = 0"
| "StartEmulatorRequest_GetRamSize (Some x) = StartEmulatorRequest_RamSize x"

primrec StartEmulatorRequest_GetCoreCount :: "StartEmulatorRequest option \<Rightarrow> u32" where
  "StartEmulatorRequest_GetCoreCount None = 0"
| "StartEmulatorRequest_GetCoreCount (Some x) = StartEmulatorRequest_CoreCount x"

primrec StartEmulatorRequest_GetLcdDensity :: "StartEmulatorRequest option \<Rightarrow> u32" where
  "StartEmulatorRequest_GetLcdDensity None = 0"
| "StartEmulatorRequest_GetLcdDensity (Some x) = StartEmulatorRequest_LcdDensity x"

primrec StartEmulatorRequest_GetLcdWidth :: "StartEmulatorRequest option \<Rightarrow> u32" where
  "StartEmulatorRequest_GetLcdWidth None = 0"
| "StartEmulatorRequest_GetLcdWidth (Some x) = StartEmulatorRequest_LcdWidth x"

primrec StartEmulatorRequest_GetLcdHeight :: "StartEmulatorRequest option \<Rightarrow> u32" where
  "StartEmulatorRequest_GetLcdHeight None = 0"
| "StartEmulatorRequest_GetLcdHeight (Some x) = StartEmulatorRequest_LcdHeight x"

primrec StartEmulatorRequest_GetRootAdb :: "StartEmulatorRequest option \<Rightarrow> bool" where
  "StartEmulatorRequest_GetRootAdb None = False"
| "StartEmulatorRequest_GetRootAdb (Some x) = StartEmulatorRequest_RootAdb x"

subsection \<open>StopEmulatorRequest\<close>

record StopEmulatorRequest =
  StopEmulatorRequest_ForceExit :: "bool"

definition StopEmulatorRequest_zero :: StopEmulatorRequest where
  "StopEmulatorRequest_zero = \<lparr>StopEmulatorRequest_ForceExit = False\<rparr>"

primrec StopEmulatorRequest_GetForceExit :: "StopEmulatorRequest option \<Rightarrow> bool" where
  "StopEmulatorRequest_GetForceExit None = False"
| "StopEmulatorRequest_GetForceExit (Some x) = StopEmulatorRequest_ForceExit x"

subsection \<open>StreamDisplayRequest\<close>

record StreamDisplayRequest =
  StreamDisplayRequest_Format :: "StreamDisplayRequest_FrameFormat"
  StreamDisplayRequest_MaxFps :: "u32"
  StreamDisplayRequest_KeyframeInterval :: "u32"

definition StreamDisplayRequest_zero :: StreamDisplayRequest where
    "StreamDisplayRequest_zero = \<lparr>StreamDisplayRequest_Format = 0, StreamDisplayRequest_MaxFps =
    0, StreamDisplayRequest_KeyframeInterval = 0\<rparr>"

primrec StreamDisplayRequest_GetFormat :: "StreamDisplayRequest option \<Rightarrow> StreamDisplayRequest_FrameFormat" where
  "StreamDisplayRequest_GetFormat None = StreamDisplayRequest_RGB888"
| "StreamDisplayRequest_GetFormat (Some x) = StreamDisplayRequest_Format x"

primrec StreamDisplayRequest_GetMaxFps :: "StreamDisplayRequest option \<Rightarrow> u32" where
  "StreamDisplayRequest_GetMaxFps None = 0"
| "StreamDisplayRequest_GetMaxFps (Some x) = StreamDisplayRequest_MaxFps x"

primrec StreamDisplayRequest_GetKeyframeInterval :: "StreamDisplayRequest option \<Rightarrow> u32" where
  "StreamDisplayRequest_GetKeyframeInterval None = 0"
| "StreamDisplayRequest_GetKeyframeInterval (Some x) = StreamDisplayRequest_KeyframeInterval x"

subsection \<open>DisplayFrame\<close>

record DisplayFrame =
  DisplayFrame_Keyframe :: "bool"
  DisplayFrame_Width :: "u32"
  DisplayFrame_Height :: "u32"
  DisplayFrame_Data :: "byte list"

definition DisplayFrame_zero :: DisplayFrame where
    "DisplayFrame_zero = \<lparr>DisplayFrame_Keyframe = False, DisplayFrame_Width = 0,
    DisplayFrame_Height = 0, DisplayFrame_Data = []\<rparr>"

primrec DisplayFrame_GetKeyframe :: "DisplayFrame option \<Rightarrow> bool" where
  "DisplayFrame_GetKeyframe None = False"
| "DisplayFrame_GetKeyframe (Some x) = DisplayFrame_Keyframe x"

primrec DisplayFrame_GetWidth :: "DisplayFrame option \<Rightarrow> u32" where
  "DisplayFrame_GetWidth None = 0"
| "DisplayFrame_GetWidth (Some x) = DisplayFrame_Width x"

primrec DisplayFrame_GetHeight :: "DisplayFrame option \<Rightarrow> u32" where
  "DisplayFrame_GetHeight None = 0"
| "DisplayFrame_GetHeight (Some x) = DisplayFrame_Height x"

primrec DisplayFrame_GetData :: "DisplayFrame option \<Rightarrow> byte list" where
  "DisplayFrame_GetData None = []"
| "DisplayFrame_GetData (Some x) = DisplayFrame_Data x"

subsection \<open>SysLogEntry\<close>

record SysLogEntry =
  SysLogEntry_Line :: "string"

definition SysLogEntry_zero :: SysLogEntry where
  "SysLogEntry_zero = \<lparr>SysLogEntry_Line = ''''\<rparr>"

primrec SysLogEntry_GetLine :: "SysLogEntry option \<Rightarrow> string" where
  "SysLogEntry_GetLine None = ''''"
| "SysLogEntry_GetLine (Some x) = SysLogEntry_Line x"

subsection \<open>TouchEvent\<close>

record TouchEvent =
  TouchEvent_Identifier :: "u32"
  TouchEvent_X :: "u32"
  TouchEvent_Y :: "u32"
  TouchEvent_Pressure :: "u32"
  TouchEvent_TouchMajor :: "i32"
  TouchEvent_TouchMinor :: "i32"

definition TouchEvent_zero :: TouchEvent where
    "TouchEvent_zero = \<lparr>TouchEvent_Identifier = 0, TouchEvent_X = 0, TouchEvent_Y = 0,
    TouchEvent_Pressure = 0, TouchEvent_TouchMajor = 0, TouchEvent_TouchMinor = 0\<rparr>"

primrec TouchEvent_GetIdentifier :: "TouchEvent option \<Rightarrow> u32" where
  "TouchEvent_GetIdentifier None = 0"
| "TouchEvent_GetIdentifier (Some x) = TouchEvent_Identifier x"

primrec TouchEvent_GetX :: "TouchEvent option \<Rightarrow> u32" where
  "TouchEvent_GetX None = 0"
| "TouchEvent_GetX (Some x) = TouchEvent_X x"

primrec TouchEvent_GetY :: "TouchEvent option \<Rightarrow> u32" where
  "TouchEvent_GetY None = 0"
| "TouchEvent_GetY (Some x) = TouchEvent_Y x"

primrec TouchEvent_GetPressure :: "TouchEvent option \<Rightarrow> u32" where
  "TouchEvent_GetPressure None = 0"
| "TouchEvent_GetPressure (Some x) = TouchEvent_Pressure x"

primrec TouchEvent_GetTouchMajor :: "TouchEvent option \<Rightarrow> i32" where
  "TouchEvent_GetTouchMajor None = 0"
| "TouchEvent_GetTouchMajor (Some x) = TouchEvent_TouchMajor x"

primrec TouchEvent_GetTouchMinor :: "TouchEvent option \<Rightarrow> i32" where
  "TouchEvent_GetTouchMinor None = 0"
| "TouchEvent_GetTouchMinor (Some x) = TouchEvent_TouchMinor x"

subsection \<open>InputRequest\<close>

datatype InputRequest_Event =
    InputRequest_Touch "TouchEvent option"

record InputRequest =
  InputRequest_Event :: "InputRequest_Event option"

definition InputRequest_zero :: InputRequest where
  "InputRequest_zero = \<lparr>InputRequest_Event = None\<rparr>"

primrec InputRequest_GetEvent :: "InputRequest option \<Rightarrow> InputRequest_Event option" where
  "InputRequest_GetEvent None = None"
| "InputRequest_GetEvent (Some x) = InputRequest_Event x"

definition InputRequest_GetTouch :: "InputRequest option \<Rightarrow> TouchEvent option" where
  "InputRequest_GetTouch x = (case InputRequest_GetEvent x of Some (InputRequest_Touch v) \<Rightarrow> v | _ \<Rightarrow> None)"

subsection \<open>ShellStartRequest\<close>

record ShellStartRequest =
  ShellStartRequest_ShellType :: "ShellStartRequest_ShellType"
  ShellStartRequest_Command :: "string option"
  ShellStartRequest_TermType :: "string option"

definition ShellStartRequest_zero :: ShellStartRequest where
    "ShellStartRequest_zero = \<lparr>ShellStartRequest_ShellType = 0, ShellStartRequest_Command = None,
    ShellStartRequest_TermType = None\<rparr>"

primrec ShellStartRequest_GetShellType :: "ShellStartRequest option \<Rightarrow> ShellStartRequest_ShellType" where
  "ShellStartRequest_GetShellType None = ShellStartRequest_RAW"
| "ShellStartRequest_GetShellType (Some x) = ShellStartRequest_ShellType x"

primrec ShellStartRequest_GetCommand :: "ShellStartRequest option \<Rightarrow> string" where
  "ShellStartRequest_GetCommand None = ''''"
| "ShellStartRequest_GetCommand (Some x) = (case ShellStartRequest_Command x of None \<Rightarrow> '''' | Some v \<Rightarrow> v)"

primrec ShellStartRequest_GetTermType :: "ShellStartRequest option \<Rightarrow> string" where
  "ShellStartRequest_GetTermType None = ''''"
| "ShellStartRequest_GetTermType (Some x) = (case ShellStartRequest_TermType x of None \<Rightarrow> '''' | Some v \<Rightarrow> v)"

subsection \<open>ShellStdInRequest\<close>

record ShellStdInRequest =
  ShellStdInRequest_Data :: "byte list"
  ShellStdInRequest_Close :: "bool"

definition ShellStdInRequest_zero :: ShellStdInRequest where
  "ShellStdInRequest_zero = \<lparr>ShellStdInRequest_Data = [], ShellStdInRequest_Close = False\<rparr>"

primrec ShellStdInRequest_GetData :: "ShellStdInRequest option \<Rightarrow> byte list" where
  "ShellStdInRequest_GetData None = []"
| "ShellStdInRequest_GetData (Some x) = ShellStdInRequest_Data x"

primrec ShellStdInRequest_GetClose :: "ShellStdInRequest option \<Rightarrow> bool" where
  "ShellStdInRequest_GetClose None = False"
| "ShellStdInRequest_GetClose (Some x) = ShellStdInRequest_Close x"

subsection \<open>ShellResizeRequest\<close>

record ShellResizeRequest =
  ShellResizeRequest_Rows :: "u32"
  ShellResizeRequest_Cols :: "u32"
  ShellResizeRequest_Width :: "u32"
  ShellResizeRequest_Height :: "u32"

definition ShellResizeRequest_zero :: ShellResizeRequest where
    "ShellResizeRequest_zero = \<lparr>ShellResizeRequest_Rows = 0, ShellResizeRequest_Cols = 0,
    ShellResizeRequest_Width = 0, ShellResizeRequest_Height = 0\<rparr>"

primrec ShellResizeRequest_GetRows :: "ShellResizeRequest option \<Rightarrow> u32" where
  "ShellResizeRequest_GetRows None = 0"
| "ShellResizeRequest_GetRows (Some x) = ShellResizeRequest_Rows x"

primrec ShellResizeRequest_GetCols :: "ShellResizeRequest option \<Rightarrow> u32" where
  "ShellResizeRequest_GetCols None = 0"
| "ShellResizeRequest_GetCols (Some x) = ShellResizeRequest_Cols x"

primrec ShellResizeRequest_GetWidth :: "ShellResizeRequest option \<Rightarrow> u32" where
  "ShellResizeRequest_GetWidth None = 0"
| "ShellResizeRequest_GetWidth (Some x) = ShellResizeRequest_Width x"

primrec ShellResizeRequest_GetHeight :: "ShellResizeRequest option \<Rightarrow> u32" where
  "ShellResizeRequest_GetHeight None = 0"
| "ShellResizeRequest_GetHeight (Some x) = ShellResizeRequest_Height x"

subsection \<open>ShellRequest\<close>

datatype ShellRequest_Message =
    ShellRequest_Start "ShellStartRequest option"
  | ShellRequest_Stdin "ShellStdInRequest option"
  | ShellRequest_Resize "ShellResizeRequest option"

record ShellRequest =
  ShellRequest_Message :: "ShellRequest_Message option"

definition ShellRequest_zero :: ShellRequest where
  "ShellRequest_zero = \<lparr>ShellRequest_Message = None\<rparr>"

primrec ShellRequest_GetMessage :: "ShellRequest option \<Rightarrow> ShellRequest_Message option" where
  "ShellRequest_GetMessage None = None"
| "ShellRequest_GetMessage (Some x) = ShellRequest_Message x"

definition ShellRequest_GetStart :: "ShellRequest option \<Rightarrow> ShellStartRequest option" where
  "ShellRequest_GetStart x = (case ShellRequest_GetMessage x of Some (ShellRequest_Start v) \<Rightarrow> v | _ \<Rightarrow> None)"

definition ShellRequest_GetStdin :: "ShellRequest option \<Rightarrow> ShellStdInRequest option" where
  "ShellRequest_GetStdin x = (case ShellRequest_GetMessage x of Some (ShellRequest_Stdin v) \<Rightarrow> v | _ \<Rightarrow> None)"

definition ShellRequest_GetResize :: "ShellRequest option \<Rightarrow> ShellResizeRequest option" where
  "ShellRequest_GetResize x = (case ShellRequest_GetMessage x of Some (ShellRequest_Resize v) \<Rightarrow> v | _ \<Rightarrow> None)"

subsection \<open>ShellOutputResponse\<close>

record ShellOutputResponse =
  ShellOutputResponse_Channel :: "ShellOutputResponse_ShellOutputChannel"
  ShellOutputResponse_Data :: "byte list"

definition ShellOutputResponse_zero :: ShellOutputResponse where
  "ShellOutputResponse_zero = \<lparr>ShellOutputResponse_Channel = 0, ShellOutputResponse_Data = []\<rparr>"

primrec ShellOutputResponse_GetChannel :: "ShellOutputResponse option \<Rightarrow> ShellOutputResponse_ShellOutputChannel" where
  "ShellOutputResponse_GetChannel None = ShellOutputResponse_OUT"
| "ShellOutputResponse_GetChannel (Some x) = ShellOutputResponse_Channel x"

primrec ShellOutputResponse_GetData :: "ShellOutputResponse option \<Rightarrow> byte list" where
  "ShellOutputResponse_GetData None = []"
| "ShellOutputResponse_GetData (Some x) = ShellOutputResponse_Data x"

subsection \<open>ShellExitResponse\<close>

record ShellExitResponse =
  ShellExitResponse_Code :: "u32"

definition ShellExitResponse_zero :: ShellExitResponse where
  "ShellExitResponse_zero = \<lparr>ShellExitResponse_Code = 0\<rparr>"

primrec ShellExitResponse_GetCode :: "ShellExitResponse option \<Rightarrow> u32" where
  "ShellExitResponse_GetCode None = 0"
| "ShellExitResponse_GetCode (Some x) = ShellExitResponse_Code x"

subsection \<open>ShellResponse\<close>

datatype ShellResponse_Message =
    ShellResponse_Output "ShellOutputResponse option"
  | ShellResponse_Exit "ShellExitResponse option"

record ShellResponse =
  ShellResponse_Message :: "ShellResponse_Message option"

definition ShellResponse_zero :: ShellResponse where
  "ShellResponse_zero = \<lparr>ShellResponse_Message = None\<rparr>"

primrec ShellResponse_GetMessage :: "ShellResponse option \<Rightarrow> ShellResponse_Message option" where
  "ShellResponse_GetMessage None = None"
| "ShellResponse_GetMessage (Some x) = ShellResponse_Message x"

definition ShellResponse_GetOutput :: "ShellResponse option \<Rightarrow> ShellOutputResponse option" where
  "ShellResponse_GetOutput x = (case ShellResponse_GetMessage x of Some (ShellResponse_Output v) \<Rightarrow> v | _ \<Rightarrow> None)"

definition ShellResponse_GetExit :: "ShellResponse option \<Rightarrow> ShellExitResponse option" where
  "ShellResponse_GetExit x = (case ShellResponse_GetMessage x of Some (ShellResponse_Exit v) \<Rightarrow> v | _ \<Rightarrow> None)"

subsection \<open>ListDirectoryRequest\<close>

record ListDirectoryRequest =
  ListDirectoryRequest_Path :: "string"

definition ListDirectoryRequest_zero :: ListDirectoryRequest where
  "ListDirectoryRequest_zero = \<lparr>ListDirectoryRequest_Path = ''''\<rparr>"

primrec ListDirectoryRequest_GetPath :: "ListDirectoryRequest option \<Rightarrow> string" where
  "ListDirectoryRequest_GetPath None = ''''"
| "ListDirectoryRequest_GetPath (Some x) = ListDirectoryRequest_Path x"

subsection \<open>FileStat\<close>

record FileStat_pb =
  FileStat_Dev :: "u64"
  FileStat_Ino :: "u64"
  FileStat_Mode :: "u32"
  FileStat_Nlink :: "u32"
  FileStat_Uid :: "u32"
  FileStat_Gid :: "u32"
  FileStat_Size :: "u64"
  FileStat_Atime :: "i64"
  FileStat_Mtime :: "i64"
  FileStat_Ctime :: "i64"

definition FileStat_zero :: FileStat_pb where
    "FileStat_zero = \<lparr>FileStat_Dev = 0, FileStat_Ino = 0, FileStat_Mode = 0, FileStat_Nlink = 0,
    FileStat_Uid = 0, FileStat_Gid = 0, FileStat_Size = 0, FileStat_Atime = 0, FileStat_Mtime = 0,
    FileStat_Ctime = 0\<rparr>"

primrec FileStat_GetDev :: "FileStat_pb option \<Rightarrow> u64" where
  "FileStat_GetDev None = 0"
| "FileStat_GetDev (Some x) = FileStat_Dev x"

primrec FileStat_GetIno :: "FileStat_pb option \<Rightarrow> u64" where
  "FileStat_GetIno None = 0"
| "FileStat_GetIno (Some x) = FileStat_Ino x"

primrec FileStat_GetMode :: "FileStat_pb option \<Rightarrow> u32" where
  "FileStat_GetMode None = 0"
| "FileStat_GetMode (Some x) = FileStat_Mode x"

primrec FileStat_GetNlink :: "FileStat_pb option \<Rightarrow> u32" where
  "FileStat_GetNlink None = 0"
| "FileStat_GetNlink (Some x) = FileStat_Nlink x"

primrec FileStat_GetUid :: "FileStat_pb option \<Rightarrow> u32" where
  "FileStat_GetUid None = 0"
| "FileStat_GetUid (Some x) = FileStat_Uid x"

primrec FileStat_GetGid :: "FileStat_pb option \<Rightarrow> u32" where
  "FileStat_GetGid None = 0"
| "FileStat_GetGid (Some x) = FileStat_Gid x"

primrec FileStat_GetSize :: "FileStat_pb option \<Rightarrow> u64" where
  "FileStat_GetSize None = 0"
| "FileStat_GetSize (Some x) = FileStat_Size x"

primrec FileStat_GetAtime :: "FileStat_pb option \<Rightarrow> i64" where
  "FileStat_GetAtime None = 0"
| "FileStat_GetAtime (Some x) = FileStat_Atime x"

primrec FileStat_GetMtime :: "FileStat_pb option \<Rightarrow> i64" where
  "FileStat_GetMtime None = 0"
| "FileStat_GetMtime (Some x) = FileStat_Mtime x"

primrec FileStat_GetCtime :: "FileStat_pb option \<Rightarrow> i64" where
  "FileStat_GetCtime None = 0"
| "FileStat_GetCtime (Some x) = FileStat_Ctime x"

subsection \<open>ListDirectoryEntry\<close>

datatype ListDirectoryEntry_Stat =
    ListDirectoryEntry_StatError "u32"
  | ListDirectoryEntry_StatValue "FileStat_pb option"

record ListDirectoryEntry_pb =
  ListDirectoryEntry_Name :: "string"
  ListDirectoryEntry_Stat :: "ListDirectoryEntry_Stat option"

definition ListDirectoryEntry_zero :: ListDirectoryEntry_pb where
  "ListDirectoryEntry_zero = \<lparr>ListDirectoryEntry_Name = '''', ListDirectoryEntry_Stat = None\<rparr>"

primrec ListDirectoryEntry_GetName :: "ListDirectoryEntry_pb option \<Rightarrow> string" where
  "ListDirectoryEntry_GetName None = ''''"
| "ListDirectoryEntry_GetName (Some x) = ListDirectoryEntry_Name x"

primrec ListDirectoryEntry_GetStat :: "ListDirectoryEntry_pb option \<Rightarrow> ListDirectoryEntry_Stat option" where
  "ListDirectoryEntry_GetStat None = None"
| "ListDirectoryEntry_GetStat (Some x) = ListDirectoryEntry_Stat x"

definition ListDirectoryEntry_GetStatError :: "ListDirectoryEntry_pb option \<Rightarrow> u32" where
  "ListDirectoryEntry_GetStatError x = (case ListDirectoryEntry_GetStat x of Some (ListDirectoryEntry_StatError v) \<Rightarrow> v | _ \<Rightarrow> 0)"

definition ListDirectoryEntry_GetStatValue :: "ListDirectoryEntry_pb option \<Rightarrow> FileStat_pb option" where
  "ListDirectoryEntry_GetStatValue x = (case ListDirectoryEntry_GetStat x of Some (ListDirectoryEntry_StatValue v) \<Rightarrow> v | _ \<Rightarrow> None)"

subsection \<open>ListDirectoryResponse\<close>

record ListDirectoryResponse =
  ListDirectoryResponse_Entries :: "ListDirectoryEntry_pb option list"

definition ListDirectoryResponse_zero :: ListDirectoryResponse where
  "ListDirectoryResponse_zero = \<lparr>ListDirectoryResponse_Entries = []\<rparr>"

primrec ListDirectoryResponse_GetEntries :: "ListDirectoryResponse option \<Rightarrow> ListDirectoryEntry_pb option list" where
  "ListDirectoryResponse_GetEntries None = []"
| "ListDirectoryResponse_GetEntries (Some x) = ListDirectoryResponse_Entries x"

subsection \<open>StatFileRequest\<close>

record StatFileRequest =
  StatFileRequest_Path :: "string"
  StatFileRequest_FollowLinks :: "bool"

definition StatFileRequest_zero :: StatFileRequest where
  "StatFileRequest_zero = \<lparr>StatFileRequest_Path = '''', StatFileRequest_FollowLinks = False\<rparr>"

primrec StatFileRequest_GetPath :: "StatFileRequest option \<Rightarrow> string" where
  "StatFileRequest_GetPath None = ''''"
| "StatFileRequest_GetPath (Some x) = StatFileRequest_Path x"

primrec StatFileRequest_GetFollowLinks :: "StatFileRequest option \<Rightarrow> bool" where
  "StatFileRequest_GetFollowLinks None = False"
| "StatFileRequest_GetFollowLinks (Some x) = StatFileRequest_FollowLinks x"

subsection \<open>StatFileResponse\<close>

datatype StatFileResponse_Stat =
    StatFileResponse_StatError "u32"
  | StatFileResponse_StatValue "FileStat_pb option"

record StatFileResponse =
  StatFileResponse_Stat :: "StatFileResponse_Stat option"

definition StatFileResponse_zero :: StatFileResponse where
  "StatFileResponse_zero = \<lparr>StatFileResponse_Stat = None\<rparr>"

primrec StatFileResponse_GetStat :: "StatFileResponse option \<Rightarrow> StatFileResponse_Stat option" where
  "StatFileResponse_GetStat None = None"
| "StatFileResponse_GetStat (Some x) = StatFileResponse_Stat x"

definition StatFileResponse_GetStatError :: "StatFileResponse option \<Rightarrow> u32" where
  "StatFileResponse_GetStatError x = (case StatFileResponse_GetStat x of Some (StatFileResponse_StatError v) \<Rightarrow> v | _ \<Rightarrow> 0)"

definition StatFileResponse_GetStatValue :: "StatFileResponse option \<Rightarrow> FileStat_pb option" where
  "StatFileResponse_GetStatValue x = (case StatFileResponse_GetStat x of Some (StatFileResponse_StatValue v) \<Rightarrow> v | _ \<Rightarrow> None)"

subsection \<open>PullFileRequest\<close>

record PullFileRequest =
  PullFileRequest_Path :: "string"

definition PullFileRequest_zero :: PullFileRequest where
  "PullFileRequest_zero = \<lparr>PullFileRequest_Path = ''''\<rparr>"

primrec PullFileRequest_GetPath :: "PullFileRequest option \<Rightarrow> string" where
  "PullFileRequest_GetPath None = ''''"
| "PullFileRequest_GetPath (Some x) = PullFileRequest_Path x"

subsection \<open>PullFileResponse\<close>

record PullFileResponse =
  PullFileResponse_Data :: "byte list"
  PullFileResponse_Last :: "bool"

definition PullFileResponse_zero :: PullFileResponse where
  "PullFileResponse_zero = \<lparr>PullFileResponse_Data = [], PullFileResponse_Last = False\<rparr>"

primrec PullFileResponse_GetData :: "PullFileResponse option \<Rightarrow> byte list" where
  "PullFileResponse_GetData None = []"
| "PullFileResponse_GetData (Some x) = PullFileResponse_Data x"

primrec PullFileResponse_GetLast :: "PullFileResponse option \<Rightarrow> bool" where
  "PullFileResponse_GetLast None = False"
| "PullFileResponse_GetLast (Some x) = PullFileResponse_Last x"

subsection \<open>PushFileStartRequest\<close>

record PushFileStartRequest =
  PushFileStartRequest_Path :: "string"
  PushFileStartRequest_Mode :: "u32"

definition PushFileStartRequest_zero :: PushFileStartRequest where
    "PushFileStartRequest_zero = \<lparr>PushFileStartRequest_Path = '''', PushFileStartRequest_Mode =
    0\<rparr>"

primrec PushFileStartRequest_GetPath :: "PushFileStartRequest option \<Rightarrow> string" where
  "PushFileStartRequest_GetPath None = ''''"
| "PushFileStartRequest_GetPath (Some x) = PushFileStartRequest_Path x"

primrec PushFileStartRequest_GetMode :: "PushFileStartRequest option \<Rightarrow> u32" where
  "PushFileStartRequest_GetMode None = 0"
| "PushFileStartRequest_GetMode (Some x) = PushFileStartRequest_Mode x"

subsection \<open>PushFileDataRequest\<close>

record PushFileDataRequest =
  PushFileDataRequest_Data :: "byte list"

definition PushFileDataRequest_zero :: PushFileDataRequest where
  "PushFileDataRequest_zero = \<lparr>PushFileDataRequest_Data = []\<rparr>"

primrec PushFileDataRequest_GetData :: "PushFileDataRequest option \<Rightarrow> byte list" where
  "PushFileDataRequest_GetData None = []"
| "PushFileDataRequest_GetData (Some x) = PushFileDataRequest_Data x"

subsection \<open>PushFileEndRequest\<close>

record PushFileEndRequest =
  PushFileEndRequest_Mtime :: "u32"

definition PushFileEndRequest_zero :: PushFileEndRequest where
  "PushFileEndRequest_zero = \<lparr>PushFileEndRequest_Mtime = 0\<rparr>"

primrec PushFileEndRequest_GetMtime :: "PushFileEndRequest option \<Rightarrow> u32" where
  "PushFileEndRequest_GetMtime None = 0"
| "PushFileEndRequest_GetMtime (Some x) = PushFileEndRequest_Mtime x"

subsection \<open>PushFileRequest\<close>

datatype PushFileRequest_Message =
    PushFileRequest_Start "PushFileStartRequest option"
  | PushFileRequest_Data "PushFileDataRequest option"
  | PushFileRequest_End "PushFileEndRequest option"

record PushFileRequest =
  PushFileRequest_Message :: "PushFileRequest_Message option"

definition PushFileRequest_zero :: PushFileRequest where
  "PushFileRequest_zero = \<lparr>PushFileRequest_Message = None\<rparr>"

primrec PushFileRequest_GetMessage :: "PushFileRequest option \<Rightarrow> PushFileRequest_Message option" where
  "PushFileRequest_GetMessage None = None"
| "PushFileRequest_GetMessage (Some x) = PushFileRequest_Message x"

definition PushFileRequest_GetStart :: "PushFileRequest option \<Rightarrow> PushFileStartRequest option" where
  "PushFileRequest_GetStart x = (case PushFileRequest_GetMessage x of Some (PushFileRequest_Start v) \<Rightarrow> v | _ \<Rightarrow> None)"

definition PushFileRequest_GetData :: "PushFileRequest option \<Rightarrow> PushFileDataRequest option" where
  "PushFileRequest_GetData x = (case PushFileRequest_GetMessage x of Some (PushFileRequest_Data v) \<Rightarrow> v | _ \<Rightarrow> None)"

definition PushFileRequest_GetEnd :: "PushFileRequest option \<Rightarrow> PushFileEndRequest option" where
  "PushFileRequest_GetEnd x = (case PushFileRequest_GetMessage x of Some (PushFileRequest_End v) \<Rightarrow> v | _ \<Rightarrow> None)"

subsection \<open>Laws\<close>

lemmas enum_defs =
  AgentState_ERROR_def AgentState_OFF_def AgentState_STARTING_def AgentState_RUNNING_def
  StreamDisplayRequest_RGB888_def StreamDisplayRequest_VP8_def
  ShellStartRequest_RAW_def ShellStartRequest_PTY_def
  ShellOutputResponse_OUT_def ShellOutputResponse_ERR_def

lemmas oneof_getters =
  InputRequest_GetTouch_def
  ShellRequest_GetStart_def ShellRequest_GetStdin_def ShellRequest_GetResize_def
  ShellResponse_GetOutput_def ShellResponse_GetExit_def
  ListDirectoryEntry_GetStatError_def ListDirectoryEntry_GetStatValue_def
  StatFileResponse_GetStatError_def StatFileResponse_GetStatValue_def
  PushFileRequest_GetStart_def PushFileRequest_GetData_def PushFileRequest_GetEnd_def

declare oneof_getters [simp]

lemma enum_names_inverse:
  "AgentState_EmulatorState_name i = Some s \<longleftrightarrow> AgentState_EmulatorState_value s = Some i"
  "StreamDisplayRequest_FrameFormat_name i = Some s \<longleftrightarrow> StreamDisplayRequest_FrameFormat_value s = Some i"
  "ShellStartRequest_ShellType_name i = Some s \<longleftrightarrow> ShellStartRequest_ShellType_value s = Some i"
  "ShellOutputResponse_ShellOutputChannel_name i = Some s
     \<longleftrightarrow> ShellOutputResponse_ShellOutputChannel_value s = Some i"
  by (auto simp: AgentState_EmulatorState_name_def AgentState_EmulatorState_value_def
      StreamDisplayRequest_FrameFormat_name_def StreamDisplayRequest_FrameFormat_value_def
      ShellStartRequest_ShellType_name_def ShellStartRequest_ShellType_value_def
      ShellOutputResponse_ShellOutputChannel_name_def ShellOutputResponse_ShellOutputChannel_value_def
      split: if_splits)

lemma oneof_exclusive:
  "ShellRequest_GetStart x \<noteq> None \<Longrightarrow> ShellRequest_GetStdin x = None \<and> ShellRequest_GetResize x = None"
  "ShellRequest_GetStdin x \<noteq> None \<Longrightarrow> ShellRequest_GetResize x = None"
  "ShellResponse_GetOutput y \<noteq> None \<Longrightarrow> ShellResponse_GetExit y = None"
  "PushFileRequest_GetStart z \<noteq> None \<Longrightarrow> PushFileRequest_GetData z = None \<and> PushFileRequest_GetEnd z = None"
  "PushFileRequest_GetData z \<noteq> None \<Longrightarrow> PushFileRequest_GetEnd z = None"
  by (auto split: option.splits ShellRequest_Message.splits ShellResponse_Message.splits
      PushFileRequest_Message.splits)

end
