(* ===== verification/EmuConfig.thy ===== *)
theory EmuConfig
  imports Protocol
begin

text \<open>
  \<^verbatim>\<open>agent/server/emulator/config.go\<close>: the configuration file of the virtual device. A section of
  the ini package is the list of its keys and values, in the order the keys were made; the
  \<^verbatim>\<open>build.prop\<close> file is given as the outcome of loading it, the map of its global section.
\<close>

definition X8664 :: string where "X8664 = ''x86_64''"
definition ARM64 :: string where "ARM64 = ''arm64''"
definition ARM64V8A :: string where "ARM64V8A = ''arm64-v8a''"

type_synonym ini = "(string \<times> string) list"

text \<open>\<^verbatim>\<open>section.Key(k).SetValue(v)\<close>\<close>

fun SetValue :: "string \<Rightarrow> string \<Rightarrow> ini \<Rightarrow> ini" where
  "SetValue k v [] = [(k, v)]"
| "SetValue k v ((k', v') # cfg) = (if k = k' then (k, v) # cfg else (k', v') # SetValue k v cfg)"

lemma map_of_SetValue [simp]: "map_of (SetValue k v cfg) = (map_of cfg)(k \<mapsto> v)"
  by (induction cfg) auto

lemma keys_SetValue [simp]: "fst ` set (SetValue k v cfg) = insert k (fst ` set cfg)"
  by (induction k v cfg rule: SetValue.induct) (auto split: if_splits)

lemma distinct_SetValue [simp]:
  "distinct (map fst cfg) \<Longrightarrow> distinct (map fst (SetValue k v cfg))"
  by (induction k v cfg rule: SetValue.induct) auto

definition GetImageCpu :: "goerr + (string \<rightharpoonup> string) \<Rightarrow> string res" where
  "GetImageCpu build_prop = (case build_prop of
     Inl e \<Rightarrow> Err e
   | Inr sect \<Rightarrow>
      (case sect ''ro.product.cpu.abi'' of
         None \<Rightarrow> Err (NewError ''ro.product.cpu.abi missing'')
       | Some abi \<Rightarrow> Ok abi))"

definition SetValues :: "(string \<times> string) list \<Rightarrow> ini \<Rightarrow> ini" where
  "SetValues kvs cfg = fold (\<lambda>(k, v). SetValue k v) kvs cfg"

definition fixed_settings :: "(string \<times> string) list" where
  "fixed_settings = [
     (''disk.dataPartition.size'', ''512MB''),
     (''fastboot.forceColdBoot'', ''no''),
     (''hw.accelerometer'', ''yes''),
     (''hw.audioInput'', ''yes''),
     (''hw.battery'', ''yes''),
     (''hw.camera.back'', ''emulated''),
     (''hw.camera.front'', ''emulated''),
     (''hw.dPad'', ''no''),
     (''hw.device.hash2'', ''MD5:bc5032b2a871da511332401af3ac6bb0''),
     (''hw.device.manufacturer'', ''Google''),
     (''hw.gps'', ''yes''),
     (''hw.gpu.enabled'', ''yes''),
     (''hw.gpu.mode'', ''auto''),
     (''hw.initialOrientation'', ''Portrait''),
     (''hw.keyboard'', ''yes''),
     (''hw.mainKeys'', ''no''),
     (''hw.sensors.orientation'', ''yes''),
     (''hw.sensors.proximity'', ''yes''),
     (''hw.trackBall'', ''no''),
     (''runtime.network.latency'', ''none''),
     (''runtime.network.speed'', ''full'')]"

definition base_config :: "StartEmulatorRequest option \<Rightarrow> ini" where
  "base_config request =
     (let cfg = SetValues [
            (''AvdId'', ''Custom''),
            (''avd.ini.displayname'', ''Custom''),
            (''avd.ini.encoding'', ''UTF-8''),
            (''hw.ramSize'', fmt_d (unat (StartEmulatorRequest_GetRamSize request))),
            (''hw.cpu.ncore'', fmt_d (unat (StartEmulatorRequest_GetCoreCount request)))] [];
          cfg = SetValues fixed_settings cfg
      in SetValues [
            (''hw.lcd.density'', fmt_d (unat (StartEmulatorRequest_GetLcdDensity request))),
            (''hw.lcd.width'', fmt_d (unat (StartEmulatorRequest_GetLcdWidth request))),
            (''hw.lcd.height'', fmt_d (unat (StartEmulatorRequest_GetLcdHeight request)))] cfg)"

definition createConfig :: "goerr + (string \<rightharpoonup> string) \<Rightarrow> StartEmulatorRequest option \<Rightarrow> ini res" where
  "createConfig build_prop request =
     bind_res (GetImageCpu build_prop) (\<lambda>abi.
       let cfg = SetValue ''abi.type'' abi (base_config request)
       in if abi = X8664 then
            Ok (SetValue ''image.sysdir.1'' ''/android/system-image/'' (SetValue ''hw.cpu.arch'' X8664 cfg))
          else if abi = ARM64V8A then
            Ok (SetValue ''image.sysdir.1'' ''/android/system-image/'' (SetValue ''hw.cpu.arch'' ARM64 cfg))
          else Err (NewError (''unknown abi '' @ abi)))"

lemma distinct_SetValues:
  "distinct (map fst cfg) \<Longrightarrow> distinct (map fst (SetValues kvs cfg))"
  unfolding SetValues_def by (induction kvs arbitrary: cfg) (auto split: prod.splits)

lemma map_of_SetValues: "map_of (SetValues kvs cfg) = map_of cfg ++ map_of (rev kvs)"
  unfolding SetValues_def by (induction kvs arbitrary: cfg) (auto simp: map_add_def fun_eq_iff split: option.splits)

lemma distinct_base_config: "distinct (map fst (base_config request))"
  unfolding base_config_def Let_def by (intro distinct_SetValues) simp

text \<open>Decimal numerals are read back as the number they were written for.\<close>

definition of_decimal :: "string \<Rightarrow> nat" where
  "of_decimal = foldl (\<lambda>n c. 10 * n + (of_char c - 48)) 0"

lemma of_decimal_fmt_d: "of_decimal (fmt_d n) = n"
proof -
  have digit: "of_char (digit_char d) - 48 = d" if "d < 10" for d :: nat
    using that by (simp add: digit_char_def)
  have "foldl (\<lambda>n c. 10 * n + (of_char c - 48)) 0 (fmt_base 10 n) = n"
    by (induction n rule: less_induct, subst fmt_base.simps) (simp add: digit)
  then show ?thesis by (simp add: of_decimal_def fmt_d_def)
qed

lemma map_of_base_config:
  "map_of (base_config r) ''hw.ramSize'' = Some (fmt_d (unat (StartEmulatorRequest_GetRamSize r)))"
  "map_of (base_config r) ''hw.cpu.ncore'' = Some (fmt_d (unat (StartEmulatorRequest_GetCoreCount r)))"
  "map_of (base_config r) ''hw.lcd.density'' = Some (fmt_d (unat (StartEmulatorRequest_GetLcdDensity r)))"
  "map_of (base_config r) ''hw.lcd.width'' = Some (fmt_d (unat (StartEmulatorRequest_GetLcdWidth r)))"
  "map_of (base_config r) ''hw.lcd.height'' = Some (fmt_d (unat (StartEmulatorRequest_GetLcdHeight r)))"
  by (simp_all add: base_config_def Let_def map_of_SetValues fixed_settings_def)

subsection \<open>The configuration carries the request\<close>

text \<open>The configuration is made exactly for the two known processor types, names every key once,
  and carries the requested memory, cores and display as decimal numerals that read back as the
  request's numbers; the processor's architecture follows from its type.\<close>

lemma createConfig_faithful:
  "case createConfig build_prop (Some r) of
     Ok cfg \<Rightarrow> distinct (map fst cfg) \<and>
       GetImageCpu build_prop = Ok (the (map_of cfg ''abi.type'')) \<and>
       (map_of cfg ''abi.type'', map_of cfg ''hw.cpu.arch'') \<in>
          {(Some X8664, Some X8664), (Some ARM64V8A, Some ARM64)} \<and>
       map_option of_decimal (map_of cfg ''hw.ramSize'') = Some (unat (StartEmulatorRequest_RamSize r)) \<and>
       map_option of_decimal (map_of cfg ''hw.cpu.ncore'') = Some (unat (StartEmulatorRequest_CoreCount r)) \<and>
       map_option of_decimal (map_of cfg ''hw.lcd.density'') = Some (unat (StartEmulatorRequest_LcdDensity r)) \<and>
       map_option of_decimal (map_of cfg ''hw.lcd.width'') = Some (unat (StartEmulatorRequest_LcdWidth r)) \<and>
       map_option of_decimal (map_of cfg ''hw.lcd.height'') = Some (unat (StartEmulatorRequest_LcdHeight r))
   | Err e \<Rightarrow> GetImageCpu build_prop = Err e \<or>
       (\<exists>abi. GetImageCpu build_prop = Ok abi \<and> abi \<notin> {X8664, ARM64V8A} \<and> e = NewError (''unknown abi '' @ abi))
   | Panic p \<Rightarrow> False"
proof (cases "GetImageCpu build_prop")
  case (Ok abi)
  have "X8664 \<noteq> ARM64V8A" by (simp add: X8664_def ARM64V8A_def)
  with Ok show ?thesis
    by (simp add: createConfig_def Let_def map_of_base_config of_decimal_fmt_d distinct_base_config
        del: SetValue.simps)
next
  case (Err e)
  then show ?thesis by (simp add: createConfig_def)
next
  case (Panic p)
  then show ?thesis by (auto simp: GetImageCpu_def split: sum.splits option.splits)
qed

end
