(* ===== verification/EmuProtocol.thy ===== *)
theory EmuProtocol
  imports Prelude
begin

text \<open>
  The messages of the emulator's own gRPC service that the agent exchanges with it, from
  \<^verbatim>\<open>agent/server/emulator/controller/protocol/emulator_controller.pb.go\<close>, in the conventions of
  \<open>Protocol\<close>, with the prefix \<open>emu_\<close> for the Go package. A \<^verbatim>\<open>float64\<close> is its bit pattern. The
  messages of the service's other calls, which the agent never makes, are left out.
\<close>

subsection \<open>Enumerations\<close>

type_synonym emu_DisplayModeValue = i32

definition emu_DisplayModeValue_PHONE :: emu_DisplayModeValue where "emu_DisplayModeValue_PHONE = 0"
definition emu_DisplayModeValue_FOLDABLE :: emu_DisplayModeValue where "emu_DisplayModeValue_FOLDABLE = 1"
definition emu_DisplayModeValue_TABLET :: emu_DisplayModeValue where "emu_DisplayModeValue_TABLET = 2"
definition emu_DisplayModeValue_DESKTOP :: emu_DisplayModeValue where "emu_DisplayModeValue_DESKTOP = 3"

definition emu_DisplayModeValue_name :: "i32 \<rightharpoonup> string" where
  "emu_DisplayModeValue_name = map_of [(0, ''PHONE''), (1, ''FOLDABLE''), (2, ''TABLET''), (3, ''DESKTOP'')]"

definition emu_DisplayModeValue_value :: "string \<rightharpoonup> i32" where
  "emu_DisplayModeValue_value = map_of [(''PHONE'', 0), (''FOLDABLE'', 1), (''TABLET'', 2), (''DESKTOP'', 3)]"

type_synonym emu_VmRunState_RunState = i32

definition emu_VmRunState_UNKNOWN :: emu_VmRunState_RunState where "emu_VmRunState_UNKNOWN = 0"
definition emu_VmRunState_RUNNING :: emu_VmRunState_RunState where "emu_VmRunState_RUNNING = 1"
definition emu_VmRunState_RESTORE_VM :: emu_VmRunState_RunState where "emu_VmRunState_RESTORE_VM = 2"
definition emu_VmRunState_PAUSED :: emu_VmRunState_RunState where "emu_VmRunState_PAUSED = 3"
definition emu_VmRunState_SAVE_VM :: emu_VmRunState_RunState where "emu_VmRunState_SAVE_VM = 4"
definition emu_VmRunState_SHUTDOWN :: emu_VmRunState_RunState where "emu_VmRunState_SHUTDOWN = 5"
definition emu_VmRunState_TERMINATE :: emu_VmRunState_RunState where "emu_VmRunState_TERMINATE = 7"
definition emu_VmRunState_RESET :: emu_VmRunState_RunState where "emu_VmRunState_RESET = 9"
definition emu_VmRunState_INTERNAL_ERROR :: emu_VmRunState_RunState where "emu_VmRunState_INTERNAL_ERROR = 10"

definition emu_VmRunState_RunState_name :: "i32 \<rightharpoonup> string" where
  "emu_VmRunState_RunState_name = map_of [(0, ''UNKNOWN''), (1, ''RUNNING''), (2, ''RESTORE_VM''), (3, ''PAUSED''), (4, ''SAVE_VM''),
    (5, ''SHUTDOWN''), (7, ''TERMINATE''), (9, ''RESET''), (10, ''INTERNAL_ERROR'')]"

definition emu_VmRunState_RunState_value :: "string \<rightharpoonup> i32" where
  "emu_VmRunState_RunState_value = map_of [(''UNKNOWN'', 0), (''RUNNING'', 1), (''RESTORE_VM'', 2), (''PAUSED'', 3), (''SAVE_VM'', 4),
    (''SHUTDOWN'', 5), (''TERMINATE'', 7), (''RESET'', 9), (''INTERNAL_ERROR'', 10)]"

type_synonym emu_VmConfiguration_VmHypervisorType = i32

definition emu_VmConfiguration_UNKNOWN :: emu_VmConfiguration_VmHypervisorType where "emu_VmConfiguration_UNKNOWN = 0"
definition emu_VmConfiguration_NONE :: emu_VmConfiguration_VmHypervisorType where "emu_VmConfiguration_NONE = 1"
definition emu_VmConfiguration_KVM :: emu_VmConfiguration_VmHypervisorType where "emu_VmConfiguration_KVM = 2"
definition emu_VmConfiguration_HAXM :: emu_VmConfiguration_VmHypervisorType where "emu_VmConfiguration_HAXM = 3"
definition emu_VmConfiguration_HVF :: emu_VmConfiguration_VmHypervisorType where "emu_VmConfiguration_HVF = 4"
definition emu_VmConfiguration_WHPX :: emu_VmConfiguration_VmHypervisorType where "emu_VmConfiguration_WHPX = 5"
definition emu_VmConfiguration_GVM :: emu_VmConfiguration_VmHypervisorType where "emu_VmConfiguration_GVM = 6"

definition emu_VmConfiguration_VmHypervisorType_name :: "i32 \<rightharpoonup> string" where
    "emu_VmConfiguration_VmHypervisorType_name = map_of [(0, ''UNKNOWN''), (1, ''NONE''), (2, ''KVM''),
    (3, ''HAXM''), (4, ''HVF''), (5, ''WHPX''), (6, ''GVM'')]"

definition emu_VmConfiguration_VmHypervisorType_value :: "string \<rightharpoonup> i32" where
    "emu_VmConfiguration_VmHypervisorType_value = map_of [(''UNKNOWN'', 0), (''NONE'', 1), (''KVM'', 2),
    (''HAXM'', 3), (''HVF'', 4), (''WHPX'', 5), (''GVM'', 6)]"

type_synonym emu_Touch_EventExpiration = i32

definition emu_Touch_EVENT_EXPIRATION_UNSPECIFIED :: emu_Touch_EventExpiration where "emu_Touch_EVENT_EXPIRATION_UNSPECIFIED = 0"
definition emu_Touch_NEVER_EXPIRE :: emu_Touch_EventExpiration where "emu_Touch_NEVER_EXPIRE = 1"

definition emu_Touch_EventExpiration_name :: "i32 \<rightharpoonup> string" where
  "emu_Touch_EventExpiration_name = map_of [(0, ''EVENT_EXPIRATION_UNSPECIFIED''), (1, ''NEVER_EXPIRE'')]"

definition emu_Touch_EventExpiration_value :: "string \<rightharpoonup> i32" where
  "emu_Touch_EventExpiration_value = map_of [(''EVENT_EXPIRATION_UNSPECIFIED'', 0), (''NEVER_EXPIRE'', 1)]"

type_synonym emu_ImageTransport_TransportChannel = i32

definition emu_ImageTransport_TRANSPORT_CHANNEL_UNSPECIFIED :: emu_ImageTransport_TransportChannel where "emu_ImageTransport_TRANSPORT_CHANNEL_UNSPECIFIED = 0"
definition emu_ImageTransport_MMAP :: emu_ImageTransport_TransportChannel where "emu_ImageTransport_MMAP = 1"

definition emu_ImageTransport_TransportChannel_name :: "i32 \<rightharpoonup> string" where
  "emu_ImageTransport_TransportChannel_name = map_of [(0, ''TRANSPORT_CHANNEL_UNSPECIFIED''), (1, ''MMAP'')]"

definition emu_ImageTransport_TransportChannel_value :: "string \<rightharpoonup> i32" where
  "emu_ImageTransport_TransportChannel_value = map_of [(''TRANSPORT_CHANNEL_UNSPECIFIED'', 0), (''MMAP'', 1)]"

type_synonym emu_ImageFormat_ImgFormat = i32

definition emu_ImageFormat_PNG :: emu_ImageFormat_ImgFormat where "emu_ImageFormat_PNG = 0"
definition emu_ImageFormat_RGBA8888 :: emu_ImageFormat_ImgFormat where "emu_ImageFormat_RGBA8888 = 1"
definition emu_ImageFormat_RGB888 :: emu_ImageFormat_ImgFormat where "emu_ImageFormat_RGB888 = 2"

definition emu_ImageFormat_ImgFormat_name :: "i32 \<rightharpoonup> string" where
  "emu_ImageFormat_ImgFormat_name = map_of [(0, ''PNG''), (1, ''RGBA8888''), (2, ''RGB888'')]"

definition emu_ImageFormat_ImgFormat_value :: "string \<rightharpoonup> i32" where
  "emu_ImageFormat_ImgFormat_value = map_of [(''PNG'', 0), (''RGBA8888'', 1), (''RGB888'', 2)]"

type_synonym emu_Rotation_SkinRotation = i32

definition emu_Rotation_PORTRAIT :: emu_Rotation_SkinRotation where "emu_Rotation_PORTRAIT = 0"
definition emu_Rotation_LANDSCAPE :: emu_Rotation_SkinRotation where "emu_Rotation_LANDSCAPE = 1"
definition emu_Rotation_REVERSE_PORTRAIT :: emu_Rotation_SkinRotation where "emu_Rotation_REVERSE_PORTRAIT = 2"
definition emu_Rotation_REVERSE_LANDSCAPE :: emu_Rotation_SkinRotation where "emu_Rotation_REVERSE_LANDSCAPE = 3"

definition emu_Rotation_SkinRotation_name :: "i32 \<rightharpoonup> string" where
    "emu_Rotation_SkinRotation_name = map_of [(0, ''PORTRAIT''), (1, ''LANDSCAPE''), (2,
    ''REVERSE_PORTRAIT''), (3, ''REVERSE_LANDSCAPE'')]"

definition emu_Rotation_SkinRotation_value :: "string \<rightharpoonup> i32" where
    "emu_Rotation_SkinRotation_value = map_of [(''PORTRAIT'', 0), (''LANDSCAPE'', 1),
    (''REVERSE_PORTRAIT'', 2), (''REVERSE_LANDSCAPE'', 3)]"

subsection \<open>VmRunState\<close>

record emu_VmRunState =
  emu_VmRunState_State :: "emu_VmRunState_RunState"

definition emu_VmRunState_zero :: emu_VmRunState where
  "emu_VmRunState_zero = \<lparr>emu_VmRunState_State = 0\<rparr>"

primrec emu_VmRunState_GetState :: "emu_VmRunState option \<Rightarrow> emu_VmRunState_RunState" where
  "emu_VmRunState_GetState None = emu_VmRunState_UNKNOWN"
| "emu_VmRunState_GetState (Some x) = emu_VmRunState_State x"

subsection \<open>VmConfiguration\<close>

record emu_VmConfiguration =
  emu_VmConfiguration_HypervisorType :: "emu_VmConfiguration_VmHypervisorType"
  emu_VmConfiguration_NumberOfCpuCores :: "i32"
  emu_VmConfiguration_RamSizeBytes :: "i64"

definition emu_VmConfiguration_zero :: emu_VmConfiguration where
    "emu_VmConfiguration_zero = \<lparr>emu_VmConfiguration_HypervisorType = 0,
    emu_VmConfiguration_NumberOfCpuCores = 0, emu_VmConfiguration_RamSizeBytes = 0\<rparr>"

primrec emu_VmConfiguration_GetHypervisorType :: "emu_VmConfiguration option \<Rightarrow> emu_VmConfiguration_VmHypervisorType" where
  "emu_VmConfiguration_GetHypervisorType None = emu_VmConfiguration_UNKNOWN"
| "emu_VmConfiguration_GetHypervisorType (Some x) = emu_VmConfiguration_HypervisorType x"

primrec emu_VmConfiguration_GetNumberOfCpuCores :: "emu_VmConfiguration option \<Rightarrow> i32" where
  "emu_VmConfiguration_GetNumberOfCpuCores None = 0"
| "emu_VmConfiguration_GetNumberOfCpuCores (Some x) = emu_VmConfiguration_NumberOfCpuCores x"

primrec emu_VmConfiguration_GetRamSizeBytes :: "emu_VmConfiguration option \<Rightarrow> i64" where
  "emu_VmConfiguration_GetRamSizeBytes None = 0"
| "emu_VmConfiguration_GetRamSizeBytes (Some x) = emu_VmConfiguration_RamSizeBytes x"

subsection \<open>Touch\<close>

record emu_Touch =
  emu_Touch_X :: "i32"
  emu_Touch_Y :: "i32"
  emu_Touch_Identifier :: "i32"
  emu_Touch_Pressure :: "i32"
  emu_Touch_TouchMajor :: "i32"
  emu_Touch_TouchMinor :: "i32"
  emu_Touch_Expiration :: "emu_Touch_EventExpiration"

definition emu_Touch_zero :: emu_Touch where
    "emu_Touch_zero = \<lparr>emu_Touch_X = 0, emu_Touch_Y = 0, emu_Touch_Identifier = 0,
    emu_Touch_Pressure = 0, emu_Touch_TouchMajor = 0, emu_Touch_TouchMinor = 0, emu_Touch_Expiration =
    0\<rparr>"

primrec emu_Touch_GetX :: "emu_Touch option \<Rightarrow> i32" where
  "emu_Touch_GetX None = 0"
| "emu_Touch_GetX (Some x) = emu_Touch_X x"

primrec emu_Touch_GetY :: "emu_Touch option \<Rightarrow> i32" where
  "emu_Touch_GetY None = 0"
| "emu_Touch_GetY (Some x) = emu_Touch_Y x"

primrec emu_Touch_GetIdentifier :: "emu_Touch option \<Rightarrow> i32" where
  "emu_Touch_GetIdentifier None = 0"
| "emu_Touch_GetIdentifier (Some x) = emu_Touch_Identifier x"

primrec emu_Touch_GetPressure :: "emu_Touch option \<Rightarrow> i32" where
  "emu_Touch_GetPressure None = 0"
| "emu_Touch_GetPressure (Some x) = emu_Touch_Pressure x"

primrec emu_Touch_GetTouchMajor :: "emu_Touch option \<Rightarrow> i32" where
  "emu_Touch_GetTouchMajor None = 0"
| "emu_Touch_GetTouchMajor (Some x) = emu_Touch_TouchMajor x"

primrec emu_Touch_GetTouchMinor :: "emu_Touch option \<Rightarrow> i32" where
  "emu_Touch_GetTouchMinor None = 0"
| "emu_Touch_GetTouchMinor (Some x) = emu_Touch_TouchMinor x"

primrec emu_Touch_GetExpiration :: "emu_Touch option \<Rightarrow> emu_Touch_EventExpiration" where
  "emu_Touch_GetExpiration None = emu_Touch_EVENT_EXPIRATION_UNSPECIFIED"
| "emu_Touch_GetExpiration (Some x) = emu_Touch_Expiration x"

subsection \<open>TouchEvent\<close>

record emu_TouchEvent =
  emu_TouchEvent_Touches :: "emu_Touch option list"
  emu_TouchEvent_Display :: "i32"

definition emu_TouchEvent_zero :: emu_TouchEvent where
  "emu_TouchEvent_zero = \<lparr>emu_TouchEvent_Touches = [], emu_TouchEvent_Display = 0\<rparr>"

primrec emu_TouchEvent_GetTouches :: "emu_TouchEvent option \<Rightarrow> emu_Touch option list" where
  "emu_TouchEvent_GetTouches None = []"
| "emu_TouchEvent_GetTouches (Some x) = emu_TouchEvent_Touches x"

primrec emu_TouchEvent_GetDisplay :: "emu_TouchEvent option \<Rightarrow> i32" where
  "emu_TouchEvent_GetDisplay None = 0"
| "emu_TouchEvent_GetDisplay (Some x) = emu_TouchEvent_Display x"

subsection \<open>ImageTransport\<close>

record emu_ImageTransport =
  emu_ImageTransport_Channel :: "emu_ImageTransport_TransportChannel"
  emu_ImageTransport_Handle :: "string"

definition emu_ImageTransport_zero :: emu_ImageTransport where
  "emu_ImageTransport_zero = \<lparr>emu_ImageTransport_Channel = 0, emu_ImageTransport_Handle = ''''\<rparr>"

primrec emu_ImageTransport_GetChannel :: "emu_ImageTransport option \<Rightarrow> emu_ImageTransport_TransportChannel" where
  "emu_ImageTransport_GetChannel None = emu_ImageTransport_TRANSPORT_CHANNEL_UNSPECIFIED"
| "emu_ImageTransport_GetChannel (Some x) = emu_ImageTransport_Channel x"

primrec emu_ImageTransport_GetHandle :: "emu_ImageTransport option \<Rightarrow> string" where
  "emu_ImageTransport_GetHandle None = ''''"
| "emu_ImageTransport_GetHandle (Some x) = emu_ImageTransport_Handle x"

subsection \<open>FoldedDisplay\<close>

record emu_FoldedDisplay =
  emu_FoldedDisplay_Width :: "u32"
  emu_FoldedDisplay_Height :: "u32"
  emu_FoldedDisplay_XOffset :: "u32"
  emu_FoldedDisplay_YOffset :: "u32"

definition emu_FoldedDisplay_zero :: emu_FoldedDisplay where
    "emu_FoldedDisplay_zero = \<lparr>emu_FoldedDisplay_Width = 0, emu_FoldedDisplay_Height = 0,
    emu_FoldedDisplay_XOffset = 0, emu_FoldedDisplay_YOffset = 0\<rparr>"

primrec emu_FoldedDisplay_GetWidth :: "emu_FoldedDisplay option \<Rightarrow> u32" where
  "emu_FoldedDisplay_GetWidth None = 0"
| "emu_FoldedDisplay_GetWidth (Some x) = emu_FoldedDisplay_Width x"

primrec emu_FoldedDisplay_GetHeight :: "emu_FoldedDisplay option \<Rightarrow> u32" where
  "emu_FoldedDisplay_GetHeight None = 0"
| "emu_FoldedDisplay_GetHeight (Some x) = emu_FoldedDisplay_Height x"

primrec emu_FoldedDisplay_GetXOffset :: "emu_FoldedDisplay option \<Rightarrow> u32" where
  "emu_FoldedDisplay_GetXOffset None = 0"
| "emu_FoldedDisplay_GetXOffset (Some x) = emu_FoldedDisplay_XOffset x"

primrec emu_FoldedDisplay_GetYOffset :: "emu_FoldedDisplay option \<Rightarrow> u32" where
  "emu_FoldedDisplay_GetYOffset None = 0"
| "emu_FoldedDisplay_GetYOffset (Some x) = emu_FoldedDisplay_YOffset x"

subsection \<open>Rotation\<close>

record emu_Rotation =
  emu_Rotation_Rotation :: "emu_Rotation_SkinRotation"
  emu_Rotation_XAxis :: "u64"
  emu_Rotation_YAxis :: "u64"
  emu_Rotation_ZAxis :: "u64"

definition emu_Rotation_zero :: emu_Rotation where
    "emu_Rotation_zero = \<lparr>emu_Rotation_Rotation = 0, emu_Rotation_XAxis = 0, emu_Rotation_YAxis =
    0, emu_Rotation_ZAxis = 0\<rparr>"

primrec emu_Rotation_GetRotation :: "emu_Rotation option \<Rightarrow> emu_Rotation_SkinRotation" where
  "emu_Rotation_GetRotation None = emu_Rotation_PORTRAIT"
| "emu_Rotation_GetRotation (Some x) = emu_Rotation_Rotation x"

primrec emu_Rotation_GetXAxis :: "emu_Rotation option \<Rightarrow> u64" where
  "emu_Rotation_GetXAxis None = 0"
| "emu_Rotation_GetXAxis (Some x) = emu_Rotation_XAxis x"

primrec emu_Rotation_GetYAxis :: "emu_Rotation option \<Rightarrow> u64" where
  "emu_Rotation_GetYAxis None = 0"
| "emu_Rotation_GetYAxis (Some x) = emu_Rotation_YAxis x"

primrec emu_Rotation_GetZAxis :: "emu_Rotation option \<Rightarrow> u64" where
  "emu_Rotation_GetZAxis None = 0"
| "emu_Rotation_GetZAxis (Some x) = emu_Rotation_ZAxis x"

subsection \<open>ImageFormat\<close>

record emu_ImageFormat =
  emu_ImageFormat_Format :: "emu_ImageFormat_ImgFormat"
  emu_ImageFormat_Rotation :: "emu_Rotation option"
  emu_ImageFormat_Width :: "u32"
  emu_ImageFormat_Height :: "u32"
  emu_ImageFormat_Display :: "u32"
  emu_ImageFormat_Transport :: "emu_ImageTransport option"
  emu_ImageFormat_FoldedDisplay :: "emu_FoldedDisplay option"
  emu_ImageFormat_DisplayMode :: "emu_DisplayModeValue"

definition emu_ImageFormat_zero :: emu_ImageFormat where
    "emu_ImageFormat_zero = \<lparr>emu_ImageFormat_Format = 0, emu_ImageFormat_Rotation = None,
    emu_ImageFormat_Width = 0, emu_ImageFormat_Height = 0, emu_ImageFormat_Display = 0,
    emu_ImageFormat_Transport = None, emu_ImageFormat_FoldedDisplay = None, emu_ImageFormat_DisplayMode =
    0\<rparr>"

primrec emu_ImageFormat_GetFormat :: "emu_ImageFormat option \<Rightarrow> emu_ImageFormat_ImgFormat" where
  "emu_ImageFormat_GetFormat None = emu_ImageFormat_PNG"
| "emu_ImageFormat_GetFormat (Some x) = emu_ImageFormat_Format x"

primrec emu_ImageFormat_GetRotation :: "emu_ImageFormat option \<Rightarrow> emu_Rotation option" where
  "emu_ImageFormat_GetRotation None = None"
| "emu_ImageFormat_GetRotation (Some x) = emu_ImageFormat_Rotation x"

primrec emu_ImageFormat_GetWidth :: "emu_ImageFormat option \<Rightarrow> u32" where
  "emu_ImageFormat_GetWidth None = 0"
| "emu_ImageFormat_GetWidth (Some x) = emu_ImageFormat_Width x"

primrec emu_ImageFormat_GetHeight :: "emu_ImageFormat option \<Rightarrow> u32" where
  "emu_ImageFormat_GetHeight None = 0"
| "emu_ImageFormat_GetHeight (Some x) = emu_ImageFormat_Height x"

primrec emu_ImageFormat_GetDisplay :: "emu_ImageFormat option \<Rightarrow> u32" where
  "emu_ImageFormat_GetDisplay None = 0"
| "emu_ImageFormat_GetDisplay (Some x) = emu_ImageFormat_Display x"

primrec emu_ImageFormat_GetTransport :: "emu_ImageFormat option \<Rightarrow> emu_ImageTransport option" where
  "emu_ImageFormat_GetTransport None = None"
| "emu_ImageFormat_GetTransport (Some x) = emu_ImageFormat_Transport x"

primrec emu_ImageFormat_GetFoldedDisplay :: "emu_ImageFormat option \<Rightarrow> emu_FoldedDisplay option" where
  "emu_ImageFormat_GetFoldedDisplay None = None"
| "emu_ImageFormat_GetFoldedDisplay (Some x) = emu_ImageFormat_FoldedDisplay x"

primrec emu_ImageFormat_GetDisplayMode :: "emu_ImageFormat option \<Rightarrow> emu_DisplayModeValue" where
  "emu_ImageFormat_GetDisplayMode None = emu_DisplayModeValue_PHONE"
| "emu_ImageFormat_GetDisplayMode (Some x) = emu_ImageFormat_DisplayMode x"

subsection \<open>Entry\<close>

record emu_Entry =
  emu_Entry_Key :: "string"
  emu_Entry_Value :: "string"

definition emu_Entry_zero :: emu_Entry where
  "emu_Entry_zero = \<lparr>emu_Entry_Key = '''', emu_Entry_Value = ''''\<rparr>"

primrec emu_Entry_GetKey :: "emu_Entry option \<Rightarrow> string" where
  "emu_Entry_GetKey None = ''''"
| "emu_Entry_GetKey (Some x) = emu_Entry_Key x"

primrec emu_Entry_GetValue :: "emu_Entry option \<Rightarrow> string" where
  "emu_Entry_GetValue None = ''''"
| "emu_Entry_GetValue (Some x) = emu_Entry_Value x"

subsection \<open>EntryList\<close>

record emu_EntryList =
  emu_EntryList_Entry :: "emu_Entry option list"

definition emu_EntryList_zero :: emu_EntryList where
  "emu_EntryList_zero = \<lparr>emu_EntryList_Entry = []\<rparr>"

primrec emu_EntryList_GetEntry :: "emu_EntryList option \<Rightarrow> emu_Entry option list" where
  "emu_EntryList_GetEntry None = []"
| "emu_EntryList_GetEntry (Some x) = emu_EntryList_Entry x"

subsection \<open>EmulatorStatus\<close>

record emu_EmulatorStatus =
  emu_EmulatorStatus_Version :: "string"
  emu_EmulatorStatus_Uptime :: "u64"
  emu_EmulatorStatus_Booted :: "bool"
  emu_EmulatorStatus_VmConfig :: "emu_VmConfiguration option"
  emu_EmulatorStatus_HardwareConfig :: "emu_EntryList option"

definition emu_EmulatorStatus_zero :: emu_EmulatorStatus where
    "emu_EmulatorStatus_zero = \<lparr>emu_EmulatorStatus_Version = '''', emu_EmulatorStatus_Uptime = 0,
    emu_EmulatorStatus_Booted = False, emu_EmulatorStatus_VmConfig = None,
    emu_EmulatorStatus_HardwareConfig = None\<rparr>"

primrec emu_EmulatorStatus_GetVersion :: "emu_EmulatorStatus option \<Rightarrow> string" where
  "emu_EmulatorStatus_GetVersion None = ''''"
| "emu_EmulatorStatus_GetVersion (Some x) = emu_EmulatorStatus_Version x"

primrec emu_EmulatorStatus_GetUptime :: "emu_EmulatorStatus option \<Rightarrow> u64" where
  "emu_EmulatorStatus_GetUptime None = 0"
| "emu_EmulatorStatus_GetUptime (Some x) = emu_EmulatorStatus_Uptime x"

primrec emu_EmulatorStatus_GetBooted :: "emu_EmulatorStatus option \<Rightarrow> bool" where
  "emu_EmulatorStatus_GetBooted None = False"
| "emu_EmulatorStatus_GetBooted (Some x) = emu_EmulatorStatus_Booted x"

primrec emu_EmulatorStatus_GetVmConfig :: "emu_EmulatorStatus option \<Rightarrow> emu_VmConfiguration option" where
  "emu_EmulatorStatus_GetVmConfig None = None"
| "emu_EmulatorStatus_GetVmConfig (Some x) = emu_EmulatorStatus_VmConfig x"

primrec emu_EmulatorStatus_GetHardwareConfig :: "emu_EmulatorStatus option \<Rightarrow> emu_EntryList option" where
  "emu_EmulatorStatus_GetHardwareConfig None = None"
| "emu_EmulatorStatus_GetHardwareConfig (Some x) = emu_EmulatorStatus_HardwareConfig x"

end
