(* ===== verification/Machine.thy ===== *)
theory Machine
  imports Prelude
begin

text \<open>
  Components that several goroutines call are labelled transition systems: \<open>step e s\<close> is the
  state after the event \<open>e\<close> (a critical section of one goroutine), \<open>None\<close> when \<open>e\<close> cannot
  happen in \<open>s\<close>. An execution is a sequence of events, so every interleaving of the critical
  sections is one. The locale \<open>machine\<close> is the invariant rule over such executions, with the
  events so far at hand, which is how invariants speak of what has been sent; the locale
  \<open>progress\<close> is the bound on their number.
\<close>

fun exec :: "('e \<Rightarrow> 's \<Rightarrow> 's option) \<Rightarrow> 'e list \<Rightarrow> 's \<Rightarrow> 's option" where
  "exec step [] s = Some s"
| "exec step (e # es) s = (case step e s of None \<Rightarrow> None | Some s' \<Rightarrow> exec step es s')"

lemma exec_append:
  "exec step (es @ fs) s = (case exec step es s of None \<Rightarrow> None | Some s' \<Rightarrow> exec step fs s')"
  by (induction es arbitrary: s) (auto split: option.splits)

lemma exec_Cons_Some:
  "exec step (e # es) s = Some t \<longleftrightarrow> (\<exists>s'. step e s = Some s' \<and> exec step es s' = Some t)"
  by (auto split: option.splits)

lemma exec_snoc_Some:
  "exec step (es @ [e]) s = Some t \<longleftrightarrow> (\<exists>s'. exec step es s = Some s' \<and> step e s' = Some t)"
  by (auto simp: exec_append split: option.splits)

locale machine =
  fixes step :: "'e \<Rightarrow> 's \<Rightarrow> 's option"
    and start :: 's
    and bound :: "'e list \<Rightarrow> bool"
    and inv :: "'e list \<Rightarrow> 's \<Rightarrow> bool"
  assumes bound_prefix: "bound (h @ [e]) \<Longrightarrow> bound h"
    and inv_start: "inv [] start"
    and inv_step: "bound (h @ [e]) \<Longrightarrow> inv h s \<Longrightarrow> step e s = Some s' \<Longrightarrow> inv (h @ [e]) s'"
begin

lemma inv_exec: "bound es \<Longrightarrow> exec step es start = Some s \<Longrightarrow> inv es s"
proof (induction es arbitrary: s rule: rev_induct)
  case Nil
  then show ?case using inv_start by simp
next
  case (snoc e es)
  from snoc.prems(2) obtain s0 where "exec step es start = Some s0" "step e s0 = Some s"
    by (auto simp: exec_snoc_Some)
  with snoc bound_prefix inv_step show ?case by blast
qed

end

text \<open>
  A machine each of whose events brings it closer to its end makes a bounded number of them, whatever
  the schedule.
\<close>

locale progress =
  fixes step :: "'e \<Rightarrow> 's \<Rightarrow> 's option"
    and weight :: "'s \<Rightarrow> nat"
  assumes decreases: "step e s = Some s' \<Longrightarrow> weight s' < weight s"
begin

lemma exec_weight: "exec step es s = Some t \<Longrightarrow> weight t + length es \<le> weight s"
proof (induction es arbitrary: s)
  case (Cons e es)
  then obtain s' where s': "step e s = Some s'" "exec step es s' = Some t"
    using exec_Cons_Some by metis
  with Cons.IH[OF s'(2)] decreases[OF s'(1)] show ?case by simp
qed simp

end

end
