(* ===== verification/Syslog.thy ===== *)
theory Syslog
  imports Scanner Machine "HOL-Library.Sublist"
begin

text \<open>
  \<^verbatim>\<open>agent/server/syslog/syslog.go\<close>: the lines of the system log, spread to any number of listeners.
  Listeners are shared by pointer between the list of clients and the streams that receive from them,
  so they are kept in a store of their own, and a pointer is an index of it. Under its mutex the
  processor sends a line to one client after the other, and the streams receive and close
  meanwhile: each send is an event of its own. The abstract view of one listener is a bounded
  mailbox.
\<close>

subsection \<open>Listeners\<close>

record listener =
  channel :: "string list"
  lclosed :: bool

definition channel_cap :: nat where "channel_cap = 100"

text \<open>The select with a default: a full channel drops the message.\<close>

definition send :: "string \<Rightarrow> listener \<Rightarrow> bool \<times> listener" where
  "send msg l =
     (if lclosed l then (False, l)
      else (True, if length (channel l) < channel_cap then l\<lparr>channel := channel l @ [msg]\<rparr> else l))"

text \<open>A receive waits while the channel is empty, also on a closed listener.\<close>

definition Recv :: "listener \<Rightarrow> (string \<times> listener) option" where
  "Recv l = (case channel l of [] \<Rightarrow> None | m # ms \<Rightarrow> Some (m, l\<lparr>channel := ms\<rparr>))"

definition CloseListener :: "listener \<Rightarrow> listener" where
  "CloseListener l = l\<lparr>lclosed := True\<rparr>"

subsection \<open>The log\<close>

definition SockAddr :: string where "SockAddr = ''/tmp/sys-shell.sock''"

text \<open>
  The processor waits for a connection, scans one (the lines of it still to come), or has returned.
  \<open>sending\<close> is its loop that holds the mutex: the next index plus one, and the line.
\<close>

datatype processor = Accepting | Scanning "string list" | ProcessorOver

fun to_scan :: "processor \<Rightarrow> string list" where
  "to_scan (Scanning ls) = ls" | "to_scan _ = []"

record syslog =
  listeners :: "listener list"
  clients :: "nat list"
  sending :: "(nat \<times> string) option"
  socket_open :: bool
  processor :: processor

definition new_syslog :: syslog where
  "new_syslog = \<lparr>listeners = [], clients = [], sending = None, socket_open = True, processor = Accepting\<rparr>"

text \<open>The outcomes of removing the old socket and of listening on an address are given.\<close>

definition Start :: "(string \<Rightarrow> goerr option) \<Rightarrow> (string \<Rightarrow> string \<Rightarrow> goerr option) \<Rightarrow> syslog res" where
  "Start rm netListen = (case rm SockAddr of
     Some e \<Rightarrow> Err e
   | None \<Rightarrow> (case netListen ''unix'' SockAddr of Some e \<Rightarrow> Err e | None \<Rightarrow> Ok new_syslog))"

text \<open>\<^verbatim>\<open>SysLog.Close\<close> closes the socket; the connection being scanned is not touched.\<close>

definition CloseLog :: "syslog \<Rightarrow> syslog" where
  "CloseLog s = s\<lparr>socket_open := False\<rparr>"

definition Listen :: "syslog \<Rightarrow> nat \<times> syslog" where
  "Listen s = (length (listeners s),
     s\<lparr>listeners := listeners s @ [\<lparr>channel = [], lclosed = False\<rparr>],
       clients := clients s @ [length (listeners s)]\<rparr>)"

text \<open>One turn of the loop over the clients, from the last to the first; a closed one is removed.\<close>

definition send_next :: "nat \<Rightarrow> string \<Rightarrow> syslog \<Rightarrow> syslog" where
  "send_next i msg s =
     (let p = clients s ! i; r = send msg (listeners s ! p);
          s = s\<lparr>listeners := (listeners s)[p := snd r], sending := Some (i, msg)\<rparr>
      in if fst r then s else s\<lparr>clients := take i (clients s) @ drop (Suc i) (clients s)\<rparr>)"

text \<open>The lines the scanner finds in what a connection carries, and in one connection after the other.\<close>

definition connection_lines :: "byte list \<Rightarrow> string list" where
  "connection_lines b = map to_str (fst (scan_lines b))"

definition processor_lines :: "byte list list \<Rightarrow> string list" where
  "processor_lines conns = concat (map connection_lines conns)"

text \<open>
  \<open>SysAccept\<close> is a connection with all that it will carry; an accept can fail at any time, and does
  when the socket is closed.
\<close>

datatype sys_event =
    SysAccept "byte list" | SysAcceptFail | SysLine string | SysNext | SysScanEnd | SysShutdown
  | SysListen | SysRecv nat string | SysClose nat

fun syslog_step :: "sys_event \<Rightarrow> syslog \<Rightarrow> syslog option" where
  "syslog_step (SysAccept b) s =
     (if processor s = Accepting \<and> socket_open s then Some (s\<lparr>processor := Scanning (connection_lines b)\<rparr>) else None)"
| "syslog_step SysAcceptFail s =
     (if processor s = Accepting then Some (s\<lparr>processor := ProcessorOver\<rparr>) else None)"
| "syslog_step (SysLine msg) s =
     (if sending s \<noteq> None then None
      else case processor s of
        Scanning (l # ls) \<Rightarrow>
          (if l = msg then Some (s\<lparr>processor := Scanning ls, sending := Some (length (clients s), msg)\<rparr>) else None)
      | _ \<Rightarrow> None)"
| "syslog_step SysScanEnd s =
     (if sending s = None \<and> processor s = Scanning [] then Some (s\<lparr>processor := Accepting\<rparr>) else None)"
| "syslog_step SysShutdown s = Some (CloseLog s)"
| "syslog_step SysNext s = (case sending s of
     None \<Rightarrow> None
   | Some (0, msg) \<Rightarrow> Some (s\<lparr>sending := None\<rparr>)
   | Some (Suc i, msg) \<Rightarrow> Some (send_next i msg s))"
| "syslog_step SysListen s = (if sending s \<noteq> None then None else Some (snd (Listen s)))"
| "syslog_step (SysRecv p m) s =
     (if \<not> p < length (listeners s) then None
      else case Recv (listeners s ! p) of
        None \<Rightarrow> None
      | Some (m', l) \<Rightarrow> if m = m' then Some (s\<lparr>listeners := (listeners s)[p := l]\<rparr>) else None)"
| "syslog_step (SysClose p) s =
     (if \<not> p < length (listeners s) then None
      else Some (s\<lparr>listeners := (listeners s)[p := CloseListener (listeners s ! p)]\<rparr>))"

subsection \<open>One listener as a bounded mailbox\<close>

datatype mb_event = Put string | Get string | Shut

record mailbox =
  contents :: "string list"
  shut :: bool

fun mb_step :: "mb_event \<Rightarrow> mailbox \<Rightarrow> mailbox option" where
  "mb_step (Put m) b = Some (if shut b \<or> channel_cap \<le> length (contents b) then b
     else b\<lparr>contents := contents b @ [m]\<rparr>)"
| "mb_step (Get m) b = (case contents b of [] \<Rightarrow> None
     | x # xs \<Rightarrow> if x = m then Some (b\<lparr>contents := xs\<rparr>) else None)"
| "mb_step Shut b = Some (b\<lparr>shut := True\<rparr>)"

definition empty_mailbox :: mailbox where
  "empty_mailbox = \<lparr>contents = [], shut = False\<rparr>"

fun puts :: "mb_event list \<Rightarrow> string list" where
  "puts [] = []" | "puts (Put m # es) = m # puts es" | "puts (_ # es) = puts es"

fun gets :: "mb_event list \<Rightarrow> string list" where
  "gets [] = []" | "gets (Get m # es) = m # gets es" | "gets (_ # es) = gets es"

definition mailbox_of :: "listener \<Rightarrow> mailbox" where
  "mailbox_of l = \<lparr>contents = channel l, shut = lclosed l\<rparr>"

text \<open>The lines since listener \<open>p\<close> was made, what it has received, and how many listeners there are.\<close>

fun listens :: "sys_event list \<Rightarrow> nat" where
  "listens [] = 0" | "listens (SysListen # es) = Suc (listens es)" | "listens (_ # es) = listens es"

fun all_lines :: "sys_event list \<Rightarrow> string list" where
  "all_lines [] = []" | "all_lines (SysLine m # es) = m # all_lines es" | "all_lines (_ # es) = all_lines es"

fun lines_since :: "nat \<Rightarrow> sys_event list \<Rightarrow> string list" where
  "lines_since p [] = []"
| "lines_since p (SysListen # es) = (case p of 0 \<Rightarrow> all_lines es | Suc q \<Rightarrow> lines_since q es)"
| "lines_since p (_ # es) = lines_since p es"

fun received :: "nat \<Rightarrow> sys_event list \<Rightarrow> string list" where
  "received p [] = []"
| "received p (SysRecv q m # es) = (if p = q then m # received p es else received p es)"
| "received p (_ # es) = received p es"

lemma puts_snoc [simp]: "puts (es @ [e]) = puts es @ puts [e]"
  by (induction es rule: puts.induct) auto

lemma gets_snoc [simp]: "gets (es @ [e]) = gets es @ gets [e]"
  by (induction es rule: gets.induct) auto

lemma listens_snoc [simp]: "listens (es @ [e]) = listens es + listens [e]"
  by (induction es rule: listens.induct) auto

lemma all_lines_snoc [simp]: "all_lines (es @ [e]) = all_lines es @ all_lines [e]"
  by (induction es rule: all_lines.induct) auto

lemma lines_since_snoc [simp]:
  "lines_since p (es @ [e]) = lines_since p es @ (if p < listens es then all_lines [e] else [])"
  by (induction p es rule: lines_since.induct) (cases e; auto split: nat.splits)+

lemma received_snoc [simp]: "received p (es @ [e]) = received p es @ received p [e]"
  by (induction p es rule: received.induct) auto

text \<open>What a mailbox has given out and still holds is a part of what was put in, in order.\<close>

lemma mailbox_subseq:
  "exec mb_step es empty_mailbox = Some b \<Longrightarrow> subseq (gets es @ contents b) (puts es)"
proof (induction es arbitrary: b rule: rev_induct)
  case Nil
  then show ?case by (auto simp: empty_mailbox_def)
next
  case (snoc e es)
  then obtain b0 where b0: "exec mb_step es empty_mailbox = Some b0" "mb_step e b0 = Some b"
    by (auto simp: exec_snoc_Some)
  note IH = snoc.IH[OF b0(1)]
  show ?case
  proof (cases e)
    case (Put m)
    then show ?thesis
      using IH b0(2) list_emb_append_mono[OF IH, of "[m]" "[m]"] by (auto split: if_splits intro: list_emb_append2)
  next
    case (Get m)
    then show ?thesis using IH b0(2) by (auto split: list.splits if_splits)
  next
    case Shut
    then show ?thesis using IH b0(2) by auto
  qed
qed

text \<open>Nothing is lost while it is open and at most as many messages were put in as fit.\<close>

lemma mailbox_lossless:
  "exec mb_step es empty_mailbox = Some b \<Longrightarrow> \<not> shut b \<Longrightarrow> length (puts es) \<le> channel_cap \<Longrightarrow>
   gets es @ contents b = puts es"
proof (induction es arbitrary: b rule: rev_induct)
  case Nil
  then show ?case by (auto simp: empty_mailbox_def)
next
  case (snoc e es)
  then obtain b0 where b0: "exec mb_step es empty_mailbox = Some b0" "mb_step e b0 = Some b"
    by (auto simp: exec_snoc_Some)
  have "\<not> shut b0" using b0(2) snoc.prems(2) by (cases e) (auto split: list.splits if_splits)
  then have IH: "gets es @ contents b0 = puts es" using snoc.IH[OF b0(1)] snoc.prems(3) by simp
  show ?case
  proof (cases e)
    case (Put m)
    have "length (contents b0) \<le> length (puts es)" by (simp flip: IH)
    then have "length (contents b0) < channel_cap" using snoc.prems(3) Put by simp
    then show ?thesis using IH b0(2) Put \<open>\<not> shut b0\<close> by (auto split: if_splits)
  next
    case (Get m)
    then show ?thesis using IH b0(2) by (auto split: list.splits if_splits)
  next
    case Shut
    then show ?thesis using IH b0(2) by auto
  qed
qed

lemma mailbox_bounded:
  "exec mb_step es empty_mailbox = Some b \<Longrightarrow> length (contents b) \<le> channel_cap"
proof (induction es arbitrary: b rule: rev_induct)
  case Nil
  then show ?case by (auto simp: empty_mailbox_def)
next
  case (snoc e es)
  then obtain b0 where b0: "exec mb_step es empty_mailbox = Some b0" "mb_step e b0 = Some b"
    by (auto simp: exec_snoc_Some)
  then show ?case using snoc.IH[OF b0(1)] by (cases e) (auto split: list.splits if_splits)
qed

subsection \<open>The simulation\<close>

text \<open>A listener to whom the line being sent is still to be put.\<close>

definition pending :: "syslog \<Rightarrow> nat \<Rightarrow> string list" where
  "pending s p = (case sending s of None \<Rightarrow> []
     | Some (i, msg) \<Rightarrow> if p \<in> set (take i (clients s)) then [msg] else [])"

text \<open>The history of listener \<open>p\<close> as a mailbox.\<close>

definition mb_history :: "nat \<Rightarrow> sys_event list \<Rightarrow> syslog \<Rightarrow> mb_event list \<Rightarrow> bool" where
  "mb_history p h s evs \<longleftrightarrow>
     exec mb_step evs empty_mailbox = Some (mailbox_of (listeners s ! p)) \<and>
     gets evs = received p h \<and> puts evs @ pending s p = lines_since p h"

definition syslog_inv :: "sys_event list \<Rightarrow> syslog \<Rightarrow> bool" where
  "syslog_inv h s \<longleftrightarrow>
     length (listeners s) = listens h \<and>
     distinct (clients s) \<and> set (clients s) \<subseteq> {..<length (listeners s)} \<and>
     (\<forall>i msg. sending s = Some (i, msg) \<longrightarrow> i \<le> length (clients s)) \<and>
     (\<forall>p < length (listeners s). \<not> lclosed (listeners s ! p) \<longrightarrow> p \<in> set (clients s)) \<and>
     (\<forall>p < length (listeners s). \<exists>evs. mb_history p h s evs) \<and>
     (\<forall>p \<ge> listens h. received p h = [])"

lemma lines_since_none: "listens h \<le> p \<Longrightarrow> lines_since p h = []"
  by (induction p h rule: lines_since.induct) (auto split: nat.splits)

lemma syslog_invD:
  assumes "syslog_inv h s"
  shows "length (listeners s) = listens h" "distinct (clients s)"
    "\<And>p. p \<in> set (clients s) \<Longrightarrow> p < length (listeners s)"
    "\<And>i msg. sending s = Some (i, msg) \<Longrightarrow> i \<le> length (clients s)"
    "\<And>p. p < length (listeners s) \<Longrightarrow> \<not> lclosed (listeners s ! p) \<Longrightarrow> p \<in> set (clients s)"
    "\<And>p. p < length (listeners s) \<Longrightarrow> \<exists>evs. mb_history p h s evs"
    "\<And>p. listens h \<le> p \<Longrightarrow> received p h = []"
  using assms by (auto simp: syslog_inv_def)

lemma syslog_invI:
  assumes "length (listeners s) = listens h" "distinct (clients s)" "set (clients s) \<subseteq> {..<length (listeners s)}"
    "\<And>i msg. sending s = Some (i, msg) \<Longrightarrow> i \<le> length (clients s)"
    "\<And>p. p < length (listeners s) \<Longrightarrow> \<not> lclosed (listeners s ! p) \<Longrightarrow> p \<in> set (clients s)"
    "\<And>p. p < length (listeners s) \<Longrightarrow> \<exists>evs. mb_history p h s evs"
    "\<And>p. listens h \<le> p \<Longrightarrow> received p h = []"
  shows "syslog_inv h s"
  using assms unfolding syslog_inv_def by blast

text \<open>A mailbox event on top of a history.\<close>

lemma mb_history_snoc:
  assumes "mb_history p h s evs" "mb_step e (mailbox_of (listeners s ! p)) = Some (mailbox_of (listeners s' ! p))"
    and "received p h' = received p h @ gets [e]" "puts evs @ puts [e] @ pending s' p = lines_since p h'"
  shows "mb_history p h' s' (evs @ [e])"
  using assms by (simp add: mb_history_def exec_snoc_Some)

lemma mb_history_same:
  assumes "mb_history p h s evs" "listeners s' ! p = listeners s ! p"
    and "received p h' = received p h" "puts evs @ pending s' p = lines_since p h'"
  shows "mb_history p h' s' evs"
  using assms by (simp add: mb_history_def)

text \<open>A line only moves the processor; the events of the socket do nothing else.\<close>

lemma SysLine_cases:
  assumes "syslog_step (SysLine msg) s = Some t"
  obtains pr where "t = s\<lparr>processor := pr, sending := Some (length (clients s), msg)\<rparr>" "sending s = None"
proof -
  from assms obtain ls where "processor s = Scanning (msg # ls)" "sending s = None"
    "t = s\<lparr>processor := Scanning ls, sending := Some (length (clients s), msg)\<rparr>"
    by (cases "sending s"; cases "processor s"; cases "to_scan (processor s)") (auto split: if_splits)
  then show ?thesis using that by blast
qed

fun socket_event :: "sys_event \<Rightarrow> bool" where
  "socket_event (SysAccept b) = True"
| "socket_event SysAcceptFail = True"
| "socket_event SysScanEnd = True"
| "socket_event SysShutdown = True"
| "socket_event _ = False"

lemma socket_event_keeps:
  assumes "socket_event e" "syslog_step e s = Some t"
  shows "listeners t = listeners s" "clients t = clients s" "sending t = sending s" "pending t p = pending s p"
    "received p [e] = []" "all_lines [e] = []" "listens [e] = 0"
proof -
  show l: "listeners t = listeners s" "clients t = clients s" "sending t = sending s"
    using assms by (cases e; auto simp: CloseLog_def split: if_splits)+
  show "pending t p = pending s p" by (simp add: pending_def l split: option.split)
  show "received p [e] = []" "all_lines [e] = []" "listens [e] = 0" using assms(1) by (cases e; simp)+
qed

lemma syslog_inv_socket:
  assumes inv: "syslog_inv h s" and e: "socket_event e" and step: "syslog_step e s = Some t"
  shows "syslog_inv (h @ [e]) t"
proof -
  note I = syslog_invD[OF inv] and K = socket_event_keeps[OF e step]
  have "\<exists>evs. mb_history p (h @ [e]) t evs" if "p < length (listeners s)" for p
    using I(6)[OF that] K by (simp add: mb_history_def)
  then show ?thesis by (intro syslog_invI) (use I K in auto)
qed

lemma syslog_inv_line:
  assumes inv: "syslog_inv h s" and step: "syslog_step (SysLine msg) s = Some t"
  shows "syslog_inv (h @ [SysLine msg]) t"
proof -
  note I = syslog_invD[OF inv]
  obtain pr where t: "t = s\<lparr>processor := pr, sending := Some (length (clients s), msg)\<rparr>" and no: "sending s = None"
    using step by (rule SysLine_cases)
  have "\<exists>evs. mb_history p (h @ [SysLine msg]) t evs" if p: "p < length (listeners s)" for p
  proof -
    obtain evs where evs: "mb_history p h s evs" using I(6)[OF p] by blast
    have puts: "puts evs = lines_since p h" using evs no by (simp add: mb_history_def pending_def)
    show ?thesis
    proof (cases "p \<in> set (clients s)")
      case True
      then have "mb_history p (h @ [SysLine msg]) t evs"
        using p I(1) puts by (intro mb_history_same[OF evs]) (simp_all add: t pending_def)
      then show ?thesis by blast
    next
      case False
      then have "shut (mailbox_of (listeners s ! p))" using I(5)[OF p] by (auto simp: mailbox_of_def)
      then have "mb_history p (h @ [SysLine msg]) t (evs @ [Put msg])"
        using p I(1) puts False by (intro mb_history_snoc[OF evs]) (simp_all add: t pending_def)
      then show ?thesis by blast
    qed
  qed
  then show ?thesis using I unfolding syslog_inv_def t by auto
qed

lemma syslog_inv_listen:
  assumes inv: "syslog_inv h s" and step: "syslog_step SysListen s = Some t"
  shows "syslog_inv (h @ [SysListen]) t"
proof -
  note I = syslog_invD[OF inv]
  have t: "t = s\<lparr>listeners := listeners s @ [\<lparr>channel = [], lclosed = False\<rparr>], clients := clients s @ [length (listeners s)]\<rparr>"
    and no: "sending s = None"
    using step by (cases "sending s"; auto simp: Listen_def)+
  have rec: "received p h = []" "lines_since p h = []" if "p = listens h" for p
    using that I(7) lines_since_none[of h p] by auto
  have "\<exists>evs. mb_history p (h @ [SysListen]) t evs" if p: "p < Suc (length (listeners s))" for p
  proof (cases "p < length (listeners s)")
    case True
    then obtain evs where evs: "mb_history p h s evs" using I(6) by blast
    then have "mb_history p (h @ [SysListen]) t evs"
      using True no by (intro mb_history_same[OF evs]) (simp_all add: t pending_def nth_append mb_history_def)
    then show ?thesis by blast
  next
    case False
    then have "p = listens h" using p I(1) by simp
    then have "mb_history p (h @ [SysListen]) t []"
      using rec no I(1) by (simp add: mb_history_def t mailbox_of_def empty_mailbox_def pending_def nth_append)
    then show ?thesis by blast
  qed
  moreover have "length (listeners s) \<notin> set (clients s)" using I(3) by blast
  ultimately show ?thesis
    using I no unfolding syslog_inv_def t by (auto simp: nth_append less_Suc_eq)
qed


text \<open>The loop: the client at hand gets the line, or is removed when it is closed.\<close>

lemma send_next_cases:
  fixes s :: syslog
  assumes "p = clients s ! i" "l = listeners s ! p"
  obtains (Opened) "\<not> lclosed l"
    "send_next i msg s = s\<lparr>listeners := (listeners s)[p := snd (send msg l)], sending := Some (i, msg)\<rparr>"
    "mb_step (Put msg) (mailbox_of l) = Some (mailbox_of (snd (send msg l)))" "lclosed (snd (send msg l)) = lclosed l"
  | (Gone) "lclosed l"
    "send_next i msg s = s\<lparr>listeners := (listeners s)[p := l], sending := Some (i, msg),
       clients := take i (clients s) @ drop (Suc i) (clients s)\<rparr>"
    "mb_step (Put msg) (mailbox_of l) = Some (mailbox_of l)"
proof (cases "lclosed l")
  case True
  then show ?thesis using Gone assms by (simp add: send_next_def Let_def send_def mailbox_of_def)
next
  case False
  then show ?thesis using Opened assms by (simp add: send_next_def Let_def send_def mailbox_of_def)
qed

lemma syslog_inv_turn:
  assumes inv: "syslog_inv h s" and cur: "sending s = Some (Suc i, msg)" and t: "t = send_next i msg s"
  shows "syslog_inv (h @ [SysNext]) t"
proof -
  note I = syslog_invD[OF inv]
  let ?q = "clients s ! i" and ?l = "listeners s ! (clients s ! i)"
  let ?rest = "take i (clients s) @ drop (Suc i) (clients s)"
  have i: "i < length (clients s)" using I(4)[OF cur] by simp
  then have q: "?q < length (listeners s)" using I(3) by simp
  have split: "clients s = take i (clients s) @ ?q # drop (Suc i) (clients s)" using i by (rule id_take_nth_drop)
  then have d: "distinct (take i (clients s) @ ?q # drop (Suc i) (clients s))" using I(2) by simp
  have tk: "take (Suc i) (clients s) = take i (clients s) @ [?q]" using i by (rule take_Suc_conv_app_nth)
  obtain l' where l': "mb_step (Put msg) (mailbox_of ?l) = Some (mailbox_of l')" "lclosed l' = lclosed ?l"
    and tl: "listeners t = (listeners s)[?q := l']" "sending t = Some (i, msg)"
    and tc: "clients t = (if lclosed ?l then ?rest else clients s)"
    using t by (cases rule: send_next_cases[OF refl refl, of s i msg]) auto
  have tkt: "take i (clients t) = take i (clients s)" using i by (simp add: tc)
  have "\<exists>evs. mb_history p (h @ [SysNext]) t evs" if p: "p < length (listeners s)" for p
  proof -
    obtain evs where evs: "mb_history p h s evs" using I(6)[OF p] by blast
    show ?thesis
    proof (cases "p = ?q")
      case True
      have "mb_history p (h @ [SysNext]) t (evs @ [Put msg])"
        using evs p q True l'(1) cur tkt tk d
        by (intro mb_history_snoc[OF evs]) (auto simp: tl pending_def mb_history_def)
      then show ?thesis by blast
    next
      case False
      have "mb_history p (h @ [SysNext]) t evs"
        using evs p False cur tkt tk
        by (intro mb_history_same[OF evs]) (auto simp: tl pending_def mb_history_def)
      then show ?thesis by blast
    qed
  qed
  moreover have "distinct (clients t)" "set (clients t) \<subseteq> set (clients s)" "i \<le> length (clients t)"
    using d I(2) i by (auto simp: tc dest: in_set_takeD in_set_dropD)
  moreover have "p \<in> set (clients t)" if "p < length (listeners s)" "\<not> lclosed (listeners t ! p)" for p
  proof -
    have "\<not> lclosed (listeners s ! p)" using that l'(2) by (cases "p = ?q") (auto simp: tl)
    then have "p \<in> set (clients s)" using I(5) that(1) by blast
    moreover have "set (clients s) = insert ?q (set ?rest)" using arg_cong[OF split, of set] by simp
    ultimately show ?thesis using that l'(2) q by (cases "p = ?q") (auto simp: tc tl)
  qed
  ultimately show ?thesis
    using I unfolding syslog_inv_def by (auto simp: tl(2)) (auto simp: tl(1))
qed

lemma syslog_inv_next:
  assumes inv: "syslog_inv h s" and step: "syslog_step SysNext s = Some t"
  shows "syslog_inv (h @ [SysNext]) t"
proof (cases "sending s")
  case (Some im)
  then obtain j msg where cur: "sending s = Some (j, msg)" by (cases im) auto
  show ?thesis
  proof (cases j)
    case 0
    note I = syslog_invD[OF inv]
    have t: "t = s\<lparr>sending := None\<rparr>" using step cur 0 by simp
    have "\<exists>evs. mb_history p (h @ [SysNext]) t evs" if "p < length (listeners s)" for p
      using I(6)[OF that] cur 0 by (auto simp: t mb_history_def pending_def)
    then show ?thesis using I unfolding syslog_inv_def t by auto
  next
    case (Suc i)
    then show ?thesis using syslog_inv_turn[OF inv, of i msg t] step cur by simp
  qed
qed (use step in simp)

text \<open>A listener's own operations touch nothing else.\<close>

lemma syslog_inv_own:
  assumes inv: "syslog_inv h s" and q: "q < length (listeners s)" and t: "t = s\<lparr>listeners := (listeners s)[q := l]\<rparr>"
    and ev: "mb_step e (mailbox_of (listeners s ! q)) = Some (mailbox_of l)" "puts [e] = []"
    and cl: "lclosed (listeners s ! q) \<longrightarrow> lclosed l"
    and h: "received q h' = received q h @ gets [e]" "\<And>p. p \<noteq> q \<Longrightarrow> received p h' = received p h"
      "\<And>p. lines_since p h' = lines_since p h" "listens h' = listens h"
  shows "syslog_inv h' t"
proof -
  note I = syslog_invD[OF inv]
  have A: "\<exists>evs. mb_history p h' t evs" if p: "p < length (listeners s)" for p
  proof -
    obtain evs where evs: "mb_history p h s evs" using I(6)[OF p] by blast
    have pd: "pending t p = pending s p" by (cases "sending s") (auto simp: t pending_def)
    show ?thesis
    proof (cases "p = q")
      case True
      have "mb_history p h' t (evs @ [e])"
        using evs q True ev h pd by (intro mb_history_snoc[OF evs]) (simp_all add: t mb_history_def)
      then show ?thesis by blast
    next
      case False
      have "mb_history p h' t evs"
        using evs False h pd by (intro mb_history_same[OF evs]) (simp_all add: t mb_history_def)
      then show ?thesis by blast
    qed
  qed
  have C: "p \<in> set (clients s)" if "p < length (listeners s)" "\<not> lclosed (listeners t ! p)" for p
    using that I(5)[of p] q cl by (cases "p = q") (auto simp: t)
  have R: "received p h' = []" if "listens h' \<le> p" for p
    using that I(1,7) h(2,4) q by simp
  have len: "length (listeners t) = length (listeners s)" "clients t = clients s" "sending t = sending s"
    by (simp_all add: t)
  show ?thesis
  proof (rule syslog_invI)
    show "\<exists>evs. mb_history p h' t evs" if "p < length (listeners t)" for p using A that by (simp add: len)
    show "p \<in> set (clients t)" if "p < length (listeners t)" "\<not> lclosed (listeners t ! p)" for p
      using C that by (simp add: len)
  qed (use I(1-4) h(4) R in \<open>auto simp: len\<close>)
qed

lemma syslog_inv_step:
  assumes inv: "syslog_inv h s" and step: "syslog_step e s = Some t"
  shows "syslog_inv (h @ [e]) t"
proof (cases e)
  case (SysRecv q m)
  then obtain l where l: "q < length (listeners s)" "Recv (listeners s ! q) = Some (m, l)"
    "t = s\<lparr>listeners := (listeners s)[q := l]\<rparr>"
    using step by (auto split: if_splits option.splits)
  show ?thesis
    unfolding SysRecv
    by (rule syslog_inv_own[OF inv l(1,3), of "Get m"])
      (use l(2) in \<open>auto simp: Recv_def mailbox_of_def split: list.splits\<close>)
next
  case (SysClose q)
  then have q: "q < length (listeners s)" "t = s\<lparr>listeners := (listeners s)[q := CloseListener (listeners s ! q)]\<rparr>"
    using step by (auto split: if_splits)
  show ?thesis
    unfolding SysClose
    by (rule syslog_inv_own[OF inv q, of Shut]) (simp_all add: CloseListener_def mailbox_of_def)
qed (use assms syslog_inv_line syslog_inv_listen syslog_inv_next syslog_inv_socket in auto)

interpretation syslog_sys: machine syslog_step new_syslog "\<lambda>_. True" syslog_inv
proof
  show "syslog_inv [] new_syslog"
    by (simp add: syslog_inv_def new_syslog_def)
qed (auto intro: syslog_inv_step)

subsection \<open>The processor\<close>

text \<open>
  The lines so far, with those of the connection being scanned, are the lines of the connections
  accepted; a processor that is over stays over, and scans nothing when the socket was closed before it
  accepted.
\<close>

fun accepted :: "sys_event list \<Rightarrow> byte list list" where
  "accepted [] = []" | "accepted (SysAccept b # es) = b # accepted es" | "accepted (_ # es) = accepted es"

lemma accepted_snoc [simp]: "accepted (es @ [e]) = accepted es @ accepted [e]"
  by (induction es rule: accepted.induct) auto

lemma scanned_lines:
  "exec syslog_step es new_syslog = Some s \<Longrightarrow> all_lines es @ to_scan (processor s) = processor_lines (accepted es)"
proof (induction es arbitrary: s rule: rev_induct)
  case Nil
  then show ?case by (auto simp: new_syslog_def processor_lines_def)
next
  case (snoc e es)
  then obtain s0 where s0: "exec syslog_step es new_syslog = Some s0" "syslog_step e s0 = Some s"
    by (auto simp: exec_snoc_Some)
  note IH = snoc.IH[OF s0(1)]
  have same: "all_lines [e] @ to_scan (processor s) = to_scan (processor s0) @ processor_lines (accepted [e])"
    using s0(2) by (cases e) (auto simp: processor_lines_def CloseLog_def Listen_def send_next_def Let_def
      split: if_splits option.splits nat.splits list.splits processor.splits)
  have "processor_lines (accepted (es @ [e])) = processor_lines (accepted es) @ processor_lines (accepted [e])"
    by (simp add: processor_lines_def)
  then show ?case using IH same by simp
qed

subsection \<open>Properties\<close>

lemma connection_ab: "connection_lines [97, 10, 98, 10] = [''a'', ''b'']"
proof -
  have "scan_lines (unlines [[97], [98]]) = ([[97], [98]], False)"
    by (rule scan_lines_unlines) (simp add: plain_line_def newline_def carriage_def maxTokenSize_def)
  moreover have "map to_str [[97], [98]] = [''a'', ''b'']" by code_simp
  ultimately show ?thesis by (simp add: connection_lines_def unlines_def newline_def)
qed

text \<open>C7: In every interleaving of the processor with the streams, each listener is a mailbox of capacity
  100 into which every line since its registration is put, once and in order (the line being sent may
  still be on its way), and from which its stream gets what it receives.\<close>

theorem syslog_refines_mailboxes:
  assumes "exec syslog_step es new_syslog = Some s" "p < length (listeners s)"
  shows "\<exists>evs. exec mb_step evs empty_mailbox = Some (mailbox_of (listeners s ! p)) \<and>
    gets evs = received p es \<and>
    (puts evs = lines_since p es \<or> sending s \<noteq> None \<and> (\<exists>m. puts evs @ [m] = lines_since p es))"
proof -
  have "syslog_inv es s" using syslog_sys.inv_exec[OF _ assms(1)] by simp
  then obtain evs where "mb_history p es s evs" using syslog_invD(6)[OF _ assms(2)] by blast
  then show ?thesis
    by (intro exI[of _ evs]) (auto simp: mb_history_def pending_def split: option.splits if_splits)
qed

theorem syslog_refines_mailboxes_witness:
  "\<exists>evs. exec mb_step evs empty_mailbox = Some \<lparr>contents = [''b''], shut = False\<rparr> \<and> gets evs = [''a''] \<and>
    puts evs = [''a'', ''b'']"
  using syslog_refines_mailboxes[of "[SysListen, SysAccept [97, 10, 98, 10], SysLine ''a'', SysNext, SysNext, SysLine ''b'',
        SysRecv 0 ''a'', SysNext, SysNext]"
      "\<lparr>listeners = [\<lparr>channel = [''b''], lclosed = False\<rparr>], clients = [0], sending = None, socket_open = True,
        processor = Scanning []\<rparr>" 0]
  by (simp add: new_syslog_def Listen_def send_next_def send_def Recv_def channel_cap_def mailbox_of_def
      connection_ab)

text \<open>What a log stream has received and has still to receive is a part of the lines since it began, in
  order, at most 100 of them waiting; and it is all of them as long as the listener is open and there
  were at most 100.\<close>

lemma syslog_delivery:
  assumes "exec syslog_step es new_syslog = Some s" "p < length (listeners s)"
  shows "subseq (received p es @ channel (listeners s ! p)) (lines_since p es) \<and>
    length (channel (listeners s ! p)) \<le> 100 \<and>
    (\<not> lclosed (listeners s ! p) \<and> sending s = None \<and> length (lines_since p es) \<le> 100 \<longrightarrow>
      received p es @ channel (listeners s ! p) = lines_since p es)"
proof -
  have "syslog_inv es s" using syslog_sys.inv_exec[OF _ assms(1)] by simp
  then obtain evs where evs: "mb_history p es s evs" using syslog_invD(6)[OF _ assms(2)] by blast
  let ?b = "mailbox_of (listeners s ! p)"
  have b: "exec mb_step evs empty_mailbox = Some ?b" and g: "gets evs = received p es"
    and l: "puts evs @ pending s p = lines_since p es"
    using evs by (auto simp: mb_history_def)
  have "subseq (received p es @ channel (listeners s ! p)) (puts evs)"
    using mailbox_subseq[OF b] g by (simp add: mailbox_of_def)
  then have "subseq (received p es @ channel (listeners s ! p)) (lines_since p es)"
    unfolding l[symmetric] by (rule list_emb_prefix)
  moreover have "sending s = None \<Longrightarrow> lines_since p es = puts evs" using l by (simp add: pending_def)
  ultimately show ?thesis
    using mailbox_bounded[OF b] mailbox_lossless[OF b] g by (auto simp: mailbox_of_def channel_cap_def)
qed

text \<open>
  A listener nobody closes stays a client for ever. The stream of the server's call never closes its
  own, also when its client has gone.
\<close>

lemma syslog_step_closed:
  "syslog_step e s = Some t \<Longrightarrow> p < length (listeners s) \<Longrightarrow> e \<noteq> SysClose p \<Longrightarrow>
   p < length (listeners t) \<and> lclosed (listeners t ! p) = lclosed (listeners s ! p)"
proof (cases e)
  case SysNext
  assume *: "syslog_step e s = Some t" "p < length (listeners s)"
  show ?thesis
  proof (cases "sending s")
    case (Some im)
    then obtain j msg where cur: "sending s = Some (j, msg)" by (cases im) auto
    show ?thesis
    proof (cases j)
      case (Suc i)
      then have "t = send_next i msg s" using * cur SysNext by simp
      then show ?thesis
        using *(2) by (cases rule: send_next_cases[OF refl refl, of s i msg]) (auto simp: nth_upd)
    qed (use * cur SysNext in auto)
  qed (use * SysNext in simp)
qed (auto simp: Listen_def CloseLog_def nth_append nth_list_update Recv_def CloseListener_def
    split: if_splits list.splits processor.splits)

lemma abandoned_listener_stays:
  assumes "syslog_inv h s" "p < length (listeners s)" "\<not> lclosed (listeners s ! p)"
    and "exec syslog_step es s = Some t" "SysClose p \<notin> set es"
  shows "p \<in> set (clients t)"
  using assms
proof (induction es arbitrary: h s)
  case Nil
  then show ?case using syslog_invD(5)[of h s p] by simp
next
  case (Cons e es)
  then obtain s' where s': "syslog_step e s = Some s'" "exec syslog_step es s' = Some t"
    using exec_Cons_Some by metis
  show ?case
    using Cons.IH[OF syslog_inv_step[OF Cons.prems(1) s'(1)] _ _ s'(2)]
      syslog_step_closed[OF s'(1) Cons.prems(2)] Cons.prems(3,5) by auto
qed

end
