(* ===== verification/Emulator.thy ===== *)
theory Emulator
  imports AdbClient EmuConfig EmuProtocol Syslog
begin

text \<open>
  \<^verbatim>\<open>agent/server/emulator/emulator.go\<close> and \<^verbatim>\<open>agent/server/emulator/controller/controller.go\<close>:
  starting the emulator process, following its output, connecting to it, its display, input and
  stop. The operating system and the emulator's own gRPC service are given by the outcomes of the
  calls; what the agent asks of them is recorded. The parts that run as goroutines of their own are
  one definition each; \<open>Server\<close> interleaves what they report.
\<close>

subsection \<open>The emulator and its controller\<close>

text \<open>A controller is known by the address it is connected to.\<close>

record Controller =
  connection :: string

record emulator =
  request :: StartEmulatorRequest
  controller :: "Controller option"
  pid :: int
  forceExitRequested :: bool

record Frame =
  FrameWidth :: u32
  FrameHeight :: u32
  FrameData :: "byte list"

subsection \<open>Starting\<close>

definition emulator_command :: "string list" where
  "emulator_command = [
     ''/android/emulator/emulator'',
     ''-avd'', ''Custom'',
     ''-ports'', ''5556,5557'',
     ''-grpc'', ''8554'',
     ''-no-window'',
     ''-skip-adb-auth'',
     ''-no-snapshot-save'',
     ''-wipe-data'',
     ''-shell-serial'', ''unix:'' @ SockAddr,
     ''-gpu'', ''swiftshader_indirect'',
     ''-qemu'', ''-append'', ''panic=1'']"

definition emulator_env :: "string list" where
  "emulator_env = [''ANDROID_AVD_HOME=/android/home'', ''ANDROID_SDK_ROOT=/android'']"

definition startEmulator ::
  "(oscall \<Rightarrow> goerr option) \<Rightarrow> goerr + (string \<rightharpoonup> string) \<Rightarrow> StartEmulatorRequest \<Rightarrow>
   oscall list \<Rightarrow> unit res \<times> oscall list" where
  "startEmulator os build_prop req tr = (let skip = (\<lambda>tr. tr) in
     on_ok (os_do os (MkdirAll ''/android/home/Custom.avd'' 420) tr) skip (\<lambda>_ tr.
     on_ok (os_do os (WriteFile ''/android/home/Custom.ini''
       (of_str ''path=/android/home/Custom.avd'') 420) tr) skip (\<lambda>_ tr.
     on_ok (createConfig build_prop (Some req), tr) skip (\<lambda>cfg tr.
     on_ok (os_do os (SaveIni ''/android/home/Custom.avd/config.ini'' cfg) tr) skip (\<lambda>_ tr.
     on_ok (os_do os (Spawn emulator_command emulator_env) tr) skip (\<lambda>_ tr. (Ok (), tr)))))))"

text \<open>\<open>p\<close> is the process id the operating system gives the spawned process.\<close>

definition Start ::
  "(oscall \<Rightarrow> goerr option) \<Rightarrow> goerr + (string \<rightharpoonup> string) \<Rightarrow> int \<Rightarrow> StartEmulatorRequest \<Rightarrow>
   oscall list \<Rightarrow> emulator res \<times> oscall list" where
  "Start os build_prop p req tr =
     on_ok (startEmulator os build_prop req tr) (\<lambda>tr. tr) (\<lambda>_ tr.
       (Ok \<lparr>request = req, controller = None, pid = p, forceExitRequested = False\<rparr>, tr))"

subsection \<open>The output of the process\<close>

text \<open>The lines \<^verbatim>\<open>processChannel\<close> sends for what the process writes to one of its pipes.\<close>

definition processChannel :: "byte list \<Rightarrow> string list" where
  "processChannel written = map to_str (fst (scan_lines written))"

type_synonym log_state = "string \<times> bool"

definition error_line :: "string \<Rightarrow> log_state \<Rightarrow> log_state" where
  "error_line line st = (case st of (lastError, inError) \<Rightarrow>
     if HasPrefix line ''ERROR   |'' then (TrimPrefix line ''ERROR   |'', True)
     else if HasPrefix line ''WARNING |'' \<or> HasPrefix line ''INFO    |'' then (lastError, False)
     else if inError then (lastError @ CHR 0x0A # line, inError)
     else (lastError, inError))"

text \<open>
  The first loop of \<^verbatim>\<open>processLogs\<close>: each element of the schedule is one \<^verbatim>\<open>select\<close>, which takes
  from the channel of the output (\<open>True\<close>) or of the errors; a channel without lines left is
  closed and ends the loop. \<open>None\<close>: the schedule is over before that.
\<close>

fun select_loop ::
  "bool list \<Rightarrow> string list \<Rightarrow> string list \<Rightarrow> log_state \<Rightarrow> (string list \<times> string list \<times> log_state) option" where
  "select_loop [] outs errs st = None"
| "select_loop (True # ch) [] errs st = Some ([], errs, st)"
| "select_loop (True # ch) (l # outs) errs st = select_loop ch outs errs st"
| "select_loop (False # ch) outs [] st = Some (outs, [], st)"
| "select_loop (False # ch) outs (l # errs) st = select_loop ch outs errs (error_line l st)"

text \<open>The two loops after it: the output to its end, then the errors to theirs.\<close>

fun drain_out :: "string list \<Rightarrow> unit" where
  "drain_out [] = ()"
| "drain_out (l # outs) = drain_out outs"

fun drain_err :: "string list \<Rightarrow> log_state \<Rightarrow> log_state" where
  "drain_err [] st = st"
| "drain_err (l # errs) st = drain_err errs (error_line l st)"

definition processLogs :: "bool list \<Rightarrow> string list \<Rightarrow> string list \<Rightarrow> string option" where
  "processLogs ch outs errs =
     (case select_loop ch outs errs ('''', False) of
        None \<Rightarrow> None
      | Some (outs', errs', st) \<Rightarrow>
          (let _ = drain_out outs' in Some (TrimSpace (fst (drain_err errs' st)))))"

subsection \<open>The end of the process\<close>

text \<open>
  What \<^verbatim>\<open>watchEmulatorExit\<close> reports: \<open>werr\<close> is the error of waiting for the process, \<open>killed\<close>
  whether it was ended by \<^verbatim>\<open>SIGKILL\<close>.
\<close>

definition final_error :: "emulator \<Rightarrow> bool \<Rightarrow> goerr option \<Rightarrow> string \<Rightarrow> goerr option" where
  "final_error e killed werr lastError =
     (if forceExitRequested e \<and> killed then None
      else case werr of
        None \<Rightarrow> None
      | Some err \<Rightarrow> Some (NewError (''emulator exited with: '' @ err_string err @ '', last error: '' @ lastError)))"

definition watchEmulatorExit ::
  "bool list \<Rightarrow> byte list \<Rightarrow> byte list \<Rightarrow> bool \<Rightarrow> goerr option \<Rightarrow> emulator \<Rightarrow> goerr option option" where
  "watchEmulatorExit ch out err killed werr e =
     map_option (final_error e killed werr) (processLogs ch (processChannel out) (processChannel err))"

subsection \<open>Connecting\<close>

definition Connect :: "string \<Rightarrow> goerr option \<Rightarrow> goerr + emu_EmulatorStatus \<Rightarrow> Controller res" where
  "Connect serverUrl dial_err stats = (case dial_err of
     Some e \<Rightarrow> Err e
   | None \<Rightarrow> (case stats of Inl e \<Rightarrow> Err e | Inr _ \<Rightarrow> Ok \<lparr>connection = serverUrl\<rparr>))"

text \<open>\<^verbatim>\<open>log.Fatal\<close> ends the agent.\<close>

definition fatal :: "'a res \<Rightarrow> 'a res" where
  "fatal r = (case r of Err e \<Rightarrow> Panic (LogFatal e) | _ \<Rightarrow> r)"

definition root_session :: "conn \<Rightarrow> unit res \<times> conn" where
  "root_session c =
     on_ok (open_emulator c) (\<lambda>c. c) (\<lambda>_ c.
     on_ok (SendCommand (of_str ''root:'') c) (\<lambda>c. c) (\<lambda>_ c.
     on_ok (ReadLine c) (\<lambda>c. c) (\<lambda>line c. (Ok (), do_close c))))"

text \<open>\<open>Ok\<close> is the call of \<^verbatim>\<open>OnEmulatorStarted\<close>; every error on the way ends the agent.\<close>

definition connect ::
  "goerr option \<Rightarrow> goerr + emu_EmulatorStatus \<Rightarrow> goerr + conn \<Rightarrow> goerr + conn \<Rightarrow> emulator \<Rightarrow>
   unit res \<times> emulator" where
  "connect dial_err stats adb1 adb2 e =
     (case Connect '':8554'' dial_err stats of
        Ok con \<Rightarrow>
          (let e = e\<lparr>controller := Some con\<rparr> in
           (bind_res (fatal (fst (WaitForEmulator adb1))) (\<lambda>_.
              if StartEmulatorRequest_RootAdb (request e)
              then fatal (fst (NewRawConnection adb2 root_session))
              else Ok ()), e))
      | Err err \<Rightarrow> (Panic (LogFatal err), e)
      | Panic p \<Rightarrow> (Panic p, e))"

subsection \<open>The display\<close>

datatype shmcall =
    ShmOpen string
  | Truncate i64
  | Mmap i64
  | StreamScreenshot emu_ImageFormat

definition shm_do :: "(shmcall \<Rightarrow> goerr option) \<Rightarrow> shmcall \<Rightarrow> shmcall list \<Rightarrow> unit res \<times> shmcall list" where
  "shm_do sys call tr = ((case sys call of None \<Rightarrow> Ok () | Some e \<Rightarrow> Err e), tr @ [call])"

text \<open>The size of the shared memory; \<^verbatim>\<open>int\<close> has 64 bits, and the product wraps.\<close>

definition memSize :: "u32 \<Rightarrow> u32 \<Rightarrow> i64" where
  "memSize width height = ucast width * ucast height * 3"

definition image_format :: "u32 \<Rightarrow> u32 \<Rightarrow> emu_ImageFormat" where
  "image_format width height = \<lparr>
     emu_ImageFormat_Format = emu_ImageFormat_RGB888,
     emu_ImageFormat_Rotation = None,
     emu_ImageFormat_Width = width,
     emu_ImageFormat_Height = height,
     emu_ImageFormat_Display = 0,
     emu_ImageFormat_Transport = Some \<lparr>
       emu_ImageTransport_Channel = emu_ImageTransport_MMAP,
       emu_ImageTransport_Handle = ''droidmole-video''\<rparr>,
     emu_ImageFormat_FoldedDisplay = None,
     emu_ImageFormat_DisplayMode = 0\<rparr>"

text \<open>The stream is the size of its mapping.\<close>

definition StreamDisplay ::
  "(shmcall \<Rightarrow> goerr option) \<Rightarrow> u32 \<Rightarrow> u32 \<Rightarrow> shmcall list \<Rightarrow> nat res \<times> shmcall list" where
  "StreamDisplay sys width height tr = (let skip = (\<lambda>tr. tr) in
     on_ok (shm_do sys (ShmOpen ''droidmole-video'') tr) skip (\<lambda>_ tr.
     on_ok (shm_do sys (Truncate (memSize width height)) tr) skip (\<lambda>_ tr.
     on_ok (shm_do sys (Mmap (memSize width height)) tr) skip (\<lambda>_ tr.
     on_ok (shm_do sys (StreamScreenshot (image_format width height)) tr) skip (\<lambda>_ tr.
     (Ok (unat (memSize width height)), tr))))))"

text \<open>A received event with the memory at that moment, or the end of the stream.\<close>

definition GetFrame :: "nat \<Rightarrow> goerr + (nat \<Rightarrow> byte) \<Rightarrow> byte list res" where
  "GetFrame len ev = (case ev of Inl e \<Rightarrow> Err e | Inr shm \<Rightarrow> Ok (map shm [0..<len]))"

fun frame_loop :: "u32 \<Rightarrow> u32 \<Rightarrow> nat \<Rightarrow> (goerr + (nat \<Rightarrow> byte)) list \<Rightarrow> Frame list" where
  "frame_loop w h len [] = []"
| "frame_loop w h len (ev # evs) =
     (case GetFrame len ev of
        Ok data \<Rightarrow> \<lparr>FrameWidth = w, FrameHeight = h, FrameData = data\<rparr> # frame_loop w h len evs
      | _ \<Rightarrow> [])"

text \<open>The frames handed to \<^verbatim>\<open>OnEmulatorFrame\<close> for a sequence of events.\<close>

definition processDisplay ::
  "(shmcall \<Rightarrow> goerr option) \<Rightarrow> (goerr + (nat \<Rightarrow> byte)) list \<Rightarrow> emulator \<Rightarrow> Frame list" where
  "processDisplay sys evs e =
     (let w = StartEmulatorRequest_LcdWidth (request e); h = StartEmulatorRequest_LcdHeight (request e)
      in case fst (StreamDisplay sys w h []) of
           Ok len \<Rightarrow> frame_loop w h len evs
         | _ \<Rightarrow> [])"

subsection \<open>Input and stop\<close>

text \<open>What the agent asks of the emulator's service, and the signal to its process group.\<close>

datatype emucall =
    TouchCall emu_TouchEvent
  | SetVmState emu_VmRunState
  | KillProcess int

definition emu_do :: "(emucall \<Rightarrow> goerr option) \<Rightarrow> emucall \<Rightarrow> unit res \<times> emucall list" where
  "emu_do svc call = ((case svc call of None \<Rightarrow> Ok () | Some e \<Rightarrow> Err e), [call])"

definition SendTouch :: "(emucall \<Rightarrow> goerr option) \<Rightarrow> emu_TouchEvent \<Rightarrow> unit res \<times> emucall list" where
  "SendTouch svc event = emu_do svc (TouchCall event)"

definition touch_of :: "TouchEvent \<Rightarrow> emu_TouchEvent" where
  "touch_of t = \<lparr>
     emu_TouchEvent_Touches = [Some \<lparr>
       emu_Touch_X = TouchEvent_X t,
       emu_Touch_Y = TouchEvent_Y t,
       emu_Touch_Identifier = TouchEvent_Identifier t,
       emu_Touch_Pressure = TouchEvent_Pressure t,
       emu_Touch_TouchMajor = TouchEvent_TouchMajor t,
       emu_Touch_TouchMinor = TouchEvent_TouchMinor t,
       emu_Touch_Expiration = emu_Touch_NEVER_EXPIRE\<rparr>],
     emu_TouchEvent_Display = 0\<rparr>"

definition ProcessInput ::
  "(emucall \<Rightarrow> goerr option) \<Rightarrow> InputRequest \<Rightarrow> emulator \<Rightarrow> unit res \<times> emucall list" where
  "ProcessInput svc req e =
     (if controller e = None then (Err (GrpcStatus FailedPrecondition ''emulator not ready''), [])
      else case InputRequest_Event req of
        Some (InputRequest_Touch (Some t)) \<Rightarrow> SendTouch svc (touch_of t)
      | Some (InputRequest_Touch None) \<Rightarrow> (Panic NilDereference, [])
      | None \<Rightarrow> (Err (GrpcStatus InvalidArgument ''unknown request''), []))"

definition RequestExit :: "(emucall \<Rightarrow> goerr option) \<Rightarrow> unit res \<times> emucall list" where
  "RequestExit svc = emu_do svc (SetVmState \<lparr>emu_VmRunState_State = emu_VmRunState_SHUTDOWN\<rparr>)"

definition Stop ::
  "(emucall \<Rightarrow> goerr option) \<Rightarrow> StopEmulatorRequest \<Rightarrow> emulator \<Rightarrow> (unit res \<times> emucall list) \<times> emulator" where
  "Stop svc req e =
     (if StopEmulatorRequest_ForceExit req
      then (emu_do svc (KillProcess (- pid e)), e\<lparr>forceExitRequested := True\<rparr>)
      else if controller e = None
      then ((Err (GrpcStatus FailedPrecondition ''emulator not ready''), []), e)
      else (RequestExit svc, e))"

subsection \<open>The last error\<close>

definition is_error :: "string \<Rightarrow> bool" where
  "is_error l \<longleftrightarrow> HasPrefix l ''ERROR   |''"

definition is_notice :: "string \<Rightarrow> bool" where
  "is_notice l \<longleftrightarrow> HasPrefix l ''WARNING |'' \<or> HasPrefix l ''INFO    |''"

text \<open>
  The specification, without state: the text of the last \<^verbatim>\<open>ERROR\<close> line and of the lines that
  follow it up to the first notice.
\<close>

definition error_block :: "string \<Rightarrow> string list \<Rightarrow> string" where
  "error_block l post = TrimPrefix l ''ERROR   |'' @
     concat (map (\<lambda>x. CHR 0x0A # x) (takeWhile (\<lambda>x. \<not> is_notice x) post))"

lemma error_line_cases:
  "is_error l \<Longrightarrow> error_line l st = (TrimPrefix l ''ERROR   |'', True)"
  "\<not> is_error l \<Longrightarrow> is_notice l \<Longrightarrow> error_line l st = (fst st, False)"
  "\<not> is_error l \<Longrightarrow> \<not> is_notice l \<Longrightarrow>
     error_line l st = (if snd st then fst st @ CHR 0x0A # l else fst st, snd st)"
  by (auto simp: error_line_def is_error_def is_notice_def split: prod.splits)

lemma fold_no_error:
  "\<forall>x \<in> set post. \<not> is_error x \<Longrightarrow> fold error_line post (t, False) = (t, False)"
proof (induction post)
  case (Cons l post)
  then show ?case
    by (cases "is_notice l") (simp_all add: error_line_cases)
qed simp

lemma fold_in_error:
  "\<forall>x \<in> set post. \<not> is_error x \<Longrightarrow>
   fst (fold error_line post (t, True)) =
     t @ concat (map (\<lambda>x. CHR 0x0A # x) (takeWhile (\<lambda>x. \<not> is_notice x) post))"
proof (induction post arbitrary: t)
  case (Cons l post)
  then show ?case
    by (cases "is_notice l") (simp_all add: error_line_cases fold_no_error)
qed simp

lemma fold_error_block:
  assumes "is_error l" "\<forall>x \<in> set post. \<not> is_error x"
  shows "fst (fold error_line (pre @ l # post) st) = error_block l post"
  using assms by (simp add: error_line_cases fold_in_error error_block_def)

lemma drain_err_fold: "drain_err errs st = fold error_line errs st"
  by (induction errs arbitrary: st) auto

lemma select_loop_fold:
  "select_loop ch outs errs st = Some (outs', errs', st') \<Longrightarrow>
   drain_err errs' st' = fold error_line errs st"
  by (induction ch outs errs st rule: select_loop.induct) (auto simp: drain_err_fold)

lemma select_loop_ends:
  "length outs + length errs < length ch \<Longrightarrow> select_loop ch outs errs st \<noteq> None"
  by (induction ch outs errs st rule: select_loop.induct) auto

lemma select_loop_stuck:
  "select_loop ch outs errs st = None \<Longrightarrow> length ch \<le> length outs + length errs"
  by (metis select_loop_ends not_less)

lemma processLogs_eq:
  "processLogs ch outs errs =
     (if select_loop ch outs errs ('''', False) = None then None
      else Some (TrimSpace (fst (fold error_line errs ('''', False)))))"
  by (auto simp: processLogs_def dest!: select_loop_fold split: option.splits)

subsection \<open>Properties\<close>

text \<open>C32: However the select takes the lines of the two pipes, as soon as its turns outnumber the
  lines it ends, and the error kept is the text of the last error line with the lines that belong to
  it, whatever of them was read in the loop or while draining.\<close>

theorem processLogs_last_error:
  assumes "length outs + length (pre @ l # post) < length ch"
    and "is_error l" "\<forall>x \<in> set post. \<not> is_error x"
  shows "processLogs ch outs (pre @ l # post) = Some (TrimSpace (error_block l post))"
  using select_loop_ends[OF assms(1)] fold_error_block[OF assms(2,3), of pre "('''', False)"]
  by (simp add: processLogs_eq del: fold.simps fold_append)

theorem processLogs_last_error_witness:
  "processLogs [False, True, False, False, True, True, True] [''x'']
     [''a'', ''ERROR   | one'', ''two'', ''INFO    | y''] = Some (TrimSpace (error_block ''ERROR   | one'' [''two'', ''INFO    | y'']))"
  using processLogs_last_error[of "[''x'']" "[''a'']" "''ERROR   | one''" "[''two'', ''INFO    | y'']"
      "[False, True, False, False, True, True, True]"]
  by (simp add: is_error_def HasPrefix_def)

text \<open>The exit of the process is reported as clean exactly when the wait has no error or when the
  agent had asked to kill it and it died of that; otherwise the report names the wait's error and
  the last error of its log, however the two pipes are read.\<close>

lemma watchEmulatorExit_reports:
  "(let errs = processChannel err; last = TrimSpace (fst (fold error_line errs ('''', False)))
    in case watchEmulatorExit ch out err killed werr e of
         None \<Rightarrow> length ch \<le> length (processChannel out) + length errs
       | Some None \<Rightarrow> werr = None \<or> (forceExitRequested e \<and> killed)
       | Some (Some r) \<Rightarrow> (\<exists>w. werr = Some w \<and> \<not> (forceExitRequested e \<and> killed) \<and>
           err_string r = ''emulator exited with: '' @ err_string w @ '', last error: '' @ last))"
  by (auto simp: watchEmulatorExit_def processLogs_eq final_error_def Let_def
      dest: select_loop_stuck split: option.splits)


text \<open>An emulator process is spawned only after the directories and both files are written, the
  configuration being the one made from the request, and \<open>Start\<close> returns an emulator exactly when the
  spawn was reached and succeeded; a failed step ends the start with its error.\<close>

lemma Start_order:
  "case Start os build_prop p req [] of
     (Ok e, tr) \<Rightarrow> (\<exists>cfg. createConfig build_prop (Some req) = Ok cfg \<and>
        tr = [MkdirAll ''/android/home/Custom.avd'' 420,
              WriteFile ''/android/home/Custom.ini'' (of_str ''path=/android/home/Custom.avd'') 420,
              SaveIni ''/android/home/Custom.avd/config.ini'' cfg, Spawn emulator_command emulator_env]) \<and>
        (\<forall>call \<in> set tr. os call = None) \<and>
        e = \<lparr>request = req, controller = None, pid = p, forceExitRequested = False\<rparr>
   | (Err err, tr) \<Rightarrow> (if tr \<noteq> [] \<and> os (last tr) = Some err then \<forall>call \<in> set (butlast tr). os call = None
        else createConfig build_prop (Some req) = Err err \<and> (\<forall>call \<in> set tr. os call = None)) \<and>
        (\<forall>call \<in> set (butlast tr). \<forall>a v. call \<noteq> Spawn a v)
   | (Panic _, tr) \<Rightarrow> False"
proof -
  have "createConfig build_prop (Some req) \<noteq> Panic q" for q
    by (cases build_prop) (auto simp: createConfig_def GetImageCpu_def Let_def split: option.splits)
  then show ?thesis
    by (cases "createConfig build_prop (Some req)")
      (auto simp: Start_def startEmulator_def os_do_def Let_def on_ok_def split: option.splits)
qed

subsection \<open>Frames\<close>

lemma frame_loop_size: "f \<in> set (frame_loop w h len evs) \<Longrightarrow>
    FrameWidth f = w \<and> FrameHeight f = h \<and> length (FrameData f) = len"
  by (induction evs) (auto simp: GetFrame_def split: sum.splits)

lemma unat_ucast_64: "unat (ucast (w :: u32) :: i64) = unat w"
proof -
  have "unat w < 2 ^ 32" using unsigned_less[of w, where ?'a = nat] by simp
  then have "unat w < 2 ^ 64" by simp
  then show ?thesis by (simp add: unsigned_ucast_eq take_bit_nat_eq_self unsigned_take_bit_eq)
qed

lemma memSize_small:
  assumes "unat w * unat h * 3 < 2 ^ 64"
  shows "unat (memSize w h) = unat w * unat h * 3"
proof -
  have "unat w * unat h < 2 ^ 64" using assms by simp
  then show ?thesis using assms by (simp add: memSize_def unat_word_ariths unat_ucast_64)
qed

lemma processDisplay_size:
  assumes "f \<in> set (processDisplay sys evs e)"
  shows "FrameWidth f = StartEmulatorRequest_LcdWidth (request e) \<and>
    FrameHeight f = StartEmulatorRequest_LcdHeight (request e) \<and>
    length (FrameData f) = unat (memSize (FrameWidth f) (FrameHeight f))"
  using assms
  by (auto simp: processDisplay_def StreamDisplay_def shm_do_def on_ok_def Let_def
      split: option.splits res.splits dest!: frame_loop_size)

end
