(* ===== verification/Broadcaster.thy ===== *)
theory Broadcaster
  imports Machine "HOL-Library.Sublist"
begin

text \<open>
  \<^verbatim>\<open>agent/util/broadcaster/broadcast.go\<close>: the latest value, with a 64-bit generation that
  each listener compares with the one it saw last. Everything happens under the mutex, except that
  \<^verbatim>\<open>Wait\<close> gives it up while it sleeps on the condition, so a wait has two critical sections,
  \<open>wait_enter\<close> and \<open>wait_finish\<close>, with others possibly in between. \<open>b_step\<close> interleaves the
  critical sections of any number of listeners with broadcasts and the close.
\<close>

subsection \<open>The state and the operations\<close>

record 'v broadcaster =
  generation :: u64
  bvalue :: 'v
  bclosed :: bool

definition Closed :: goerr where
  "Closed = NewError ''broadcaster closed''"

definition New :: "'v \<Rightarrow> 'v broadcaster" where
  "New zero = \<lparr>generation = 0, bvalue = zero, bclosed = False\<rparr>"

definition Broadcast :: "'v \<Rightarrow> 'v broadcaster \<Rightarrow> 'v broadcaster" where
  "Broadcast v b = b\<lparr>generation := generation b + 1, bvalue := v\<rparr>"

definition CloseB :: "'v broadcaster \<Rightarrow> 'v broadcaster" where
  "CloseB b = b\<lparr>bclosed := True\<rparr>"

text \<open>The part of \<^verbatim>\<open>Wait\<close> after the sleep: the result, and the new last generation.\<close>

definition wait_finish :: "'v broadcaster \<Rightarrow> u64 \<Rightarrow> 'v res \<times> u64" where
  "wait_finish b lastGen =
     (if generation b > lastGen then (Ok (bvalue b), generation b)
      else if bclosed b then (Err Closed, lastGen)
      else (Panic InconsistentState, lastGen))"

text \<open>The part before it; \<open>None\<close> is going to sleep.\<close>

definition wait_enter :: "'v broadcaster \<Rightarrow> u64 \<Rightarrow> ('v res \<times> u64) option" where
  "wait_enter b lastGen =
     (if bclosed b then Some (Err Closed, lastGen)
      else if generation b \<le> lastGen then None
      else Some (wait_finish b lastGen))"

subsection \<open>Listeners\<close>

datatype phase = Idle | Sleeping | Woken

record 'v lstate =
  lastGeneration :: u64
  lphase :: phase
  results :: "'v res list"

definition Listener :: "'v lstate" where
  "Listener = \<lparr>lastGeneration = 0, lphase = Idle, results = []\<rparr>"

record 'v bworld =
  bc :: "'v broadcaster"
  lis :: "nat \<Rightarrow> 'v lstate"

datatype 'v bevent = EvBroadcast 'v | EvClose | EvWait nat | EvResume nat

definition wake :: "'v lstate \<Rightarrow> 'v lstate" where
  "wake l = (if lphase l = Sleeping then l\<lparr>lphase := Woken\<rparr> else l)"

definition returned :: "'v res \<times> u64 \<Rightarrow> 'v lstate \<Rightarrow> 'v lstate" where
  "returned r l = l\<lparr>lastGeneration := snd r, lphase := Idle, results := results l @ [fst r]\<rparr>"

fun b_step :: "'v bevent \<Rightarrow> 'v bworld \<Rightarrow> 'v bworld option" where
  "b_step (EvBroadcast v) w = Some \<lparr>bc = Broadcast v (bc w), lis = wake \<circ> lis w\<rparr>"
| "b_step EvClose w = Some \<lparr>bc = CloseB (bc w), lis = wake \<circ> lis w\<rparr>"
| "b_step (EvWait i) w =
     (if lphase (lis w i) \<noteq> Idle then None
      else case wait_enter (bc w) (lastGeneration (lis w i)) of
        None \<Rightarrow> Some (w\<lparr>lis := (lis w)(i := (lis w i)\<lparr>lphase := Sleeping\<rparr>)\<rparr>)
      | Some r \<Rightarrow> Some (w\<lparr>lis := (lis w)(i := returned r (lis w i))\<rparr>))"
| "b_step (EvResume i) w =
     (if lphase (lis w i) \<noteq> Woken then None
      else Some (w\<lparr>lis := (lis w)(i :=
             returned (wait_finish (bc w) (lastGeneration (lis w i))) (lis w i))\<rparr>))"

definition b_start :: "'v \<Rightarrow> 'v bworld" where
  "b_start zero = \<lparr>bc = New zero, lis = (\<lambda>_. Listener)\<rparr>"

subsection \<open>What listeners have seen\<close>

fun broadcasts :: "'v bevent list \<Rightarrow> 'v list" where
  "broadcasts [] = []"
| "broadcasts (EvBroadcast v # es) = v # broadcasts es"
| "broadcasts (_ # es) = broadcasts es"

lemma broadcasts_append [simp]: "broadcasts (es @ fs) = broadcasts es @ broadcasts fs"
  by (induction es rule: broadcasts.induct) auto

fun oks :: "'v res list \<Rightarrow> 'v list" where
  "oks [] = []"
| "oks (Ok v # rs) = v # oks rs"
| "oks (_ # rs) = oks rs"

lemma oks_append [simp]: "oks (rs @ ts) = oks rs @ oks ts"
  by (induction rs rule: oks.induct) auto

definition gen_bound :: "'v bevent list \<Rightarrow> bool" where
  "gen_bound es \<longleftrightarrow> length (broadcasts es) < 2 ^ 64"

text \<open>
  The invariant of one listener: it has seen a sub-sequence of the values up to its last
  generation, it has not panicked, and once woken there is something to return.
\<close>

definition lis_inv :: "'v list \<Rightarrow> 'v broadcaster \<Rightarrow> 'v lstate \<Rightarrow> bool" where
  "lis_inv vs b l \<longleftrightarrow>
     unat (lastGeneration l) \<le> length vs \<and>
     subseq (oks (results l)) (take (unat (lastGeneration l)) vs) \<and>
     (\<forall>r \<in> set (results l). \<not> is_panic r) \<and>
     (lphase l = Sleeping \<longrightarrow> \<not> bclosed b \<and> unat (lastGeneration l) = length vs) \<and>
     (lphase l = Woken \<longrightarrow> bclosed b \<or> unat (lastGeneration l) < length vs)"

definition b_inv :: "'v \<Rightarrow> 'v bevent list \<Rightarrow> 'v bworld \<Rightarrow> bool" where
  "b_inv zero es w \<longleftrightarrow>
     unat (generation (bc w)) = length (broadcasts es) \<and>
     bvalue (bc w) = last (zero # broadcasts es) \<and>
     (bclosed (bc w) \<longleftrightarrow> EvClose \<in> set es) \<and>
     (\<forall>i. lis_inv (broadcasts es) (bc w) (lis w i))"

subsection \<open>The invariant holds\<close>

lemma subseq_snoc_last:
  assumes "subseq xs (take n vs)" "n < length vs"
  shows "subseq (xs @ [last vs]) vs"
proof -
  have "subseq [last vs] (drop n vs)"
    using assms(2) by (metis drop_eq_Nil last_drop last_in_set leD subseq_singleton_left)
  then have "subseq (xs @ [last vs]) (take n vs @ drop n vs)"
    using assms(1) by (rule list_emb_append_mono[rotated])
  then show ?thesis by simp
qed

lemma lis_inv_returned:
  assumes "lis_inv vs b l" "unat (generation b) = length vs" "bvalue b = last (zero # vs)"
    and "generation b > lastGeneration l \<or> bclosed b"
  shows "lis_inv vs b (returned (wait_finish b (lastGeneration l)) l)"
proof (cases "generation b > lastGeneration l")
  case True
  then have "unat (lastGeneration l) < length vs"
    using assms(2) by (simp add: word_less_nat_alt)
  with True assms subseq_snoc_last[of "oks (results l)" "unat (lastGeneration l)" vs] show ?thesis
    by (auto simp: lis_inv_def returned_def wait_finish_def)
next
  case False
  with assms show ?thesis
    by (auto simp: lis_inv_def returned_def wait_finish_def)
qed

lemma lis_inv_wake:
  assumes "lis_inv vs b l"
  shows "lis_inv vs (CloseB b) (wake l)" "lis_inv (vs @ [v]) (Broadcast v b) (wake l)"
  using assms by (auto simp: lis_inv_def wake_def CloseB_def Broadcast_def intro: subseq_append_iff)

lemma lis_inv_enter:
  assumes "lis_inv vs b l" "unat (generation b) = length vs" "bvalue b = last (zero # vs)" "lphase l = Idle"
  shows "case wait_enter b (lastGeneration l) of
      None \<Rightarrow> lis_inv vs b (l\<lparr>lphase := Sleeping\<rparr>)
    | Some r \<Rightarrow> lis_inv vs b (returned r l)"
proof (cases "bclosed b")
  case True
  then show ?thesis
    using assms by (auto simp: wait_enter_def lis_inv_def returned_def)
next
  case False
  show ?thesis
  proof (cases "generation b \<le> lastGeneration l")
    case True
    with False assms show ?thesis
      by (auto simp: wait_enter_def lis_inv_def word_le_nat_alt)
  next
    case new: False
    with False lis_inv_returned[OF assms(1-3)] show ?thesis
      by (auto simp: wait_enter_def not_le leD)
  qed
qed

lemma b_inv_step:
  assumes "gen_bound (es @ [e])" "b_inv zero es w" "b_step e w = Some w'"
  shows "b_inv zero (es @ [e]) w'"
proof (cases e)
  case (EvBroadcast v)
  have "length (broadcasts es) + 1 < 2 ^ 64"
    using assms(1) EvBroadcast by (simp add: gen_bound_def)
  then have "unat (generation (bc w) + 1) = length (broadcasts es) + 1"
    using assms(2) by (simp add: b_inv_def unat_word_ariths)
  then show ?thesis
    using assms EvBroadcast by (auto simp: b_inv_def lis_inv_wake) (simp_all add: Broadcast_def)
next
  case EvClose
  then show ?thesis
    using assms by (auto simp: b_inv_def lis_inv_wake) (simp_all add: CloseB_def)
next
  case (EvWait i)
  then show ?thesis
    using assms lis_inv_enter[of "broadcasts es" "bc w" "lis w i" zero]
    by (auto simp: b_inv_def split: if_splits option.splits)
next
  case (EvResume i)
  then have "lphase (lis w i) = Woken" "w' = w\<lparr>lis := (lis w)(i :=
      returned (wait_finish (bc w) (lastGeneration (lis w i))) (lis w i))\<rparr>"
    using assms(3) by (auto split: if_splits)
  moreover have "generation (bc w) > lastGeneration (lis w i) \<or> bclosed (bc w)"
    using assms(2) \<open>lphase (lis w i) = Woken\<close>
    by (auto simp: b_inv_def lis_inv_def word_less_nat_alt)
  ultimately show ?thesis
    using assms(2) EvResume lis_inv_returned[of "broadcasts es" "bc w" "lis w i" zero]
    by (auto simp: b_inv_def)
qed

interpretation bcast: machine b_step "b_start zero" gen_bound "b_inv zero" for zero
proof
  show "gen_bound (h @ [e]) \<Longrightarrow> gen_bound h" for h :: "'a bevent list" and e
    by (simp add: gen_bound_def)
  show "b_inv zero [] (b_start zero)"
    by (simp add: b_inv_def b_start_def New_def lis_inv_def Listener_def)
qed (rule b_inv_step)

subsection \<open>Properties\<close>

text \<open>C20: In every interleaving of broadcasts, listeners and the close, with fewer than
  \<open>2 ^ 64\<close> broadcasts, no listener panics, each listener receives a sub-sequence of the broadcast
  values (in order, none twice), and a value it receives is the latest one at that moment.\<close>

theorem broadcast_delivery:
  assumes "gen_bound es" "exec b_step es (b_start zero) = Some w"
  shows "(\<forall>i. (\<forall>r \<in> set (results (lis w i)). \<not> is_panic r) \<and> subseq (oks (results (lis w i))) (broadcasts es)) \<and>
    (\<forall>e i w' v. b_step e w = Some w' \<and> results (lis w' i) = results (lis w i) @ [Ok v] \<longrightarrow>
       broadcasts es \<noteq> [] \<and> v = last (broadcasts es))"
proof -
  have inv: "b_inv zero es w" by (rule bcast.inv_exec[OF assms])
  have li: "lis_inv (broadcasts es) (bc w) (lis w i)" for i using inv by (simp add: b_inv_def)
  have "subseq (oks (results (lis w i))) (broadcasts es)" for i
    using li[of i] subseq_order.trans[OF _ prefix_imp_subseq[OF take_is_prefix]]
    by (auto simp: lis_inv_def)
  moreover have "broadcasts es \<noteq> [] \<and> v = last (broadcasts es)"
    if "b_step e w = Some w'" "results (lis w' i) = results (lis w i) @ [Ok v]" for e i w' v
    using that inv
    by (cases e) (auto simp: wake_def returned_def wait_finish_def wait_enter_def b_inv_def
        word_less_nat_alt split: if_splits option.splits)
  ultimately show ?thesis using li by (auto simp: lis_inv_def)
qed

theorem broadcast_delivery_witness:
  "\<exists>w. exec b_step [EvWait 0, EvBroadcast 7, EvBroadcast 8, EvResume 0] (b_start (0::nat)) = Some w
     \<and> oks (results (lis w 0)) = [8] \<and> subseq (oks (results (lis w 0))) [7, 8]"
proof -
  let ?es = "[EvWait 0, EvBroadcast 7, EvBroadcast 8, EvResume 0] :: nat bevent list"
  obtain w where w: "exec b_step ?es (b_start 0) = Some w" "oks (results (lis w 0)) = [8]"
    by (simp add: b_start_def New_def Listener_def wait_enter_def wait_finish_def Broadcast_def
        wake_def returned_def)
  then show ?thesis
    using broadcast_delivery[OF _ w(1)] by (auto simp: gen_bound_def)
qed

text \<open>C21: A listener that waits while a value is broadcast, or that asks after it on an open
  broadcaster, returns that value: no wake-up is lost and no unseen value makes it sleep.\<close>

theorem broadcast_wakes:
  assumes "gen_bound (es @ [EvBroadcast v])" "exec b_step es (b_start zero) = Some w"
    and "lphase (lis w i) \<noteq> Idle \<or> EvClose \<notin> set es"
  shows "\<exists>w'. exec b_step [EvBroadcast v, if lphase (lis w i) = Idle then EvWait i else EvResume i] w = Some w'
    \<and> results (lis w' i) = results (lis w i) @ [Ok v]"
proof -
  have b: "gen_bound es" using assms(1) by (rule bcast.bound_prefix)
  then have "b_inv zero es w" using assms(2) by (rule bcast.inv_exec)
  then have inv: "unat (generation (bc w)) = length (broadcasts es)"
    "lis_inv (broadcasts es) (bc w) (lis w i)" "bclosed (bc w) \<longleftrightarrow> EvClose \<in> set es"
    by (simp_all add: b_inv_def)
  have "unat (generation (bc w) + 1) = length (broadcasts es) + 1"
    using assms(1) inv(1) by (simp add: gen_bound_def unat_word_ariths)
  with inv(2) have "generation (bc w) + 1 > lastGeneration (lis w i)"
    by (simp add: lis_inv_def word_less_nat_alt)
  then show ?thesis
    using assms(3) inv(3)
    by (cases "lphase (lis w i)")
      (auto simp: Broadcast_def wake_def wait_enter_def wait_finish_def returned_def not_le[symmetric])
qed

theorem broadcast_wakes_witness:
  "\<exists>w'. exec b_step [EvBroadcast 5, EvWait 3] (b_start (0::nat)) = Some w'
    \<and> results (lis w' 3) = [Ok 5]"
  using broadcast_wakes[of "[]" "5::nat" 0 "b_start 0" 3]
  by (simp add: gen_bound_def b_start_def Listener_def)

lemma exec_many_broadcasts:
  "exec b_step (replicate n (EvBroadcast v)) w =
     Some (if n = 0 then w else
       \<lparr>bc = (bc w)\<lparr>generation := generation (bc w) + word_of_nat n, bvalue := v\<rparr>, lis = wake \<circ> lis w\<rparr>)"
  by (induction n arbitrary: w) (auto simp: Broadcast_def wake_def comp_def add_ac)

lemma broadcasts_replicate [simp]: "broadcasts (replicate n (EvBroadcast v)) = replicate n v"
  by (induction n) auto

lemma max_word_pos: "(0 :: u64) < - 1"
  by (simp flip: word_neq_0_conv)

lemma wait_after_many:
  assumes "n \<noteq> 0" "word_of_nat n = (- 1 :: u64)"
  shows "\<exists>w. exec b_step (replicate n (EvBroadcast v) @ [EvWait 0, EvWait 0, EvBroadcast v, EvResume 0])
     (b_start zero) = Some w \<and> Panic InconsistentState \<in> set (results (lis w 0))"
  using assms
  by (simp add: exec_append exec_many_broadcasts b_start_def New_def Listener_def wait_enter_def
      wait_finish_def Broadcast_def wake_def returned_def max_word_pos)

text \<open>The bound is exact: with the broadcast number \<open>2 ^ 64\<close> the generation wraps to zero, and
  a listener that was waiting for it, up to date, panics.\<close>

lemma broadcast_wraps:
  "\<exists>es w. exec b_step es (b_start zero) = Some w \<and> length (broadcasts es) = 2 ^ 64 \<and>
     Panic InconsistentState \<in> set (results (lis w 0))"
proof -
  define n :: nat where "n = 2 ^ 64 - 1"
  have "word_of_nat n = (- 1 :: u64)" "n \<noteq> 0" "n + 1 = 2 ^ 64"
    by (simp_all add: n_def)
  with wait_after_many[of n undefined zero] show ?thesis
    by (intro exI[of _ "replicate n (EvBroadcast undefined) @ [EvWait 0, EvWait 0, EvBroadcast undefined, EvResume 0]"])
      auto
qed

end
