(* ===== verification/Server.thy ===== *)
theory Server
  imports Emulator Broadcaster
begin

text \<open>
  The agent's server: its state (\<^verbatim>\<open>agent/server/server.go\<close>) and the handlers of the calls that
  change it (\<^verbatim>\<open>agent/server/controller.go\<close>). The handlers and the reports of the emulators'
  goroutines run under the server's mutex, so an execution is a sequence of them (\<open>s_step\<close>). An
  emulator goes on living after the server has dropped its pointer, so the emulators are kept in a
  list of their own, with the ghost record \<open>life\<close> of what each has reported.
\<close>

subsection \<open>server.go\<close>

datatype State = StateError | StateStopped | StateStarting | StateRunning

record server =
  state :: State
  stateError :: "goerr option"
  emu :: "nat option"
  emus :: "emulator list"
  stateBroadcaster :: "AgentState option broadcaster"
  frameBroadcaster :: "Frame option broadcaster"

definition NewServer :: server where
  "NewServer = \<lparr>state = StateStopped, stateError = None, emu = None, emus = [],
     stateBroadcaster = Broadcaster.New None, frameBroadcaster = Broadcaster.New None\<rparr>"

text \<open>The message for a state; an error state without its error is a nil dereference.\<close>

definition agent_state :: "State \<Rightarrow> goerr option \<Rightarrow> AgentState res" where
  "agent_state st err = (case st of
     StateError \<Rightarrow>
      (case err of
         None \<Rightarrow> Panic NilDereference
       | Some e \<Rightarrow> Ok (AgentState_zero\<lparr>AgentState_EmulatorState := AgentState_ERROR,
                        AgentState_EmulatorError := Some (err_string e)\<rparr>))
   | StateStopped \<Rightarrow> Ok (AgentState_zero\<lparr>AgentState_EmulatorState := AgentState_OFF\<rparr>)
   | StateStarting \<Rightarrow> Ok (AgentState_zero\<lparr>AgentState_EmulatorState := AgentState_STARTING\<rparr>)
   | StateRunning \<Rightarrow> Ok (AgentState_zero\<lparr>AgentState_EmulatorState := AgentState_RUNNING\<rparr>))"

definition broadcastState :: "server \<Rightarrow> unit res \<times> server" where
  "broadcastState s =
     on_ok (agent_state (state s) (stateError s), s) (\<lambda>s. s) (\<lambda>newState s.
       (Ok (), s\<lparr>stateBroadcaster := Broadcast (Some newState) (stateBroadcaster s)\<rparr>))"

definition heartbeat :: "server \<Rightarrow> unit res \<times> server" where
  "heartbeat s = broadcastState s"

text \<open>The loop of the heartbeat's goroutine: the ticks of the timer, and the channel \<^verbatim>\<open>done\<close> that nothing signals yet.\<close>

datatype ticker_event = Tick | Done

fun startHeartbeat :: "ticker_event list \<Rightarrow> server \<Rightarrow> unit res \<times> server" where
  "startHeartbeat [] s = (Ok (), s)"
| "startHeartbeat (Done # es) s = (Ok (), s)"
| "startHeartbeat (Tick # es) s = on_ok (heartbeat s) (\<lambda>s. s) (\<lambda>_ s. startHeartbeat es s)"

definition OnEmulatorExit :: "goerr option \<Rightarrow> server \<Rightarrow> unit res \<times> server" where
  "OnEmulatorExit err s = broadcastState
     (if err \<noteq> None then s\<lparr>state := StateError, stateError := err\<rparr>
      else s\<lparr>state := StateStopped, stateError := None\<rparr>)"

definition OnEmulatorStarted :: "server \<Rightarrow> unit res \<times> server" where
  "OnEmulatorStarted s = broadcastState (s\<lparr>state := StateRunning\<rparr>)"

definition OnEmulatorFrame :: "Frame \<Rightarrow> server \<Rightarrow> server" where
  "OnEmulatorFrame frame s = s\<lparr>frameBroadcaster := Broadcast (Some frame) (frameBroadcaster s)\<rparr>"

subsection \<open>controller.go: the handlers that change the state\<close>

definition StartEmulator ::
  "(oscall \<Rightarrow> goerr option) \<Rightarrow> goerr + (string \<rightharpoonup> string) \<Rightarrow> int \<Rightarrow> StartEmulatorRequest \<Rightarrow>
   server \<Rightarrow> unit res \<times> server" where
  "StartEmulator os build_prop p req s =
     (if state s \<noteq> StateStopped \<and> state s \<noteq> StateError
      then (Err (GrpcStatus FailedPrecondition ''emulator already running''), s)
      else case fst (Emulator.Start os build_prop p req []) of
        Err e \<Rightarrow> (Ok (), s\<lparr>state := StateError, emu := None, stateError := Some e\<rparr>)
      | Panic q \<Rightarrow> (Panic q, s)
      | Ok em \<Rightarrow>
          broadcastState (s\<lparr>state := StateStarting, emu := Some (length (emus s)),
            emus := emus s @ [em], stateError := None\<rparr>))"

text \<open>A method of the emulator the server points to, with what it asks of the emulator.\<close>

definition on_emu ::
  "(emulator \<Rightarrow> (unit res \<times> emucall list) \<times> emulator) \<Rightarrow> server \<Rightarrow> (unit res \<times> emucall list) \<times> server" where
  "on_emu m s = (case emu s of
     Some i \<Rightarrow>
       (if i < length (emus s)
        then (let r = m (emus s ! i) in (fst r, s\<lparr>emus := (emus s)[i := snd r]\<rparr>))
        else ((Panic NilDereference, []), s))
   | None \<Rightarrow> ((Panic NilDereference, []), s))"

definition StopEmulator ::
  "(emucall \<Rightarrow> goerr option) \<Rightarrow> StopEmulatorRequest \<Rightarrow> server \<Rightarrow> (unit res \<times> emucall list) \<times> server" where
  "StopEmulator svc req s =
     (if state s \<noteq> StateRunning
      then ((Err (GrpcStatus FailedPrecondition ''emulator is not running''), []), s)
      else case on_emu (Emulator.Stop svc req) s of
        ((Err e, calls), s) \<Rightarrow>
          ((Ok (), calls), s\<lparr>state := StateError, emu := None, stateError := Some e\<rparr>)
      | r \<Rightarrow> r)"

definition SendInput ::
  "(emucall \<Rightarrow> goerr option) \<Rightarrow> InputRequest option \<Rightarrow> server \<Rightarrow> (unit res \<times> emucall list) \<times> server" where
  "SendInput svc req s = (case req of
     None \<Rightarrow> ((Err (GrpcStatus InvalidArgument ''no request given''), []), s)
   | Some r \<Rightarrow>
       (if state s = StateRunning \<or> state s = StateStarting
        then on_emu (\<lambda>e. (ProcessInput svc r e, e)) s
        else ((Err (GrpcStatus FailedPrecondition ''emulator not running''), []), s)))"

text \<open>The guard of the handlers that need a running emulator and leave the state alone.\<close>

definition require_running :: "server \<Rightarrow> goerr option" where
  "require_running s =
     (if state s \<noteq> StateRunning then Some (GrpcStatus FailedPrecondition ''emulator not running'') else None)"

subsection \<open>Executions\<close>

record life =
  connected :: bool
  started :: bool
  exited :: bool

record sworld =
  srv :: server
  lives :: "life list"
  crash :: "gopanic option"

datatype sevent =
    Heartbeat
  | RpcStart "oscall \<Rightarrow> goerr option" "goerr + (string \<rightharpoonup> string)" int StartEmulatorRequest
  | RpcStop "emucall \<Rightarrow> goerr option" StopEmulatorRequest
  | RpcInput "emucall \<Rightarrow> goerr option" "InputRequest option"
  | Connected nat Controller
  | Started nat
  | Exited nat "goerr option"
  | FrameIn nat Frame
  | ConnectDies nat gopanic
  | OtherDies gopanic

text \<open>
  A panic of a handler or a goroutine ends the process. \<open>ConnectDies\<close> is one of the goroutine that connects
  to emulator \<open>i\<close>, a fatal error among them, \<open>OtherDies\<close> one of the calls that do not touch this state: the
  streams, the shells and the files, whose panics are the subject of their own theories.
\<close>

definition finish :: "unit res \<times> server \<Rightarrow> sworld \<Rightarrow> sworld" where
  "finish r w = w\<lparr>srv := snd r, crash := (case fst r of Panic p \<Rightarrow> Some p | _ \<Rightarrow> None)\<rparr>"

definition new_life :: life where
  "new_life = \<lparr>connected = False, started = False, exited = False\<rparr>"

fun s_step :: "sevent \<Rightarrow> sworld \<Rightarrow> sworld option" where
  "s_step Heartbeat w = (if crash w \<noteq> None then None else Some (finish (heartbeat (srv w)) w))"
| "s_step (RpcStart os bp p req) w = (if crash w \<noteq> None then None else
     (let r = StartEmulator os bp p req (srv w);
          w' = finish r w
      in Some (if length (emus (srv w')) = length (lives w) then w'
               else w'\<lparr>lives := lives w @ [new_life]\<rparr>)))"
| "s_step (RpcStop svc req) w = (if crash w \<noteq> None then None else
     (case StopEmulator svc req (srv w) of ((r, _), s) \<Rightarrow> Some (finish (r, s) w)))"
| "s_step (RpcInput svc req) w = (if crash w \<noteq> None then None else
     (case SendInput svc req (srv w) of ((r, _), s) \<Rightarrow> Some (finish (r, s) w)))"
| "s_step (Connected i con) w =
     (if crash w \<noteq> None \<or> \<not> i < length (lives w) \<or> connected (lives w ! i) then None
      else Some (w\<lparr>srv := (srv w)\<lparr>emus := (emus (srv w))[i := (emus (srv w) ! i)\<lparr>controller := Some con\<rparr>]\<rparr>,
                   lives := (lives w)[i := (lives w ! i)\<lparr>connected := True\<rparr>]\<rparr>))"
| "s_step (Started i) w =
     (if crash w \<noteq> None \<or> \<not> i < length (lives w) \<or> \<not> connected (lives w ! i) \<or> started (lives w ! i) then None
      else Some ((finish (OnEmulatorStarted (srv w)) w)
                   \<lparr>lives := (lives w)[i := (lives w ! i)\<lparr>started := True\<rparr>]\<rparr>))"
| "s_step (Exited i err) w =
     (if crash w \<noteq> None \<or> \<not> i < length (lives w) \<or> exited (lives w ! i) then None
      else Some ((finish (OnEmulatorExit err (srv w)) w)
                   \<lparr>lives := (lives w)[i := (lives w ! i)\<lparr>exited := True\<rparr>]\<rparr>))"
| "s_step (FrameIn i f) w =
     (if crash w \<noteq> None \<or> \<not> i < length (lives w) \<or> \<not> connected (lives w ! i) then None
      else Some (w\<lparr>srv := OnEmulatorFrame f (srv w)\<rparr>))"
| "s_step (ConnectDies i q) w =
     (if crash w \<noteq> None \<or> \<not> i < length (lives w) \<or> started (lives w ! i) then None
      else Some (w\<lparr>crash := Some q\<rparr>))"
| "s_step (OtherDies q) w = (if crash w \<noteq> None then None else Some (w\<lparr>crash := Some q\<rparr>))"

text \<open>The server starts by broadcasting its state.\<close>

definition s_start :: sworld where
  "s_start = \<lparr>srv = snd (broadcastState NewServer), lives = [], crash = None\<rparr>"

subsection \<open>What every execution keeps\<close>

lemma agent_state_Ok: "st \<noteq> StateError \<Longrightarrow> \<exists>m. agent_state st e = Ok m"
  by (cases st) (auto simp: agent_state_def)

lemma agent_state_Error: "\<exists>m. agent_state st (Some e) = Ok m"
  by (cases st) (auto simp: agent_state_def)

definition s_inv :: "sworld \<Rightarrow> bool" where
  "s_inv w \<longleftrightarrow>
     length (lives w) = length (emus (srv w)) \<and>
     (state (srv w) = StateError \<longrightarrow> stateError (srv w) \<noteq> None) \<and>
     (\<forall>i. emu (srv w) = Some i \<longrightarrow> i < length (emus (srv w))) \<and>
     (state (srv w) = StateStarting \<longrightarrow> emu (srv w) \<noteq> None) \<and>
     (\<forall>i < length (lives w). (controller (emus (srv w) ! i) \<noteq> None \<longleftrightarrow> connected (lives w ! i)) \<and>
        (started (lives w ! i) \<longrightarrow> connected (lives w ! i)))"

lemma broadcastState_res:
  "state s = StateError \<longrightarrow> stateError s \<noteq> None \<Longrightarrow>
   \<exists>m. agent_state (state s) (stateError s) = Ok m \<and>
     broadcastState s = (Ok (), s\<lparr>stateBroadcaster := Broadcast (Some m) (stateBroadcaster s)\<rparr>)"
  by (cases "state s") (auto simp: broadcastState_def agent_state_def)

lemmas server_ops = heartbeat_def OnEmulatorExit_def OnEmulatorStarted_def OnEmulatorFrame_def
  StartEmulator_def StopEmulator_def SendInput_def on_emu_def finish_def

lemma Start_fields:
  "Emulator.Start os bp p req tr = (Ok e, tr') \<Longrightarrow> controller e = None \<and> request e = req"
  by (auto simp: Emulator.Start_def on_ok_eq_Ok)

lemma Start_no_panic: "Emulator.Start os bp p req tr \<noteq> (Panic q, tr')"
proof -
  have "createConfig bp r \<noteq> Panic q" for q r
    by (cases bp) (auto simp: createConfig_def GetImageCpu_def Let_def split: option.splits)
  then show ?thesis
    by (cases "createConfig bp (Some req)")
      (auto simp: Emulator.Start_def startEmulator_def os_do_def Let_def on_ok_def split: option.splits)
qed

lemma Stop_fields [simp]:
  "controller (snd (Emulator.Stop svc req e)) = controller e"
  by (simp add: Stop_def)

lemma on_emu_keeps:
  assumes "\<And>e. controller (snd (m e)) = controller e"
  shows "\<exists>es. snd (on_emu m s) = s\<lparr>emus := es\<rparr> \<and> length es = length (emus s) \<and>
     (\<forall>i < length es. controller (es ! i) = controller (emus s ! i))"
proof (cases "\<exists>i. emu s = Some i \<and> i < length (emus s)")
  case True
  then obtain i where i: "emu s = Some i" "i < length (emus s)" by blast
  show ?thesis
    by (rule exI[of _ "(emus s)[i := snd (m (emus s ! i))]"])
      (simp add: on_emu_def Let_def i assms nth_list_update)
next
  case False
  then have "snd (on_emu m s) = s" by (auto simp: on_emu_def split: option.splits)
  then show ?thesis by (intro exI[of _ "emus s"]) simp
qed

lemma finish_sel [simp]:
  "srv (finish r w) = snd r" "lives (finish r w) = lives w"
  by (simp_all add: finish_def)

lemma s_inv_broadcast:
  assumes "s_inv w" "state s' = StateError \<longrightarrow> stateError s' \<noteq> None"
    and "emus s' = emus (srv w)" "emu s' = emu (srv w)" "state s' \<noteq> StateStarting"
  shows "s_inv (finish (broadcastState s') w)"
proof -
  obtain m where "broadcastState s' = (Ok (), s'\<lparr>stateBroadcaster := Broadcast (Some m) (stateBroadcaster s')\<rparr>)"
    using broadcastState_res[OF assms(2)] by blast
  then have "srv (finish (broadcastState s') w) = s'\<lparr>stateBroadcaster := Broadcast (Some m) (stateBroadcaster s')\<rparr>"
    by simp
  with assms show ?thesis unfolding s_inv_def by simp
qed

lemma StopEmulator_state:
  "\<exists>es. length es = length (emus s) \<and> (\<forall>i < length es. controller (es ! i) = controller (emus s ! i)) \<and>
     (snd (StopEmulator svc req s) = s\<lparr>emus := es\<rparr> \<or>
      (state s = StateRunning \<and>
       (\<exists>e. snd (StopEmulator svc req s) = s\<lparr>emus := es, state := StateError, emu := None, stateError := Some e\<rparr>)))"
proof (cases "state s = StateRunning")
  case True
  obtain es where es: "snd (on_emu (Emulator.Stop svc req) s) = s\<lparr>emus := es\<rparr>" "length es = length (emus s)"
    "\<forall>i < length es. controller (es ! i) = controller (emus s ! i)"
    using on_emu_keeps[of "Emulator.Stop svc req" s] by auto
  show ?thesis
  proof (cases "fst (fst (on_emu (Emulator.Stop svc req) s))")
    case (Err e)
    then have "snd (StopEmulator svc req s) = s\<lparr>emus := es, state := StateError, emu := None, stateError := Some e\<rparr>"
      using True es(1) by (auto simp: StopEmulator_def split: prod.splits)
    with es True show ?thesis by blast
  next
    case (Ok u)
    then have "snd (StopEmulator svc req s) = s\<lparr>emus := es\<rparr>"
      using True es(1) by (auto simp: StopEmulator_def split: prod.splits)
    with es show ?thesis by blast
  next
    case (Panic p)
    then have "snd (StopEmulator svc req s) = s\<lparr>emus := es\<rparr>"
      using True es(1) by (auto simp: StopEmulator_def split: prod.splits)
    with es show ?thesis by blast
  qed
next
  case False
  then show ?thesis by (intro exI[of _ "emus s"]) (simp add: StopEmulator_def)
qed

lemma SendInput_state: "snd (SendInput svc req s) = s"
proof (cases "\<exists>i. emu s = Some i \<and> i < length (emus s)")
  case True
  then show ?thesis by (auto simp: SendInput_def on_emu_def Let_def split: option.splits)
next
  case False
  then show ?thesis by (auto simp: SendInput_def on_emu_def split: option.splits)
qed

text \<open>The outcomes of a start: refused, failed, or a new emulator.\<close>

lemma StartEmulator_cases:
  obtains (refused) e where "StartEmulator os bp p req s = (Err e, s)" "state s = StateStarting \<or> state s = StateRunning"
  | (failed) e where "StartEmulator os bp p req s = (Ok (), s\<lparr>state := StateError, emu := None, stateError := Some e\<rparr>)"
      "state s = StateStopped \<or> state s = StateError" "fst (Emulator.Start os bp p req []) = Err e"
  | (made) em m where "StartEmulator os bp p req s = (Ok (), s\<lparr>state := StateStarting, emu := Some (length (emus s)),
            emus := emus s @ [em], stateError := None, stateBroadcaster := Broadcast (Some m) (stateBroadcaster s)\<rparr>)"
      "controller em = None" "state s = StateStopped \<or> state s = StateError" "agent_state StateStarting None = Ok m"
      "fst (Emulator.Start os bp p req []) = Ok em"
proof (cases "state s = StateStarting \<or> state s = StateRunning")
  case True
  then show ?thesis using refused by (auto simp: StartEmulator_def)
next
  case False
  then have st: "state s = StateStopped \<or> state s = StateError" by (cases "state s") auto
  show ?thesis
  proof (cases "Emulator.Start os bp p req []" rule: res_pair_cases)
    case (Ok em tr)
    let ?s = "s\<lparr>state := StateStarting, emu := Some (length (emus s)), emus := emus s @ [em], stateError := None\<rparr>"
    obtain m where m: "agent_state StateStarting None = Ok m"
      "broadcastState ?s = (Ok (), ?s\<lparr>stateBroadcaster := Broadcast (Some m) (stateBroadcaster ?s)\<rparr>)"
      using broadcastState_res[of ?s] by auto
    from made[of m em] show ?thesis
      using st Ok m Start_fields[OF Ok] by (auto simp: StartEmulator_def)
  next
    case (Err e tr)
    then show ?thesis using failed[of e] st by (auto simp: StartEmulator_def)
  next
    case (Panic q tr)
    then show ?thesis using Start_no_panic[of os bp p req "[]" q tr] by simp
  qed
qed

text \<open>Elimination of a step, one rule per event.\<close>

lemma s_step_crash: "s_step e w = Some w' \<Longrightarrow> crash w = None"
  by (cases e) (auto split: if_splits)

lemma s_inv_start: "s_inv s_start"
  by (simp add: s_inv_def s_start_def NewServer_def broadcastState_def agent_state_def)

lemma s_inv_step:
  assumes inv: "s_inv w" and step: "s_step e w = Some w'"
  shows "s_inv w'"
proof -
  have alive: "crash w = None" using step by (rule s_step_crash)
  from inv have I: "length (lives w) = length (emus (srv w))"
    "state (srv w) = StateError \<longrightarrow> stateError (srv w) \<noteq> None"
    "\<And>i. emu (srv w) = Some i \<Longrightarrow> i < length (emus (srv w))"
    "\<And>i. i < length (lives w) \<Longrightarrow> controller (emus (srv w) ! i) \<noteq> None \<longleftrightarrow> connected (lives w ! i)"
    by (auto simp: s_inv_def)
  show ?thesis
  proof (cases e)
    case Heartbeat
    obtain m where "broadcastState (srv w) = (Ok (), (srv w)\<lparr>stateBroadcaster := Broadcast (Some m) (stateBroadcaster (srv w))\<rparr>)"
      using broadcastState_res[OF I(2)] by blast
    then show ?thesis
      using inv step alive Heartbeat by (auto simp: heartbeat_def s_inv_def)
  next
    case (RpcStart os bp p req)
    show ?thesis
    proof (cases rule: StartEmulator_cases[of os bp p req "srv w"])
      case refused
      then show ?thesis using inv step alive RpcStart I(1) by (auto simp: s_inv_def Let_def)
    next
      case failed
      then show ?thesis using inv step alive RpcStart I(1) by (auto simp: s_inv_def Let_def)
    next
      case (made em m)
      then have w': "w' = (finish (StartEmulator os bp p req (srv w)) w)\<lparr>lives := lives w @ [new_life]\<rparr>"
        using step alive RpcStart I(1) by (simp add: Let_def)
      show ?thesis
        unfolding w' using made inv I(1) by (auto simp: s_inv_def nth_append new_life_def less_Suc_eq)
    qed
  next
    case (RpcStop svc req)
    then have "srv w' = snd (StopEmulator svc req (srv w))" "lives w' = lives w"
      using step alive by (auto split: prod.splits)
    with inv StopEmulator_state[of "srv w" svc req] show ?thesis
      by (auto simp: s_inv_def)
  next
    case (RpcInput svc req)
    then have "srv w' = srv w" "lives w' = lives w"
      using step alive SendInput_state[of svc req "srv w"] by (auto split: prod.splits)
    with inv show ?thesis by (simp add: s_inv_def)
  next
    case (Connected i con)
    then have w': "w' = w\<lparr>srv := (srv w)\<lparr>emus := (emus (srv w))[i := (emus (srv w) ! i)\<lparr>controller := Some con\<rparr>]\<rparr>,
        lives := (lives w)[i := (lives w ! i)\<lparr>connected := True\<rparr>]\<rparr>" and i: "i < length (lives w)"
      using step by (auto split: if_splits)
    show ?thesis
      unfolding w' using inv i by (auto simp: s_inv_def nth_upd)
  next
    case (Started i)
    have fin: "s_inv (finish (OnEmulatorStarted (srv w)) w)"
      unfolding OnEmulatorStarted_def by (rule s_inv_broadcast[OF inv]) simp_all
    from Started have w': "w' = (finish (OnEmulatorStarted (srv w)) w)
        \<lparr>lives := (lives w)[i := (lives w ! i)\<lparr>started := True\<rparr>]\<rparr>" and i: "connected (lives w ! i)"
      using step by (auto split: if_splits)
    show ?thesis
      unfolding w' using fin i by (auto simp: s_inv_def nth_upd)
  next
    case (Exited i err)
    have fin: "s_inv (finish (OnEmulatorExit err (srv w)) w)"
      unfolding OnEmulatorExit_def by (rule s_inv_broadcast[OF inv]) simp_all
    from Exited have w': "w' = (finish (OnEmulatorExit err (srv w)) w)
        \<lparr>lives := (lives w)[i := (lives w ! i)\<lparr>exited := True\<rparr>]\<rparr>"
      using step by (auto split: if_splits)
    show ?thesis
      unfolding w' using fin by (auto simp: s_inv_def nth_upd)
  next
    case (FrameIn i f)
    then have "w' = w\<lparr>srv := OnEmulatorFrame f (srv w)\<rparr>"
      using step by (auto split: if_splits)
    then show ?thesis
      using inv by (simp add: s_inv_def OnEmulatorFrame_def)
  next
    case (ConnectDies i q)
    then have "w' = w\<lparr>crash := Some q\<rparr>"
      using step by (auto split: if_splits)
    then show ?thesis
      using inv by (simp add: s_inv_def)
  next
    case (OtherDies q)
    then have "w' = w\<lparr>crash := Some q\<rparr>"
      using step by (auto split: if_splits)
    then show ?thesis
      using inv by (simp add: s_inv_def)
  qed
qed

interpretation server_sys: machine s_step s_start "\<lambda>_. True" "\<lambda>_. s_inv"
  by unfold_locales (rule TrueI s_inv_start s_inv_step; assumption)+

subsection \<open>Orderly executions\<close>

text \<open>
  An execution is orderly when no emulator reports its start after its exit, the emulator's service
  and the kill do what the agent asks, the touches sent have a payload, no connection fails, and no other
  part of the agent dies.
\<close>

fun exits :: "sevent list \<Rightarrow> nat set" where
  "exits [] = {}"
| "exits (Exited i err # es) = insert i (exits es)"
| "exits (_ # es) = exits es"

lemma exits_append [simp]: "exits (es @ fs) = exits es \<union> exits fs"
  by (induction es rule: exits.induct) auto

fun orderly_event :: "sevent list \<Rightarrow> sevent \<Rightarrow> bool" where
  "orderly_event h (Started i) = (i \<notin> exits h)"
| "orderly_event h (RpcStop svc req) = (svc = (\<lambda>_. None))"
| "orderly_event h (RpcInput svc req) = (\<forall>r. req = Some r \<longrightarrow> InputRequest_Event r \<noteq> Some (InputRequest_Touch None))"
| "orderly_event h (ConnectDies i q) = False"
| "orderly_event h (OtherDies q) = False"
| "orderly_event h _ = True"

fun orderly_rev :: "sevent list \<Rightarrow> bool" where
  "orderly_rev [] = True"
| "orderly_rev (e # h) = (orderly_event (rev h) e \<and> orderly_rev h)"

definition orderly :: "sevent list \<Rightarrow> bool" where
  "orderly es = orderly_rev (rev es)"

lemma orderly_snoc [simp]: "orderly (h @ [e]) \<longleftrightarrow> orderly_event h e \<and> orderly h"
  by (simp add: orderly_def)

text \<open>
  The state is then the truth about the emulators: at most one is alive, and the server points
  to it.
\<close>

definition alive :: "sworld \<Rightarrow> nat set" where
  "alive w = {i. i < length (lives w) \<and> \<not> exited (lives w ! i)}"

definition truth :: "sevent list \<Rightarrow> sworld \<Rightarrow> bool" where
  "truth h w \<longleftrightarrow> s_inv w \<and> crash w = None \<and>
     (\<forall>i < length (lives w). exited (lives w ! i) \<longleftrightarrow> i \<in> exits h) \<and>
     (\<forall>i \<in> exits h. i < length (lives w)) \<and>
     (case state (srv w) of
        StateStarting \<Rightarrow> (\<exists>i. emu (srv w) = Some i \<and> alive w = {i} \<and> \<not> started (lives w ! i))
      | StateRunning \<Rightarrow> (\<exists>i. emu (srv w) = Some i \<and> alive w = {i} \<and> started (lives w ! i))
      | _ \<Rightarrow> alive w = {})"

lemma on_emu_res:
  "emu s = Some i \<Longrightarrow> i < length (emus s) \<Longrightarrow> on_emu m s = (fst (m (emus s ! i)), s\<lparr>emus := (emus s)[i := snd (m (emus s ! i))]\<rparr>)"
  by (simp add: on_emu_def Let_def)

lemma StopEmulator_ok:
  assumes "emu s = Some i" "i < length (emus s)" "controller (emus s ! i) \<noteq> None" "state s = StateRunning"
  shows "\<exists>calls es. StopEmulator (\<lambda>_. None) req s = ((Ok (), calls), s\<lparr>emus := es\<rparr>)"
proof -
  have "\<exists>calls e. Emulator.Stop (\<lambda>_. None) req (emus s ! i) = ((Ok (), calls), e)"
    using assms(3) by (auto simp: Stop_def RequestExit_def emu_do_def)
  then show ?thesis using assms by (auto simp: StopEmulator_def on_emu_res)
qed

lemma SendInput_no_panic:
  assumes "state s = StateRunning \<or> state s = StateStarting \<Longrightarrow> emu s = Some i \<and> i < length (emus s)"
    and "\<forall>r. req = Some r \<longrightarrow> InputRequest_Event r \<noteq> Some (InputRequest_Touch None)"
  shows "\<not> is_panic (fst (fst (SendInput svc req s)))"
proof (cases req)
  case (Some r)
  have "\<not> is_panic (fst (ProcessInput svc r e))" for e
    using assms(2) Some
    by (auto simp: ProcessInput_def SendTouch_def emu_do_def split: option.splits InputRequest_Event.splits)
  then show ?thesis
    using assms(1) Some by (auto simp: SendInput_def on_emu_res)
qed (simp add: SendInput_def)

lemma crash_finish [simp]: "crash (finish r w) = (case fst r of Panic p \<Rightarrow> Some p | _ \<Rightarrow> None)"
  by (simp add: finish_def)

lemma OnEmulatorExit_res:
  "\<exists>m. agent_state (if ex = None then StateStopped else StateError) ex = Ok m \<and>
     OnEmulatorExit ex s = (Ok (), s\<lparr>state := if ex = None then StateStopped else StateError, stateError := ex,
        stateBroadcaster := Broadcast (Some m) (stateBroadcaster s)\<rparr>)"
proof (cases ex)
  case None
  then show ?thesis
    using broadcastState_res[of "s\<lparr>state := StateStopped, stateError := None\<rparr>"]
    by (simp add: OnEmulatorExit_def)
next
  case (Some e)
  then show ?thesis
    using broadcastState_res[of "s\<lparr>state := StateError, stateError := Some e\<rparr>"]
    by (simp add: OnEmulatorExit_def)
qed

lemma OnEmulatorStarted_res:
  "\<exists>m. agent_state StateRunning (stateError s) = Ok m \<and>
     OnEmulatorStarted s = (Ok (), s\<lparr>state := StateRunning,
        stateBroadcaster := Broadcast (Some m) (stateBroadcaster s)\<rparr>)"
  using broadcastState_res[of "s\<lparr>state := StateRunning\<rparr>"] by (simp add: OnEmulatorStarted_def)

lemma truth_step:
  assumes ord: "orderly (h @ [e])" and tr: "truth h w" and step: "s_step e w = Some w'"
  shows "truth (h @ [e]) w'"
proof -
  from tr have alv: "crash w = None" and inv: "s_inv w" by (simp_all add: truth_def)
  have inv': "s_inv w'" by (rule s_inv_step[OF inv step])
  from inv have len: "length (lives w) = length (emus (srv w))" by (simp add: s_inv_def)
  have err: "state (srv w) = StateError \<longrightarrow> stateError (srv w) \<noteq> None" using inv by (simp add: s_inv_def)
  have gone: "s_step e w = Some w' \<Longrightarrow> crash w' = None \<Longrightarrow> lives w' = lives w \<Longrightarrow> state (srv w') = state (srv w) \<Longrightarrow>
      emu (srv w') = emu (srv w) \<Longrightarrow> exits (h @ [e]) = exits h \<Longrightarrow> truth (h @ [e]) w'"
    using tr inv' by (cases "state (srv w)") (auto simp: truth_def alive_def)
  show ?thesis
  proof (cases e)
    case Heartbeat
    obtain m where "broadcastState (srv w) = (Ok (), (srv w)\<lparr>stateBroadcaster := Broadcast (Some m) (stateBroadcaster (srv w))\<rparr>)"
      using broadcastState_res[OF err] by blast
    then show ?thesis
      using gone step alv Heartbeat by (auto simp: heartbeat_def)
  next
    case (RpcStart os bp p req)
    show ?thesis
    proof (cases rule: StartEmulator_cases[of os bp p req "srv w"])
      case refused
      then show ?thesis using gone step alv RpcStart len by (auto simp: Let_def)
    next
      case failed
      then show ?thesis using tr inv' step alv RpcStart len by (auto simp: truth_def Let_def alive_def)
    next
      case (made em m)
      then have w': "w' = (finish (StartEmulator os bp p req (srv w)) w)\<lparr>lives := lives w @ [new_life]\<rparr>"
        using step alv RpcStart len by (simp add: Let_def)
      have "alive w = {}" using tr made(3) by (auto simp: truth_def)
      then have "alive w' = {length (lives w)}"
        unfolding w' by (auto simp: alive_def nth_append new_life_def less_Suc_eq)
      moreover have "state (srv w') = StateStarting" "emu (srv w') = Some (length (lives w))"
        "crash w' = None" "lives w' = lives w @ [new_life]"
        using made len unfolding w' by auto
      moreover have "length (lives w) \<notin> exits h" using tr by (auto simp: truth_def)
      ultimately show ?thesis
        using tr inv' RpcStart by (auto simp: truth_def nth_append new_life_def less_Suc_eq)
    qed
  next
    case (RpcStop svc req)
    then have svc: "svc = (\<lambda>_. None)" using ord by simp
    show ?thesis
    proof (cases "state (srv w) = StateRunning")
      case True
      then obtain i where i: "emu (srv w) = Some i" "alive w = {i}" "started (lives w ! i)"
        using tr by (auto simp: truth_def)
      then have "i < length (emus (srv w))" "controller (emus (srv w) ! i) \<noteq> None"
        using inv len by (auto simp: s_inv_def alive_def)
      then obtain calls es where "StopEmulator svc req (srv w) = ((Ok (), calls), (srv w)\<lparr>emus := es\<rparr>)"
        using StopEmulator_ok[OF i(1)] True svc by blast
      then show ?thesis using gone step alv RpcStop by auto
    next
      case False
      then have "StopEmulator svc req (srv w) = ((Err (GrpcStatus FailedPrecondition ''emulator is not running''), []), srv w)"
        by (simp add: StopEmulator_def)
      then show ?thesis using gone step alv RpcStop by auto
    qed
  next
    case (RpcInput svc req)
    have "\<not> is_panic (fst (fst (SendInput svc req (srv w))))"
      using tr ord RpcInput inv len
      by (intro SendInput_no_panic[where i = "the (emu (srv w))"]) (auto simp: truth_def s_inv_def)
    then show ?thesis
      using gone step alv RpcInput SendInput_state[of svc req "srv w"]
      by (cases "fst (fst (SendInput svc req (srv w)))") (auto split: prod.splits)
  next
    case (Connected i con)
    then have "w' = w\<lparr>srv := (srv w)\<lparr>emus := (emus (srv w))[i := (emus (srv w) ! i)\<lparr>controller := Some con\<rparr>]\<rparr>,
        lives := (lives w)[i := (lives w ! i)\<lparr>connected := True\<rparr>]\<rparr>"
      using step by (auto split: if_splits)
    then show ?thesis
      using tr inv' Connected by (auto simp: truth_def alive_def nth_upd split: State.splits)
  next
    case (FrameIn i f)
    then have "w' = w\<lparr>srv := OnEmulatorFrame f (srv w)\<rparr>"
      using step by (auto split: if_splits)
    then show ?thesis
      using gone step alv FrameIn by (simp add: OnEmulatorFrame_def)
  next
    case (ConnectDies i q)
    then show ?thesis using ord by simp
  next
    case (OtherDies q)
    then show ?thesis using ord by simp
  next
    case (Started i)
    then have w': "w' = (finish (OnEmulatorStarted (srv w)) w)
        \<lparr>lives := (lives w)[i := (lives w ! i)\<lparr>started := True\<rparr>]\<rparr>"
      and i: "i < length (lives w)" "\<not> started (lives w ! i)"
      using step by (auto split: if_splits)
    have "i \<notin> exits h" using ord Started by simp
    then have ia: "i \<in> alive w" using tr i by (auto simp: truth_def alive_def)
    obtain m where m: "OnEmulatorStarted (srv w) = (Ok (), (srv w)\<lparr>state := StateRunning,
        stateBroadcaster := Broadcast (Some m) (stateBroadcaster (srv w))\<rparr>)"
      using OnEmulatorStarted_res[of "srv w"] by blast
    have "emu (srv w) = Some i" "alive w = {i}"
      using tr ia by (auto simp: truth_def split: State.splits)
    moreover have "alive w' = alive w" unfolding w' using i by (auto simp: alive_def nth_upd)
    ultimately show ?thesis
      using tr inv' Started i m unfolding w' by (auto simp: truth_def nth_upd)
  next
    case (Exited i ex)
    then have w': "w' = (finish (OnEmulatorExit ex (srv w)) w)
        \<lparr>lives := (lives w)[i := (lives w ! i)\<lparr>exited := True\<rparr>]\<rparr>"
      and i: "i < length (lives w)" "\<not> exited (lives w ! i)"
      using step by (auto split: if_splits)
    have "i \<in> alive w" using i by (simp add: alive_def)
    then have "alive w = {i}" using tr by (auto simp: truth_def split: State.splits)
    moreover have "alive w' = alive w - {i}" unfolding w' using i by (auto simp: alive_def nth_upd)
    ultimately have "alive w' = {}" by simp
    moreover obtain m where "OnEmulatorExit ex (srv w) = (Ok (), (srv w)
        \<lparr>state := if ex = None then StateStopped else StateError, stateError := ex,
        stateBroadcaster := Broadcast (Some m) (stateBroadcaster (srv w))\<rparr>)"
      using OnEmulatorExit_res[of ex "srv w"] by blast
    ultimately show ?thesis
      using tr inv' Exited i unfolding w' by (auto simp: truth_def nth_upd)
  qed
qed

lemma orderly_bound: "orderly (h @ [e]) \<Longrightarrow> orderly h"
  by simp

lemma truth_start: "truth [] s_start"
  using s_inv_start by (auto simp: truth_def s_start_def NewServer_def broadcastState_def agent_state_def alive_def)

interpretation orderly_sys: machine s_step s_start orderly truth
  by unfold_locales (rule orderly_bound truth_start truth_step; assumption)+

subsection \<open>What the subscribers have been told\<close>

definition published :: "server \<Rightarrow> bool" where
  "published s \<longleftrightarrow> state s = StateError \<or>
     agent_state (state s) (stateError s) = Ok (the (bvalue (stateBroadcaster s))) \<and> bvalue (stateBroadcaster s) \<noteq> None"

lemma published_broadcast:
  "state s = StateError \<longrightarrow> stateError s \<noteq> None \<Longrightarrow> published (snd (broadcastState s))"
  using broadcastState_res[of s] by (auto simp: published_def Broadcast_def)

lemma published_step:
  assumes inv: "s_inv w" and pub: "published (srv w)" and step: "s_step e w = Some w'"
  shows "published (srv w')"
proof -
  have alv: "crash w = None" using step by (rule s_step_crash)
  have err: "state (srv w) = StateError \<longrightarrow> stateError (srv w) \<noteq> None" using inv by (simp add: s_inv_def)
  show ?thesis
  proof (cases e)
    case Heartbeat
    then show ?thesis
      using step alv published_broadcast[OF err] by (auto simp: heartbeat_def)
  next
    case (RpcStart os bp p req)
    have "srv w' = snd (StartEmulator os bp p req (srv w))"
      using step alv RpcStart by (auto simp: Let_def split: if_splits)
    then show ?thesis
      using pub by (cases rule: StartEmulator_cases[of os bp p req "srv w"])
        (auto simp: published_def Broadcast_def)
  next
    case (RpcStop svc req)
    then have "srv w' = snd (StopEmulator svc req (srv w))"
      using step alv by (auto split: prod.splits)
    then show ?thesis
      using pub StopEmulator_state[of "srv w" svc req] by (auto simp: published_def)
  next
    case (RpcInput svc req)
    then have "srv w' = srv w"
      using step alv SendInput_state[of svc req "srv w"] by (auto split: prod.splits)
    then show ?thesis using pub by simp
  next
    case (Started i)
    then have "srv w' = snd (OnEmulatorStarted (srv w))"
      using step by (auto split: if_splits)
    then show ?thesis by (simp add: OnEmulatorStarted_def published_broadcast)
  next
    case (Exited i ex)
    then have "srv w' = snd (OnEmulatorExit ex (srv w))"
      using step by (auto split: if_splits)
    then show ?thesis by (simp add: OnEmulatorExit_def published_broadcast)
  qed (use step pub in \<open>auto simp: published_def OnEmulatorFrame_def split: if_splits\<close>)
qed

lemma published_start: "published (srv s_start)"
  by (simp add: published_def s_start_def NewServer_def broadcastState_def agent_state_def Broadcast_def)

interpretation published_sys: machine s_step s_start "\<lambda>_. True" "\<lambda>_ w. s_inv w \<and> published (srv w)"
  by unfold_locales (auto intro: s_inv_start published_start s_inv_step published_step)

subsection \<open>Sample outcomes\<close>

text \<open>A system image for a known processor, a start that succeeds, and one that fails at once.\<close>

definition ok_prop :: "goerr + (string \<rightharpoonup> string)" where
  "ok_prop = Inr [''ro.product.cpu.abi'' \<mapsto> X8664]"

lemma Start_sample:
  "fst (Emulator.Start (\<lambda>_. None) ok_prop p req []) =
     Ok \<lparr>request = req, controller = None, pid = p, forceExitRequested = False\<rparr>"
  by (simp add: Emulator.Start_def startEmulator_def os_do_def Let_def createConfig_def ok_prop_def GetImageCpu_def)

lemma Start_sample_fails:
  "fst (Emulator.Start (\<lambda>_. Some e) ok_prop p req []) = Err e"
  by (simp add: Emulator.Start_def startEmulator_def os_do_def Let_def)

lemmas run_simps = s_start_def NewServer_def broadcastState_def agent_state_def StartEmulator_def Start_sample
  Start_sample_fails finish_def new_life_def OnEmulatorStarted_def OnEmulatorExit_def StopEmulator_def SendInput_def
  on_emu_def Let_def Stop_def RequestExit_def emu_do_def heartbeat_def

subsection \<open>Properties\<close>

text \<open>C1: In every orderly execution the agent never crashes and its state tells the truth: starting and
  running mean that exactly one emulator is alive, the one the server points to, running that it has
  reported its start; off and error mean that none is alive.\<close>

theorem server_truth:
  assumes "orderly es" "exec s_step es s_start = Some w"
  shows "crash w = None \<and>
    (case state (srv w) of
       StateStarting \<Rightarrow> (\<exists>i. emu (srv w) = Some i \<and> alive w = {i} \<and> \<not> started (lives w ! i))
     | StateRunning \<Rightarrow> (\<exists>i. emu (srv w) = Some i \<and> alive w = {i} \<and> started (lives w ! i))
     | _ \<Rightarrow> alive w = {})"
  using orderly_sys.inv_exec[OF assms] unfolding truth_def by blast

theorem server_truth_witness:
  "\<exists>w. exec s_step [RpcStart (\<lambda>_. None) ok_prop 7 StartEmulatorRequest_zero,
      Connected 0 \<lparr>connection = ''c''\<rparr>, Started 0, Heartbeat] s_start = Some w \<and>
      state (srv w) = StateRunning \<and> emu (srv w) = Some 0 \<and> alive w = {0}"
proof -
  let ?es = "[RpcStart (\<lambda>_. None) ok_prop 7 StartEmulatorRequest_zero,
      Connected 0 \<lparr>connection = ''c''\<rparr>, Started 0, Heartbeat]"
  obtain w where w: "exec s_step ?es s_start = Some w" "state (srv w) = StateRunning" "emu (srv w) = Some 0"
    by (simp add: run_simps)
  moreover have "orderly ?es" by (simp add: orderly_def)
  ultimately show ?thesis using server_truth[of ?es w] by auto
qed

text \<open>C11: In every execution, whatever fails, the state the subscribers have last been sent is the
  server's state, unless the server is in the error state; and after a heartbeat, a start report or
  an exit report it is the server's state even then.\<close>

theorem server_publishes:
  assumes "exec s_step es s_start = Some w"
  shows "(state (srv w) \<noteq> StateError \<longrightarrow>
      (\<exists>m. agent_state (state (srv w)) (stateError (srv w)) = Ok m \<and> bvalue (stateBroadcaster (srv w)) = Some m)) \<and>
    (\<forall>e w'. s_step e w = Some w' \<and> (e = Heartbeat \<or> (\<exists>i. e = Started i) \<or> (\<exists>i err. e = Exited i err)) \<longrightarrow>
      (\<exists>m. agent_state (state (srv w')) (stateError (srv w')) = Ok m \<and> bvalue (stateBroadcaster (srv w')) = Some m))"
proof -
  have inv: "s_inv w" and pub: "published (srv w)"
    using published_sys.inv_exec[OF TrueI assms] by simp_all
  have told: "\<exists>m. agent_state (state s) (stateError s) = Ok m \<and>
      bvalue (stateBroadcaster (snd (broadcastState s))) = Some m \<and>
      state (snd (broadcastState s)) = state s \<and> stateError (snd (broadcastState s)) = stateError s"
    if "state s = StateError \<longrightarrow> stateError s \<noteq> None" for s
    using broadcastState_res[OF that] by (auto simp: Broadcast_def)
  have "\<exists>m. agent_state (state (srv w')) (stateError (srv w')) = Ok m \<and> bvalue (stateBroadcaster (srv w')) = Some m"
    if "s_step e w = Some w'" "e = Heartbeat \<or> (\<exists>i. e = Started i) \<or> (\<exists>i err. e = Exited i err)" for e w'
    using that(2)
  proof (elim disjE exE)
    assume "e = Heartbeat"
    then have "srv w' = snd (broadcastState (srv w))"
      using that(1) by (auto simp: heartbeat_def split: if_splits)
    then show ?thesis using told[of "srv w"] inv by (auto simp: s_inv_def)
  next
    fix i assume "e = Started i"
    then have "srv w' = snd (broadcastState ((srv w)\<lparr>state := StateRunning\<rparr>))"
      using that(1) by (auto simp: OnEmulatorStarted_def split: if_splits)
    then show ?thesis using told[of "(srv w)\<lparr>state := StateRunning\<rparr>"] by auto
  next
    fix i err assume "e = Exited i err"
    then have "srv w' = snd (OnEmulatorExit err (srv w))"
      using that(1) by (auto split: if_splits)
    then show ?thesis
      using OnEmulatorExit_res[of err "srv w"] by (auto simp: Broadcast_def)
  qed
  moreover have "\<exists>m. agent_state (state (srv w)) (stateError (srv w)) = Ok m \<and> bvalue (stateBroadcaster (srv w)) = Some m"
    if "state (srv w) \<noteq> StateError"
    using pub that by (auto simp: published_def)
  ultimately show ?thesis by blast
qed

theorem server_publishes_witness:
  "\<exists>w. exec s_step [RpcStart (\<lambda>_. None) ok_prop 7 StartEmulatorRequest_zero] s_start = Some w \<and>
     bvalue (stateBroadcaster (srv w)) = Some (AgentState_zero\<lparr>AgentState_EmulatorState := AgentState_STARTING\<rparr>)"
proof -
  let ?es = "[RpcStart (\<lambda>_. None) ok_prop 7 StartEmulatorRequest_zero]"
  obtain w where w: "exec s_step ?es s_start = Some w" "state (srv w) = StateStarting"
    by (simp add: run_simps)
  then show ?thesis using server_publishes[OF w(1)] by (auto simp: agent_state_def)
qed

text \<open>The calls that change the emulator are refused in the wrong state and then change nothing; a
  failing start or stop is not reported to the caller but puts the server in the error state with the
  error, and without its emulator.\<close>

lemma handlers_guarded:
  "(case StartEmulator os bp p req s of (r, s') \<Rightarrow>
      if state s = StateStarting \<or> state s = StateRunning
      then r = Err (GrpcStatus FailedPrecondition ''emulator already running'') \<and> s' = s
      else r = Ok () \<and> (case fst (Emulator.Start os bp p req []) of
          Ok em \<Rightarrow> state s' = StateStarting \<and> emu s' = Some (length (emus s)) \<and> emus s' = emus s @ [em] \<and> stateError s' = None
        | Err e \<Rightarrow> s' = s\<lparr>state := StateError, emu := None, stateError := Some e\<rparr>
        | Panic q \<Rightarrow> False)) \<and>
   (case StopEmulator svc sreq s of ((r, calls), s') \<Rightarrow>
      if state s \<noteq> StateRunning
      then r = Err (GrpcStatus FailedPrecondition ''emulator is not running'') \<and> s' = s \<and> calls = []
      else (case fst (fst (on_emu (Emulator.Stop svc sreq) s)) of
          Err e \<Rightarrow> r = Ok () \<and> state s' = StateError \<and> emu s' = None \<and> stateError s' = Some e
        | q \<Rightarrow> r = q \<and> state s' = StateRunning \<and> emu s' = emu s)) \<and>
   (case SendInput svc (Some ireq) s of ((r, calls), s') \<Rightarrow> s' = s \<and>
      (if state s = StateStarting \<or> state s = StateRunning
       then (r, calls) = fst (on_emu (\<lambda>e. (ProcessInput svc ireq e, e)) s)
       else r = Err (GrpcStatus FailedPrecondition ''emulator not running'') \<and> calls = []))"
proof -
  have start: "case StartEmulator os bp p req s of (r, s') \<Rightarrow>
      if state s = StateStarting \<or> state s = StateRunning
      then r = Err (GrpcStatus FailedPrecondition ''emulator already running'') \<and> s' = s
      else r = Ok () \<and> (case fst (Emulator.Start os bp p req []) of
          Ok em \<Rightarrow> state s' = StateStarting \<and> emu s' = Some (length (emus s)) \<and> emus s' = emus s @ [em] \<and> stateError s' = None
        | Err e \<Rightarrow> s' = s\<lparr>state := StateError, emu := None, stateError := Some e\<rparr>
        | Panic q \<Rightarrow> False)"
    using Start_no_panic[of os bp p req "[]"]
    by (cases "state s"; cases "Emulator.Start os bp p req []" rule: res_pair_cases)
      (auto simp: StartEmulator_def broadcastState_def agent_state_def)
  have stop: "case StopEmulator svc sreq s of ((r, calls), s') \<Rightarrow>
      if state s \<noteq> StateRunning
      then r = Err (GrpcStatus FailedPrecondition ''emulator is not running'') \<and> s' = s \<and> calls = []
      else (case fst (fst (on_emu (Emulator.Stop svc sreq) s)) of
          Err e \<Rightarrow> r = Ok () \<and> state s' = StateError \<and> emu s' = None \<and> stateError s' = Some e
        | q \<Rightarrow> r = q \<and> state s' = StateRunning \<and> emu s' = emu s)"
    using on_emu_keeps[of "Emulator.Stop svc sreq" s]
    by (cases "on_emu (Emulator.Stop svc sreq) s"; cases "fst (fst (on_emu (Emulator.Stop svc sreq) s))")
      (auto simp: StopEmulator_def split: prod.splits)
  show ?thesis
    using start stop SendInput_state[of svc "Some ireq" s] by (auto simp: SendInput_def split: prod.splits)
qed

lemma broadcastState_no_panic:
  assumes "s_inv w"
  shows "\<not> is_panic (fst (broadcastState (srv w)))"
  using assms broadcastState_res[of "srv w"] by (auto simp: s_inv_def)

lemma StopEmulator_panic:
  assumes "s_inv w" "fst (fst (StopEmulator svc req (srv w))) = Panic p"
  shows "state (srv w) = StateRunning \<and> emu (srv w) = None \<and> p = NilDereference"
proof -
  have run: "state (srv w) = StateRunning" using assms(2) by (auto simp: StopEmulator_def split: if_splits)
  have "fst (Emulator.Stop svc req e) \<noteq> (Panic p, cs)" for e cs
    by (auto simp: Stop_def RequestExit_def emu_do_def split: option.splits)
  then show ?thesis
    using assms run by (cases "emu (srv w)")
      (auto simp: StopEmulator_def on_emu_def Let_def s_inv_def split: prod.splits res.splits)
qed

lemma SendInput_panic:
  assumes "s_inv w" "fst (fst (SendInput svc req (srv w))) = Panic p"
  shows "p = NilDereference \<and> (\<exists>r. req = Some r \<and>
    (state (srv w) = StateRunning \<and> emu (srv w) = None \<or> InputRequest_Event r = Some (InputRequest_Touch None)))"
proof (cases "emu (srv w)")
  case None
  then show ?thesis
    using assms by (auto simp: SendInput_def on_emu_def s_inv_def split: option.splits if_splits)
next
  case (Some i)
  then show ?thesis
    using assms by (auto simp: SendInput_def on_emu_res s_inv_def ProcessInput_def SendTouch_def emu_do_def
        split: option.splits if_splits InputRequest_Event.splits)
qed

text \<open>What the goroutine that connects to an emulator can die of.\<close>

lemma ReadHex_panic: "fst (ReadHexPrefixedBlob c) = Panic q \<Longrightarrow> q = MakeSliceLen"
  by (cases "ReadHexPrefixedBlob c") (use ReadHex_panics_iff[of c q] in auto)

lemma on_ok_panic:
  "fst (on_ok r cl k) = Panic q \<longleftrightarrow> fst r = Panic q \<or> (\<exists>x s. r = (Ok x, s) \<and> fst (k x s) = Panic q)"
  by (cases r rule: res_pair_cases) auto

lemma conn_no_panic:
  "fst (WriteRaw p c) \<noteq> Panic q"
  "fst (ReadFull n c) \<noteq> Panic q"
  "fst (ReadLine c) \<noteq> Panic q"
  by (auto simp: WriteRaw_def ReadFull_def ReadLine_def Let_def split: prod.splits option.splits if_splits scan_result.splits)

lemma SendCommand_panic: "fst (SendCommand cmd c) = Panic q \<Longrightarrow> q = MakeSliceLen"
  by (auto simp: SendCommand_def WriteMessage_def ReadStatus_def on_ok_panic conn_no_panic
      dest: ReadHex_panic split: if_splits)

lemma sys_SendCommand_panic: "fst (sys_SendCommand cmd c) = Panic q \<Longrightarrow> q = MakeSliceLen"
  by (auto simp: sys_SendCommand_def on_ok_panic dest: SendCommand_panic)

lemma scan_devices_panic:
  "scan_devices ls = Panic q \<Longrightarrow> q = IndexOutOfRange \<and> (\<exists>l \<in> set ls. length (Fields l) < 2)"
  by (induction ls) (auto simp: Let_def split: if_splits)

lemma wait_loop_panic: "fst (wait_loop c) = Panic q \<Longrightarrow> q = MakeSliceLen \<or> q = IndexOutOfRange"
proof (induction c rule: wait_loop.induct)
  case (1 c)
  show ?case
  proof (cases "ReadHexPrefixedBlob c" rule: res_pair_cases)
    case (Ok msg c')
    then show ?thesis
      using "1.prems" "1.IH"[OF Ok[symmetric] refl _ refl]
      by (auto simp: wait_loop.simps[of c] dest: scan_devices_panic split: res.splits bool.splits)
  next
    case (Panic q' c')
    then show ?thesis using "1.prems" ReadHex_panic[of c q'] by (simp add: wait_loop.simps[of c])
  qed (use "1.prems" in \<open>simp add: wait_loop.simps[of c]\<close>)
qed

lemma NewRawConnection_panic:
  "fst (NewRawConnection dial k) = Panic q \<Longrightarrow> \<exists>c. dial = Inr c \<and> fst (k c) = Panic q"
  by (auto simp: NewRawConnection_def split: sum.splits)

lemma root_session_panic: "fst (root_session c) = Panic q \<Longrightarrow> q = MakeSliceLen"
  by (auto simp: root_session_def open_emulator_def on_ok_panic conn_no_panic
      dest: SendCommand_panic sys_SendCommand_panic)

lemma fatal_panic: "fatal r = Panic q \<Longrightarrow> (\<exists>x. q = LogFatal x) \<or> r = Panic q"
  by (cases r) (auto simp: fatal_def)

lemma connect_panics:
  assumes "fst (connect dial st adb1 adb2 em) = Panic q"
  shows "(\<exists>x. q = LogFatal x) \<or> q = MakeSliceLen \<or> q = IndexOutOfRange"
proof -
  have root: "fst (NewRawConnection adb2 root_session) = Panic q \<Longrightarrow> q = MakeSliceLen"
    using NewRawConnection_panic root_session_panic by blast
  have wait: "fst (WaitForEmulator adb1) = Panic q \<Longrightarrow> q = MakeSliceLen \<or> q = IndexOutOfRange"
    unfolding WaitForEmulator_def
    by (auto simp: on_ok_panic dest!: NewRawConnection_panic dest: sys_SendCommand_panic wait_loop_panic)
  show ?thesis
  proof (cases "Connect '':8554'' dial st")
    case (Ok con)
    then show ?thesis
      using assms root wait fatal_panic
      by (cases "fatal (fst (WaitForEmulator adb1))")
        (force simp: connect_def Let_def split: if_splits)+
  qed (use assms in \<open>auto simp: connect_def Connect_def split: option.splits sum.splits\<close>)
qed


definition late_start :: "sevent list" where
  "late_start = [RpcStart (\<lambda>_. None) ok_prop 7 StartEmulatorRequest_zero,
     Connected 0 \<lparr>connection = '':8554''\<rparr>, Exited 0 None,
     RpcStart (\<lambda>_. Some (SysError ''disk full'')) ok_prop 8 StartEmulatorRequest_zero, Started 0]"

definition failed_stop :: "sevent list" where
  "failed_stop = [RpcStart (\<lambda>_. None) ok_prop 7 StartEmulatorRequest_zero,
     Connected 0 \<lparr>connection = '':8554''\<rparr>, Started 0,
     RpcStop (\<lambda>_. Some (SysError ''deadline exceeded'')) StopEmulatorRequest_zero,
     RpcStart (\<lambda>_. None) ok_prop 8 StartEmulatorRequest_zero]"


text \<open>The start of an emulator can be reported after its exit: its connecting goroutine is not stopped.
  Then the server says running with no emulator alive, and if the next start failed meanwhile, a
  request to stop crashes the agent.\<close>

lemma late_start_crashes:
  "\<exists>w w'. exec s_step late_start s_start = Some w \<and> state (srv w) = StateRunning \<and> alive w = {} \<and>
     emu (srv w) = None \<and> s_step (RpcStop svc req) w = Some w' \<and> crash w' = Some NilDereference"
proof -
  obtain w where w: "exec s_step late_start s_start = Some w" "state (srv w) = StateRunning" "emu (srv w) = None"
    "lives w = [\<lparr>connected = True, started = True, exited = True\<rparr>]" "crash w = None"
    by (simp add: late_start_def run_simps)
  then show ?thesis by (simp add: alive_def StopEmulator_def on_emu_def finish_def)
qed

text \<open>When a stop fails, a time-out say, the server forgets an emulator that is still running, and the
  next request starts a second one beside it.\<close>

lemma failed_stop_overlaps:
  "\<exists>w. exec s_step failed_stop s_start = Some w \<and> state (srv w) = StateStarting \<and> alive w = {0, 1} \<and>
     emu (srv w) = Some 1 \<and> crash w = None"
proof -
  obtain w where w: "exec s_step failed_stop s_start = Some w" "state (srv w) = StateStarting" "emu (srv w) = Some 1"
    "lives w = [\<lparr>connected = True, started = True, exited = False\<rparr>, new_life]" "crash w = None"
    by (simp add: failed_stop_def run_simps StopEmulatorRequest_zero_def)
  moreover have "i < 2 \<Longrightarrow> i = 0 \<or> i = 1" for i :: nat by auto
  ultimately show ?thesis by (auto simp: alive_def new_life_def)
qed

subsection \<open>The life cycle\<close>

text \<open>The automaton the states of the server are meant to follow.\<close>

inductive lifecycle :: "State \<Rightarrow> State \<Rightarrow> bool" where
  stays: "lifecycle st st"
| launched: "st = StateStopped \<or> st = StateError \<Longrightarrow> lifecycle st StateStarting"
| launch_failed: "lifecycle StateStopped StateError"
| booted: "lifecycle StateStarting StateRunning"
| ended: "st = StateStarting \<or> st = StateRunning \<Longrightarrow> st' = StateStopped \<or> st' = StateError \<Longrightarrow> lifecycle st st'"

inductive_simps lifecycle_iff: "lifecycle st st'"

lemma broadcastState_state [simp]: "state (snd (broadcastState s)) = state s"
  by (cases "state s"; cases "stateError s") (auto simp: broadcastState_def agent_state_def)

text \<open>C17: In every orderly execution each event moves the state along an edge of the automaton: an emulator
  runs only after it was starting, is started only when none is up, and a state of rest is left only by a
  start.\<close>

theorem server_lifecycle:
  assumes "orderly (es @ [e])" "exec s_step es s_start = Some w" "s_step e w = Some w'"
  shows "lifecycle (state (srv w)) (state (srv w'))"
proof -
  have o: "orderly es" "orderly_event es e" using assms(1) by simp_all
  have tr: "truth es w" by (rule orderly_sys.inv_exec[OF o(1) assms(2)])
  have alive: "crash w = None" using assms(3) by (rule s_step_crash)
  show ?thesis
  proof (cases e)
    case Heartbeat
    then show ?thesis using assms(3) alive by (auto simp: heartbeat_def intro: lifecycle.stays)
  next
    case (RpcStart os bp p req)
    have "state (srv w') = state (snd (StartEmulator os bp p req (srv w)))"
      using assms(3) alive RpcStart by (auto simp: Let_def split: if_splits)
    then show ?thesis
      by (cases rule: StartEmulator_cases[of os bp p req "srv w"]) (auto simp: lifecycle_iff)
  next
    case (RpcStop svc req)
    have "state (srv w') = state (snd (StopEmulator svc req (srv w)))"
      using assms(3) alive RpcStop by (auto split: prod.splits)
    then show ?thesis
      using StopEmulator_state[of "srv w" svc req] by (auto simp: lifecycle_iff)
  next
    case (RpcInput svc req)
    then show ?thesis
      using assms(3) alive SendInput_state[of svc req "srv w"] by (auto simp: lifecycle_iff split: prod.splits)
  next
    case (Started i)
    have "state (srv w') = StateRunning"
      using assms(3) Started by (auto simp: OnEmulatorStarted_def split: if_splits)
    moreover have "i \<in> alive w" "\<not> started (lives w ! i)"
      using assms(3) Started o(2) tr by (auto simp: alive_def truth_def split: if_splits)
    ultimately show ?thesis
      using tr by (auto simp: truth_def lifecycle_iff split: State.splits)
  next
    case (Exited i err)
    have "state (srv w') = StateStopped \<or> state (srv w') = StateError"
      using assms(3) Exited by (auto simp: OnEmulatorExit_def split: if_splits)
    moreover have "i \<in> alive w"
      using assms(3) Exited by (auto simp: alive_def split: if_splits)
    ultimately show ?thesis
      using tr by (auto simp: truth_def lifecycle_iff split: State.splits)
  qed (use assms(3) in \<open>auto simp: lifecycle_iff OnEmulatorFrame_def split: if_splits\<close>)
qed

theorem server_lifecycle_witness:
  "\<exists>w. exec s_step [RpcStart (\<lambda>_. None) ok_prop 7 StartEmulatorRequest_zero] s_start = Some w \<and>
     lifecycle StateStarting (state (srv (the (s_step (Connected 0 \<lparr>connection = ''c''\<rparr>) w))))"
proof -
  let ?es = "[RpcStart (\<lambda>_. None) ok_prop 7 StartEmulatorRequest_zero]"
  obtain w w' where w: "exec s_step ?es s_start = Some w" "state (srv w) = StateStarting"
      "s_step (Connected 0 \<lparr>connection = ''c''\<rparr>) w = Some w'"
    by (simp add: run_simps)
  moreover have "orderly (?es @ [Connected 0 \<lparr>connection = ''c''\<rparr>])" by (simp add: orderly_def)
  ultimately show ?thesis using server_lifecycle[OF _ w(1,3)] by auto
qed


subsection \<open>Well-formed states\<close>

text \<open>A state message carries an error exactly when it says error, and one of the four states.\<close>

definition wf_state_msg :: "AgentState \<Rightarrow> bool" where
  "wf_state_msg m \<longleftrightarrow>
     AgentState_EmulatorState m \<in> {AgentState_ERROR, AgentState_OFF, AgentState_STARTING, AgentState_RUNNING} \<and>
     (AgentState_EmulatorError m \<noteq> None \<longleftrightarrow> AgentState_EmulatorState m = AgentState_ERROR)"

lemma agent_state_wf: "agent_state st err = Ok m \<Longrightarrow> wf_state_msg m"
  by (cases st; cases err)
    (auto simp: agent_state_def wf_state_msg_def AgentState_zero_def AgentState_ERROR_def AgentState_OFF_def
      AgentState_STARTING_def AgentState_RUNNING_def)

text \<open>A step tells the subscribers nothing, or one well-formed message.\<close>

lemma broadcastState_tells:
  "stateBroadcaster (snd (broadcastState s)) = stateBroadcaster s \<or>
   (\<exists>m. wf_state_msg m \<and> stateBroadcaster (snd (broadcastState s)) = Broadcast (Some m) (stateBroadcaster s))"
  by (cases "agent_state (state s) (stateError s)") (auto simp: broadcastState_def dest: agent_state_wf)

lemma s_step_tells:
  assumes "s_step e w = Some w'"
  shows "stateBroadcaster (srv w') = stateBroadcaster (srv w) \<or>
    (\<exists>m. wf_state_msg m \<and> stateBroadcaster (srv w') = Broadcast (Some m) (stateBroadcaster (srv w)))"
proof (cases e)
  case Heartbeat
  then show ?thesis
    using assms broadcastState_tells[of "srv w"] by (auto simp: heartbeat_def split: if_splits)
next
  case (RpcStart os bp p req)
  have "srv w' = snd (StartEmulator os bp p req (srv w))"
    using assms RpcStart by (auto simp: Let_def split: if_splits)
  then show ?thesis
    by (cases rule: StartEmulator_cases[of os bp p req "srv w"]) (auto dest: agent_state_wf)
next
  case (RpcStop svc req)
  then have "srv w' = snd (StopEmulator svc req (srv w))"
    using assms by (auto split: prod.splits if_splits)
  then show ?thesis using StopEmulator_state[of "srv w" svc req] by auto
next
  case (RpcInput svc req)
  then have "srv w' = srv w"
    using assms SendInput_state[of svc req "srv w"] by (auto split: prod.splits if_splits)
  then show ?thesis by simp
next
  case (Started i)
  then show ?thesis
    using assms broadcastState_tells[of "(srv w)\<lparr>state := StateRunning\<rparr>"]
    by (auto simp: OnEmulatorStarted_def split: if_splits)
next
  case (Exited i err)
  then show ?thesis
    using assms broadcastState_tells[of "(srv w)\<lparr>state := StateError, stateError := err\<rparr>"]
      broadcastState_tells[of "(srv w)\<lparr>state := StateStopped, stateError := None\<rparr>"]
    by (auto simp: OnEmulatorExit_def split: if_splits)
qed (use assms in \<open>auto simp: OnEmulatorFrame_def split: if_splits\<close>)

definition wf_told :: "server \<Rightarrow> bool" where
  "wf_told s \<longleftrightarrow> (\<forall>m. bvalue (stateBroadcaster s) = Some m \<longrightarrow> wf_state_msg m)"

lemma wf_told_broadcast: "wf_told s \<Longrightarrow> wf_told (snd (broadcastState s))"
  using broadcastState_tells[of s] by (auto simp: wf_told_def Broadcast_def)

lemma wf_told_step:
  assumes "wf_told (srv w)" "s_step e w = Some w'"
  shows "wf_told (srv w')"
  using s_step_tells[OF assms(2)] assms(1) by (auto simp: wf_told_def Broadcast_def)

lemma wf_told_start: "wf_told (srv s_start)"
proof -
  have "wf_told NewServer" by (simp add: wf_told_def NewServer_def Broadcaster.New_def)
  then show ?thesis using wf_told_broadcast by (simp add: s_start_def)
qed

interpretation wf_sys: machine s_step s_start "\<lambda>_. True" "\<lambda>_ w. s_inv w \<and> wf_told (srv w)"
  by unfold_locales (auto intro: s_inv_start wf_told_start s_inv_step wf_told_step)

text \<open>C14: Every state of every execution, failures and late reports included, is well formed: the error state
  has its error, the emulator pointed to exists, a starting server has one, an emulator has its
  controller when it has connected and has connected when it has reported its start; and the state
  message last broadcast carries an error exactly when it says so.\<close>

theorem server_well_formed:
  assumes "exec s_step es s_start = Some w"
  shows "(state (srv w) = StateError \<longrightarrow> stateError (srv w) \<noteq> None) \<and>
    (\<forall>i. emu (srv w) = Some i \<longrightarrow> i < length (emus (srv w))) \<and>
    (state (srv w) = StateStarting \<longrightarrow> emu (srv w) \<noteq> None) \<and>
    (\<forall>i < length (emus (srv w)). (controller (emus (srv w) ! i) \<noteq> None \<longleftrightarrow> connected (lives w ! i)) \<and>
       (started (lives w ! i) \<longrightarrow> connected (lives w ! i))) \<and>
    (\<forall>m. bvalue (stateBroadcaster (srv w)) = Some m \<longrightarrow>
       AgentState_EmulatorState m \<in> {AgentState_ERROR, AgentState_OFF, AgentState_STARTING, AgentState_RUNNING} \<and>
       (AgentState_EmulatorError m \<noteq> None \<longleftrightarrow> AgentState_EmulatorState m = AgentState_ERROR))"
  using wf_sys.inv_exec[OF TrueI assms] unfolding s_inv_def wf_told_def wf_state_msg_def by simp

theorem server_well_formed_witness:
  "\<exists>w. exec s_step late_start s_start = Some w \<and> length (emus (srv w)) = 1 \<and> controller (emus (srv w) ! 0) \<noteq> None"
proof -
  obtain w where w: "exec s_step late_start s_start = Some w" "length (emus (srv w)) = 1"
    "lives w = [\<lparr>connected = True, started = True, exited = True\<rparr>]"
    by (simp add: late_start_def run_simps)
  then show ?thesis using server_well_formed[OF w(1)] by simp
qed

text \<open>The loop of the heartbeat is the event \<open>Heartbeat\<close>, once for each tick, and it never ends the agent.\<close>

lemma heartbeat_ticks:
  assumes "s_inv w" "crash w = None"
  shows "exec s_step (replicate n Heartbeat) w = Some (w\<lparr>srv := snd (startHeartbeat (replicate n Tick) (srv w))\<rparr>) \<and>
    fst (startHeartbeat (replicate n Tick) (srv w)) = Ok ()"
  using assms
proof (induction n arbitrary: w)
  case (Suc n)
  then obtain m where m: "broadcastState (srv w) = (Ok (), (srv w)\<lparr>stateBroadcaster := Broadcast (Some m) (stateBroadcaster (srv w))\<rparr>)"
    using broadcastState_res[of "srv w"] by (auto simp: s_inv_def)
  let ?w = "w\<lparr>srv := (srv w)\<lparr>stateBroadcaster := Broadcast (Some m) (stateBroadcaster (srv w))\<rparr>\<rparr>"
  have "s_step Heartbeat w = Some ?w" using m Suc.prems(2) by (simp add: heartbeat_def finish_def)
  moreover have "s_inv ?w" "crash ?w = None" using Suc.prems by (simp_all add: s_inv_def)
  ultimately show ?case using Suc.IH[of ?w] m by (simp add: heartbeat_def del: s_step.simps)
qed simp

end
