(* ===== verification/AdbSync.thy ===== *)
theory AdbSync
  imports AdbClient
begin

unbundle bit_operations_syntax

text \<open>
  \<^verbatim>\<open>agent/server/adb/sync.go\<close>: the file synchronisation sub-protocol, listing directories, reading
  file status, pulling and pushing files. Requests are built as the code builds its packets; the
  device's side of the wire (\<open>stat_wire\<close>, \<open>dent_wire\<close>, \<open>chunk_wire\<close>) is written down beside it,
  for the statements about what a listing or a transfer returns.
\<close>

subsection \<open>Constants and the status record\<close>

definition MaxData :: nat where "MaxData = 64 * 1024"

definition id4 :: "char \<Rightarrow> char \<Rightarrow> char \<Rightarrow> char \<Rightarrow> u32" where
  "id4 a b c d = of_char a OR push_bit 8 (of_char b) OR push_bit 16 (of_char c) OR push_bit 24 (of_char d)"

definition IdListV2 :: u32 where "IdListV2 = id4 CHR ''L'' CHR ''I'' CHR ''S'' CHR ''2''"
definition IdDentV2 :: u32 where "IdDentV2 = id4 CHR ''D'' CHR ''N'' CHR ''T'' CHR ''2''"
definition IdDone :: u32 where "IdDone = id4 CHR ''D'' CHR ''O'' CHR ''N'' CHR ''E''"
definition IdStatV2 :: u32 where "IdStatV2 = id4 CHR ''S'' CHR ''T'' CHR ''A'' CHR ''2''"
definition IdLStatV2 :: u32 where "IdLStatV2 = id4 CHR ''L'' CHR ''S'' CHR ''T'' CHR ''2''"
definition IdRecvV2 :: u32 where "IdRecvV2 = id4 CHR ''R'' CHR ''C'' CHR ''V'' CHR ''2''"
definition IdFail :: u32 where "IdFail = id4 CHR ''F'' CHR ''A'' CHR ''I'' CHR ''L''"
definition IdData :: u32 where "IdData = id4 CHR ''D'' CHR ''A'' CHR ''T'' CHR ''A''"
definition IdSendV2 :: u32 where "IdSendV2 = id4 CHR ''S'' CHR ''N'' CHR ''D'' CHR ''2''"
definition IdOkay :: u32 where "IdOkay = id4 CHR ''O'' CHR ''K'' CHR ''A'' CHR ''Y''"

lemmas id_defs = IdListV2_def IdDentV2_def IdDone_def IdStatV2_def IdLStatV2_def IdRecvV2_def
  IdFail_def IdData_def IdSendV2_def IdOkay_def

lemma id_values:
  "IdListV2 = 0x3253494C" "IdDentV2 = 0x32544E44" "IdDone = 0x454E4F44" "IdStatV2 = 0x32415453"
  "IdLStatV2 = 0x3254534C" "IdRecvV2 = 0x32564352" "IdFail = 0x4C494146" "IdData = 0x41544144"
  "IdSendV2 = 0x32444E53" "IdOkay = 0x59414B4F"
  by (simp_all add: id_defs id4_def)

definition FileStatSize :: nat where "FileStatSize = 4 * 16"

record FileStat =
  Dev :: u64
  INo :: u64
  Mode :: u32
  NLink :: u32
  UId :: u32
  GId :: u32
  Size :: u64
  ATime :: i64
  MTime :: i64
  CTime :: i64

text \<open>\<^verbatim>\<open>data[a:b]\<close>\<close>

definition slice :: "nat \<Rightarrow> nat \<Rightarrow> byte list \<Rightarrow> byte list" where
  "slice a b data = take (b - a) (drop a data)"

definition parseFileStat :: "byte list \<Rightarrow> FileStat" where
  "parseFileStat data = \<lparr>
     Dev = Uint64 (slice 0 8 data),
     INo = Uint64 (slice 8 16 data),
     Mode = Uint32 (slice 16 20 data),
     NLink = Uint32 (slice 20 24 data),
     UId = Uint32 (slice 24 28 data),
     GId = Uint32 (slice 28 32 data),
     Size = Uint64 (slice 32 40 data),
     ATime = Uint64 (slice 40 48 data),
     MTime = Uint64 (slice 48 56 data),
     CTime = Uint64 (slice 56 64 data)\<rparr>"

record ListDirectoryEntry =
  Name :: string
  StatError :: u32
  Stat :: FileStat

subsection \<open>Listing a directory\<close>

definition path_packet :: "u32 \<Rightarrow> string \<Rightarrow> byte list" where
  "path_packet rid path = PutUint32 rid @ PutUint32 (word_of_nat (length path)) @ of_str path"

text \<open>The loop over the entries; \<open>acc\<close> is the slice built so far.\<close>

lemma ReadRaw_shrinks:
  "ReadRaw n c = (Ok d, c') \<Longrightarrow> length (incoming c) = n + length (incoming c')"
  by (auto simp: ReadRaw_def on_ok_eq_Ok dest!: ReadFull_shrinks)

function list_loop ::
  "ListDirectoryEntry list \<Rightarrow> conn \<Rightarrow> ListDirectoryEntry list res \<times> conn" where
  "list_loop acc c = (case ReadRaw (FileStatSize + 12) c of
     (Err e, c') \<Rightarrow> (Err e, c')
   | (Panic p, c') \<Rightarrow> (Panic p, c')
   | (Ok respPacket, c') \<Rightarrow>
      (let rid = Uint32 (slice 0 4 respPacket);
           statErr = Uint32 (slice 4 8 respPacket)
       in if rid = IdDone then (Ok acc, c')
          else if rid \<noteq> IdDentV2 then (Err (NewError ''unexpected response id''), c')
          else
            (let fs = parseFileStat (slice 8 (8 + FileStatSize) respPacket);
                 nameLen = Uint32 (slice (8 + FileStatSize) (12 + FileStatSize) respPacket)
             in case ReadRaw (unat nameLen) c' of
                 (Err e, c'') \<Rightarrow> (Err e, c'')
               | (Panic p, c'') \<Rightarrow> (Panic p, c'')
               | (Ok name, c'') \<Rightarrow>
                   list_loop (acc @ [\<lparr>Name = to_str name, StatError = statErr, Stat = fs\<rparr>]) c'')))"
  by pat_completeness auto
termination
  by (relation "measure (\<lambda>(acc, c). length (incoming c))")
    (auto dest!: ReadRaw_shrinks[OF sym] simp: FileStatSize_def)

declare list_loop.simps [simp del]

definition list_dir_on :: "string \<Rightarrow> conn \<Rightarrow> ListDirectoryEntry list res \<times> conn" where
  "list_dir_on path c =
     on_ok (open_emulator c) (\<lambda>c. c) (\<lambda>_ c.
     deferring do_close (
       on_ok (SendCommand (of_str ''sync:'') c) (\<lambda>c. c) (\<lambda>_ c.
       on_ok (WriteRaw (path_packet IdListV2 path) c) (\<lambda>c. c) (\<lambda>_ c.
       list_loop [] c))))"

definition ListDirectory :: "string \<Rightarrow> goerr + conn \<Rightarrow> ListDirectoryEntry list res \<times> conn option" where
  "ListDirectory path dial = NewRawConnection dial (list_dir_on path)"

subsection \<open>File status\<close>

definition stat_response :: "byte list \<Rightarrow> conn \<Rightarrow> (u32 \<times> FileStat) res \<times> conn" where
  "stat_response respPacket c =
     (let rid = Uint32 (slice 0 4 respPacket);
          statError = Uint32 (slice 4 8 respPacket)
      in if rid = IdFail then
           on_ok (ReadRaw (unat statError) c) (\<lambda>c. c) (\<lambda>msg c. (Err (NewError (to_str msg)), c))
         else if rid \<noteq> IdStatV2 \<and> rid \<noteq> IdLStatV2 then
           (Err (NewError ''unexpected response id''), c)
         else (Ok (statError, parseFileStat (slice 8 (8 + FileStatSize) respPacket)), c))"

definition stat_on :: "string \<Rightarrow> bool \<Rightarrow> conn \<Rightarrow> (u32 \<times> FileStat) res \<times> conn" where
  "stat_on path followLinks c =
     on_ok (open_emulator c) (\<lambda>c. c) (\<lambda>_ c.
     deferring do_close (
       on_ok (SendCommand (of_str ''sync:'') c) (\<lambda>c. c) (\<lambda>_ c.
       on_ok (WriteRaw (path_packet (if followLinks then IdStatV2 else IdLStatV2) path) c) (\<lambda>c. c) (\<lambda>_ c.
       on_ok (ReadRaw (FileStatSize + 8) c) (\<lambda>c. c) stat_response))))"

definition StatFile :: "string \<Rightarrow> bool \<Rightarrow> goerr + conn \<Rightarrow> (u32 \<times> FileStat) res \<times> conn option" where
  "StatFile path followLinks dial = NewRawConnection dial (stat_on path followLinks)"

subsection \<open>Pulling a file\<close>

definition recv_packet :: "string \<Rightarrow> byte list" where
  "recv_packet path = path_packet IdRecvV2 path @ PutUint32 IdRecvV2 @ PutUint32 0"

text \<open>The stream is the connection it wraps, which the caller has to close.\<close>

definition pull_start :: "string \<Rightarrow> conn \<Rightarrow> unit res \<times> conn" where
  "pull_start path c =
     on_ok (open_emulator c) (\<lambda>c. c) (\<lambda>_ c.
     on_ok (SendCommand (of_str ''sync:'') c) do_close (\<lambda>_ c.
     on_ok (WriteRaw (recv_packet path) c) do_close (\<lambda>_ c. (Ok (), c))))"

definition PullFile :: "string \<Rightarrow> goerr + conn \<Rightarrow> unit res \<times> conn option" where
  "PullFile path dial = NewRawConnection dial (pull_start path)"

text \<open>\<open>Ok None\<close> is the nil slice that marks the end of the file.\<close>

definition pull_Recv :: "conn \<Rightarrow> byte list option res \<times> conn" where
  "pull_Recv c =
     on_ok (ReadRaw 8 c) (\<lambda>c. c) (\<lambda>respPacket c.
     let rid = Uint32 (slice 0 4 respPacket); len = Uint32 (slice 4 8 respPacket)
     in on_ok (ReadRaw (unat len) c) (\<lambda>c. c) (\<lambda>blob c.
        if rid = IdFail then (Err (NewError (to_str blob)), do_close c)
        else if rid = IdData then (Ok (Some blob), c)
        else if rid = IdDone then (Ok None, do_close c)
        else (Err (NewError ''unexpected resp id''), do_close c)))"

definition stream_Close :: "conn \<Rightarrow> unit res \<times> conn" where
  "stream_Close c = Close c"

subsection \<open>Pushing a file\<close>

definition send_packet :: "string \<Rightarrow> u32 \<Rightarrow> byte list" where
  "send_packet path mode = path_packet IdSendV2 path @ PutUint32 IdSendV2 @ PutUint32 mode @ PutUint32 0"

definition push_start :: "string \<Rightarrow> u32 \<Rightarrow> conn \<Rightarrow> unit res \<times> conn" where
  "push_start path mode c =
     on_ok (open_emulator c) (\<lambda>c. c) (\<lambda>_ c.
     on_ok (SendCommand (of_str ''sync:'') c) do_close (\<lambda>_ c.
     on_ok (WriteRaw (send_packet path mode) c) do_close (\<lambda>_ c. (Ok (), c))))"

definition PushFile :: "string \<Rightarrow> u32 \<Rightarrow> goerr + conn \<Rightarrow> unit res \<times> conn option" where
  "PushFile path mode dial = NewRawConnection dial (push_start path mode)"

definition push_Close :: "conn \<Rightarrow> unit res \<times> conn" where
  "push_Close c = Close c"

definition push_Send :: "byte list \<Rightarrow> conn \<Rightarrow> unit res \<times> conn" where
  "push_Send blob c =
     (if length blob > MaxData
      then (Err (NewError ''send blob over max size''), do_close c)
      else on_ok (WriteRaw (PutUint32 IdData @ PutUint32 (word_of_nat (length blob))) c) do_close (\<lambda>_ c.
           on_ok (WriteRaw blob c) do_close (\<lambda>_ c. (Ok (), c))))"

text \<open>The error of writing the closing packet is overwritten by the read that follows.\<close>

definition push_Done :: "u32 \<Rightarrow> conn \<Rightarrow> unit res \<times> conn" where
  "push_Done mtime c = deferring do_close
     (let c = snd (WriteRaw (PutUint32 IdDone @ PutUint32 mtime) c)
      in on_ok (ReadRaw 8 c) (\<lambda>c. c) (\<lambda>respPacket c.
         let rid = Uint32 (slice 0 4 respPacket); len = Uint32 (slice 4 8 respPacket)
         in on_ok (ReadRaw (unat len) c) (\<lambda>c. c) (\<lambda>blob c.
            if rid = IdFail then (Err (NewError (to_str blob)), c)
            else if rid = IdOkay then (Ok (), c)
            else (Err (NewError ''unexpected resp id''), c))))"

subsection \<open>Contracts\<close>

lemma list_loop_step:
  "ReadRaw (FileStatSize + 12) c = (Ok p, c') \<Longrightarrow> list_loop acc c =
    (if Uint32 (slice 0 4 p) = IdDone then (Ok acc, c')
     else if Uint32 (slice 0 4 p) \<noteq> IdDentV2 then (Err (NewError ''unexpected response id''), c')
     else on_ok (ReadRaw (unat (Uint32 (slice (8 + FileStatSize) (12 + FileStatSize) p))) c') (\<lambda>c. c)
       (\<lambda>name c''. list_loop (acc @ [\<lparr>Name = to_str name, StatError = Uint32 (slice 4 8 p),
          Stat = parseFileStat (slice 8 (8 + FileStatSize) p)\<rparr>]) c''))"
  by (subst list_loop.simps) (simp add: Let_def on_ok_def split: prod.splits res.splits)

lemma list_loop_stop:
  "ReadRaw (FileStatSize + 12) c = (Err e, c') \<Longrightarrow> list_loop acc c = (Err e, c')"
  "ReadRaw (FileStatSize + 12) c = (Panic p, c') \<Longrightarrow> list_loop acc c = (Panic p, c')"
  by (simp_all add: list_loop.simps[of acc c])

text \<open>Induction along the entries: each iteration leaves less input.\<close>

lemma list_loop_induct [case_names step]:
  assumes "\<And>acc c. (\<And>acc' c'. length (incoming c') < length (incoming c) \<Longrightarrow> P acc' c') \<Longrightarrow> P acc c"
  shows "P acc c"
  by (induction "length (incoming c)" arbitrary: acc c rule: less_induct) (use assms in blast)

lemma list_loop_later: "later c (snd (list_loop acc c))"
proof (induction acc c rule: list_loop_induct)
  case (step acc c)
  have adv: "later c (snd (ReadRaw (FileStatSize + 12) c))" by (rule read_raw.advances)
  show ?case
  proof (cases "ReadRaw (FileStatSize + 12) c" rule: res_pair_cases)
    case (Ok p c1)
    let ?n = "unat (Uint32 (slice (8 + FileStatSize) (12 + FileStatSize) p))"
    have adv1: "later c1 (snd (ReadRaw ?n c1))" by (rule read_raw.advances)
    have "later c2 (snd (list_loop acc' c2))" if "ReadRaw ?n c1 = (Ok name, c2)" for name c2 acc'
      using ReadRaw_shrinks[OF Ok] ReadRaw_shrinks[OF that] by (intro step) (simp add: FileStatSize_def)
    then show ?thesis
      using adv adv1
      by (cases "ReadRaw ?n c1" rule: res_pair_cases) (auto simp: list_loop_step[OF Ok] Ok intro: later_trans)
  qed (use adv in \<open>auto simp: list_loop_stop\<close>)
qed

lemma list_loop_blind:
  "same_stream c d \<Longrightarrow> fst (list_loop acc c) = fst (list_loop acc d)
     \<and> same_stream (snd (list_loop acc c)) (snd (list_loop acc d))"
proof (induction acc c arbitrary: d rule: list_loop_induct)
  case (step acc c)
  from read_raw.blind[OF step.prems, of "FileStatSize + 12"] have bl:
    "fst (ReadRaw (FileStatSize + 12) c) = fst (ReadRaw (FileStatSize + 12) d)"
    "same_stream (snd (ReadRaw (FileStatSize + 12) c)) (snd (ReadRaw (FileStatSize + 12) d))"
    by auto
  show ?case
  proof (cases "ReadRaw (FileStatSize + 12) c" rule: res_pair_cases)
    case (Ok p c1)
    with bl obtain d1 where d1: "ReadRaw (FileStatSize + 12) d = (Ok p, d1)" "same_stream c1 d1"
      by (cases "ReadRaw (FileStatSize + 12) d") auto
    let ?n = "unat (Uint32 (slice (8 + FileStatSize) (12 + FileStatSize) p))"
    from read_raw.blind[OF d1(2), of ?n] have bl1: "fst (ReadRaw ?n c1) = fst (ReadRaw ?n d1)"
      "same_stream (snd (ReadRaw ?n c1)) (snd (ReadRaw ?n d1))" by auto
    have "fst (list_loop acc' c2) = fst (list_loop acc' d2) \<and> same_stream (snd (list_loop acc' c2)) (snd (list_loop acc' d2))"
      if "ReadRaw ?n c1 = (Ok name, c2)" "same_stream c2 d2" for name c2 d2 acc'
      using ReadRaw_shrinks[OF Ok] ReadRaw_shrinks[OF that(1)] that(2)
      by (intro step.IH) (simp_all add: FileStatSize_def)
    then show ?thesis
      using bl1 d1(2)
      by (cases "ReadRaw ?n c1" rule: res_pair_cases; cases "ReadRaw ?n d1")
        (auto simp: list_loop_step[OF Ok] list_loop_step[OF d1(1)])
  qed (use bl in \<open>cases "ReadRaw (FileStatSize + 12) d"; auto simp: list_loop_stop\<close>)+
qed

interpretation list_op: conn_op "list_loop acc" for acc
  by unfold_locales (simp_all add: list_loop_later list_loop_blind)

lemmas conn_op_list [conn_intros] = list_op.conn_op_axioms

interpretation list_dir_op: closing_op "list_dir_on path" for path
  unfolding list_dir_on_def[abs_def] by (intro conn_intros)

interpretation pull_start_op: closing_op "pull_start path" for path
  unfolding pull_start_def[abs_def] by (intro conn_intros)

interpretation push_start_op: closing_op "push_start path mode" for path mode
  unfolding push_start_def[abs_def] by (intro conn_intros)

interpretation pull_recv_op: closing_op pull_Recv
  unfolding pull_Recv_def[abs_def] Let_def by (intro conn_intros)

interpretation push_send_op: closing_op "push_Send blob" for blob
  unfolding push_Send_def[abs_def] Let_def by (intro conn_intros)

lemma conn_op_then [conn_intros]: "conn_op f \<Longrightarrow> conn_op g \<Longrightarrow> conn_op (\<lambda>c. g (snd (f c)))"
  by unfold_locales (auto intro: later_trans dest: conn_op.advances conn_op.blind simp: conn_op_def)

interpretation push_done_op: closing_op "push_Done mtime" for mtime
  unfolding push_Done_def[abs_def] Let_def by (intro conn_intros)

interpretation stat_op: closing_op "stat_on path followLinks" for path followLinks
  unfolding stat_on_def[abs_def] stat_response_def[abs_def] Let_def by (intro conn_intros)

subsection \<open>The device's side of the wire\<close>

definition stat_wire :: "FileStat \<Rightarrow> byte list" where
  "stat_wire s = PutUint64 (Dev s) @ PutUint64 (INo s) @ PutUint32 (Mode s) @ PutUint32 (NLink s)
     @ PutUint32 (UId s) @ PutUint32 (GId s) @ PutUint64 (Size s) @ PutUint64 (ATime s)
     @ PutUint64 (MTime s) @ PutUint64 (CTime s)"

definition dent_wire :: "ListDirectoryEntry \<Rightarrow> byte list" where
  "dent_wire e = PutUint32 IdDentV2 @ PutUint32 (StatError e) @ stat_wire (Stat e)
     @ PutUint32 (word_of_nat (length (Name e))) @ of_str (Name e)"

definition done_wire :: "byte list \<Rightarrow> byte list" where
  "done_wire pad = PutUint32 IdDone @ pad"

definition chunk_wire :: "u32 \<Rightarrow> byte list \<Rightarrow> byte list" where
  "chunk_wire rid d = PutUint32 rid @ PutUint32 (word_of_nat (length d)) @ d"

lemma slice_append_skip: "length x \<le> a \<Longrightarrow> slice a b (x @ y) = slice (a - length x) (b - length x) y"
  by (simp add: slice_def)

lemma slice_append_take: "length x = b \<Longrightarrow> slice 0 b (x @ y) = x"
  by (simp add: slice_def)

lemma slice_all: "length x = b \<Longrightarrow> slice 0 b x = x"
  by (simp add: slice_def)

lemma length_slice: "b \<le> length x \<Longrightarrow> length (slice a b x) = b - a"
  by (simp add: slice_def)

lemma slice_join:
  assumes "a \<le> b" "b \<le> c"
  shows "slice a b x @ slice b c x = slice a c x"
proof -
  have "take ((b - a) + (c - b)) (drop a x) = take (b - a) (drop a x) @ take (c - b) (drop (b - a) (drop a x))"
    by (rule take_add)
  then show ?thesis using assms by (simp add: slice_def)
qed

lemma slice_slice: "b \<le> c \<Longrightarrow> slice a b (slice 0 c x) = slice a b x"
  by (simp add: slice_def drop_take min_def)

lemmas slice_simps = slice_append_skip slice_append_take slice_all

interpretation stat_codec: codec stat_wire parseFileStat 64
proof
  fix s
  show "length (stat_wire s) = 64" by (simp add: stat_wire_def)
  show "parseFileStat (stat_wire s) = s"
    by (simp add: parseFileStat_def stat_wire_def slice_simps)
qed

lemma stat_wire_parse:
  assumes "length d = 64"
  shows "stat_wire (parseFileStat d) = d"
proof -
  have "stat_wire (parseFileStat d) = slice 0 8 d @ slice 8 16 d @ slice 16 20 d @ slice 20 24 d
    @ slice 24 28 d @ slice 28 32 d @ slice 32 40 d @ slice 40 48 d @ slice 48 56 d @ slice 56 64 d"
    using assms by (simp add: stat_wire_def parseFileStat_def PutUint32_Uint32 PutUint64_Uint64 length_slice)
  also have "\<dots> = slice 0 64 d"
    by (simp add: slice_join)
  finally show ?thesis using assms by (simp add: slice_all)
qed

text \<open>The first 76 bytes of an entry, and the shape of any 76 bytes that announce one.\<close>

definition dent_head :: "u32 \<Rightarrow> FileStat \<Rightarrow> u32 \<Rightarrow> byte list" where
  "dent_head e s n = PutUint32 IdDentV2 @ PutUint32 e @ stat_wire s @ PutUint32 n"

lemma dent_head_fields:
  "length (dent_head e s n) = 76"
  "Uint32 (slice 0 4 (dent_head e s n)) = IdDentV2"
  "Uint32 (slice 4 8 (dent_head e s n)) = e"
  "parseFileStat (slice 8 72 (dent_head e s n)) = s"
  "Uint32 (slice 72 76 (dent_head e s n)) = n"
  by (simp_all add: dent_head_def slice_simps stat_codec.enc_width stat_codec.dec_enc)

lemma dent_head_inverse:
  assumes "length p = 76" "Uint32 (slice 0 4 p) = IdDentV2"
  shows "p = dent_head (Uint32 (slice 4 8 p)) (parseFileStat (slice 8 72 p)) (Uint32 (slice 72 76 p))"
proof -
  have "dent_head (Uint32 (slice 4 8 p)) (parseFileStat (slice 8 72 p)) (Uint32 (slice 72 76 p))
    = slice 0 4 p @ slice 4 8 p @ slice 8 72 p @ slice 72 76 p"
    unfolding dent_head_def using assms
    by (simp add: PutUint32_Uint32 stat_wire_parse length_slice flip: assms(2))
  also have "\<dots> = p" using assms(1) by (simp add: slice_join slice_all)
  finally show ?thesis by simp
qed

lemma dent_wire_head:
  "dent_wire e = dent_head (StatError e) (Stat e) (word_of_nat (length (Name e))) @ of_str (Name e)"
  by (simp add: dent_wire_def dent_head_def)

lemma id_distinct [simp]: "IdDentV2 \<noteq> IdDone" "IdFail \<noteq> IdStatV2" "IdFail \<noteq> IdLStatV2"
  "IdData \<noteq> IdFail" "IdDone \<noteq> IdFail" "IdDone \<noteq> IdData" "IdOkay \<noteq> IdFail"
  by (simp_all add: id_values)

text \<open>Names a length field of 32 bits can announce.\<close>

definition name_fits :: "ListDirectoryEntry \<Rightarrow> bool" where
  "name_fits e \<longleftrightarrow> length (Name e) < 2 ^ 32"

lemma unat_of_length: "length x < 2 ^ 32 \<Longrightarrow> unat (word_of_nat (length x) :: u32) = length x"
  by (simp add: unat_of_nat take_bit_nat_eq_self)

lemma entry_eta: "\<lparr>Name = Name e, StatError = StatError e, Stat = Stat e\<rparr> = e"
  by (cases e) simp

lemma list_loop_wire:
  assumes "healthy c" "incoming c = concat (map dent_wire es) @ done_wire pad @ rest"
    "length pad = 72" "\<forall>e \<in> set es. name_fits e"
  shows "\<exists>c'. list_loop acc c = (Ok (acc @ es), c') \<and> incoming c' = rest \<and> outb c' = outb c"
  using assms
proof (induction es arbitrary: acc c)
  case Nil
  then have "ReadRaw (FileStatSize + 12) c = (Ok (done_wire pad), consume 76 c)"
    by (subst ReadRaw_prefix[of c "done_wire pad" rest]) (auto simp: FileStatSize_def done_wire_def)
  with Nil show ?case
    by (simp add: list_loop_step done_wire_def slice_simps)
next
  case (Cons e es)
  let ?h = "dent_head (StatError e) (Stat e) (word_of_nat (length (Name e)))"
  have fit: "length (Name e) < 2 ^ 32" using Cons.prems by (simp add: name_fits_def)
  have r1: "ReadRaw (FileStatSize + 12) c = (Ok ?h, consume 76 c)"
    using Cons.prems by (subst ReadRaw_prefix[of c ?h])
      (auto simp: FileStatSize_def dent_wire_head dent_head_fields)
  let ?c = "consume (length (Name e)) (consume 76 c)"
  have r2: "ReadRaw (length (Name e)) (consume 76 c) = (Ok (of_str (Name e)), ?c)"
    using Cons.prems by (subst ReadRaw_prefix[of _ "of_str (Name e)"])
      (auto simp: dent_wire_head dent_head_fields)
  have "incoming ?c = concat (map dent_wire es) @ done_wire pad @ rest"
    using Cons.prems by (simp add: dent_wire_head[of e] dent_head_fields)
  with Cons.IH[of ?c "acc @ [e]"] Cons.prems show ?case
    by (simp add: list_loop_step[OF r1] dent_head_fields FileStatSize_def r2 unat_of_length[OF fit] entry_eta)
qed

lemma ReadFull_Ok_split:
  assumes "ReadFull n c = (Ok d, c')"
  shows "incoming c = d @ incoming c' \<and> length d = n"
proof (cases "n = 0")
  case True
  then show ?thesis using assms by (simp add: ReadFull_def)
next
  case False
  then have op: "\<not> closed c" using assms by (auto simp: ReadFull_def)
  show ?thesis
    using ReadFull_eq(1)[OF op, of n] ReadFull_eq(2)[OF op, of n] assms by (auto split: if_splits)
qed

lemma ReadRaw_Ok_split:
  "ReadRaw n c = (Ok d, c') \<Longrightarrow> incoming c = d @ incoming c' \<and> length d = n"
  by (auto simp: ReadRaw_def on_ok_eq_Ok dest: ReadFull_Ok_split)

lemma name_field:
  assumes "length name = unat (n :: u32)"
  shows "word_of_nat (length name) = n" "length name < 2 ^ 32"
  using assms unsigned_less[of n] by simp_all

lemma list_loop_Ok:
  "list_loop acc c = (Ok es', c') \<Longrightarrow> \<exists>es pad. es' = acc @ es
     \<and> incoming c = concat (map dent_wire es) @ done_wire pad @ incoming c'
     \<and> length pad = 72 \<and> (\<forall>e \<in> set es. name_fits e)"
proof (induction acc c rule: list_loop_induct)
  case (step acc c)
  obtain p c1 where p: "ReadRaw (FileStatSize + 12) c = (Ok p, c1)"
    using step.prems by (cases "ReadRaw (FileStatSize + 12) c" rule: res_pair_cases) (auto simp: list_loop_stop)
  then have p76: "incoming c = p @ incoming c1" "length p = 76"
    by (auto dest: ReadRaw_Ok_split simp: FileStatSize_def)
  let ?id = "Uint32 (slice 0 4 p)" and ?n = "Uint32 (slice 72 76 p)"
  show ?case
  proof (cases "?id = IdDone")
    case True
    then have "p = done_wire (slice 4 76 p)"
      using p76(2) PutUint32_Uint32[of "slice 0 4 p"]
      by (simp add: done_wire_def length_slice slice_join slice_all flip: True)
    moreover have "es' = acc" "c' = c1" using step.prems True by (simp_all add: list_loop_step[OF p])
    ultimately show ?thesis
      using p76 by (intro exI[of _ "[]"] exI[of _ "slice 4 76 p"]) (auto simp: length_slice)
  next
    case False
    with step.prems have dent: "?id = IdDentV2"
      by (auto simp: list_loop_step[OF p] split: if_splits)
    with False step.prems obtain name c2 where
      name: "ReadRaw (unat ?n) c1 = (Ok name, c2)" and
      rec: "list_loop (acc @ [\<lparr>Name = to_str name, StatError = Uint32 (slice 4 8 p),
              Stat = parseFileStat (slice 8 72 p)\<rparr>]) c2 = (Ok es', c')"
      by (auto simp: list_loop_step[OF p] on_ok_eq_Ok FileStatSize_def)
    let ?e = "\<lparr>Name = to_str name, StatError = Uint32 (slice 4 8 p), Stat = parseFileStat (slice 8 72 p)\<rparr>"
    have nm: "incoming c1 = name @ incoming c2" "length name = unat ?n"
      using ReadRaw_Ok_split[OF name] by auto
    have "length (incoming c2) < length (incoming c)"
      using p76 nm by simp
    from step.IH[OF this rec] obtain es pad where
      es: "es' = acc @ ?e # es" "incoming c2 = concat (map dent_wire es) @ done_wire pad @ incoming c'"
        "length pad = 72" "\<forall>e \<in> set es. name_fits e" by auto
    have "dent_wire ?e = p @ name"
      using dent_head_inverse[OF p76(2) dent] name_field(1)[OF nm(2)]
      by (simp add: dent_wire_head)
    then show ?thesis
      using p76 nm es name_field(2)[OF nm(2)]
      by (intro exI[of _ "?e # es"] exI[of _ pad]) (simp add: name_fits_def)
  qed
qed

subsection \<open>What the operations return\<close>

lemma sys_send_Ok_split:
  assumes "healthy c" "sys_SendCommand cmd c = (Ok u, c')"
  shows "(\<exists>rest. incoming c = of_str ''OKAY'' @ rest) \<and> c' = consume 4 (emit (message_packet cmd) c)"
proof -
  let ?c = "emit (message_packet cmd) c"
  obtain st where st: "ReadFull 4 ?c = (Ok st, c')" "st = of_str ''OKAY''"
    using assms by (cases "ReadFull 4 ?c" rule: res_pair_cases)
      (auto simp: sys_SendCommand_def SendCommand_def WriteMessage_ok ReadStatus_def on_ok_eq_Ok
        to_str_eq_iff split: if_splits)
  then have inc: "incoming c = of_str ''OKAY'' @ incoming c'"
    using ReadFull_Ok_split[of 4 ?c st c'] by simp
  then have "ReadFull 4 ?c = (Ok st, consume 4 ?c)"
    using st assms(1) by (intro ReadFull_prefix[of _ _ "incoming c'"]) simp_all
  then have "c' = consume 4 ?c" using st by simp
  with inc show ?thesis by blast
qed

lemma SendCommand_sys: "SendCommand cmd c = (Ok u, c') \<longleftrightarrow> sys_SendCommand cmd c = (Ok u, c')"
  by (auto simp: sys_SendCommand_def on_ok_eq_Ok)

definition sync_request :: "byte list \<Rightarrow> byte list" where
  "sync_request req = message_packet (of_str ''host:transport-local'') @ message_packet (of_str ''sync:'') @ req"

text \<open>The prologue of every operation, on a healthy connection.\<close>

lemma sync_prologue:
  assumes "healthy c"
  shows "on_ok (open_emulator c) (\<lambda>c. c) (\<lambda>_ c. on_ok (SendCommand (of_str ''sync:'') c) cl (\<lambda>_ c.
      on_ok (WriteRaw req c) cl' (\<lambda>_ c. k c))) = (Ok r, c')
    \<longleftrightarrow> (\<exists>rest. incoming c = of_str ''OKAY'' @ of_str ''OKAY'' @ rest \<and>
      k (emit req (consume 4 (emit (message_packet (of_str ''sync:'')) (consume 4 (emit (message_packet (of_str ''host:transport-local'')) c))))) = (Ok r, c'))"
  (is "?L \<longleftrightarrow> ?R")
proof
  assume ?L
  then obtain u c1 u' c2 where
    o: "sys_SendCommand (of_str ''host:transport-local'') c = (Ok u, c1)" and
    s: "SendCommand (of_str ''sync:'') c1 = (Ok u', c2)" and
    k: "on_ok (WriteRaw req c2) cl' (\<lambda>_ c. k c) = (Ok r, c')"
    by (auto simp: on_ok_eq_Ok open_emulator_def)
  obtain r1 where a: "incoming c = of_str ''OKAY'' @ r1"
      "c1 = consume 4 (emit (message_packet (of_str ''host:transport-local'')) c)"
    using sys_send_Ok_split[OF assms o] by blast
  then have h1: "healthy c1" using assms by simp
  obtain r2 where b: "incoming c1 = of_str ''OKAY'' @ r2"
      "c2 = consume 4 (emit (message_packet (of_str ''sync:'')) c1)"
    using sys_send_Ok_split[OF h1 s[unfolded SendCommand_sys]] by blast
  then have "healthy c2" using h1 by simp
  with k have "k (emit req c2) = (Ok r, c')" by (simp add: WriteRaw_ok)
  moreover have "r1 = of_str ''OKAY'' @ r2" using a b by simp
  ultimately show ?R using a b by blast
next
  assume ?R
  then obtain rest where inc: "incoming c = of_str ''OKAY'' @ of_str ''OKAY'' @ rest" and
    k: "k (emit req (consume 4 (emit (message_packet (of_str ''sync:'')) (consume 4 (emit (message_packet (of_str ''host:transport-local'')) c))))) = (Ok r, c')"
    by blast
  let ?c1 = "consume 4 (emit (message_packet (of_str ''host:transport-local'')) c)"
  have "SendCommand (of_str ''sync:'') ?c1 = (Ok (), consume 4 (emit (message_packet (of_str ''sync:'')) ?c1))"
    using assms inc by (intro SendCommand_okay[of _ rest]) simp_all
  then show ?L
    using k assms by (simp add: open_emulator_okay[OF assms inc] WriteRaw_ok)
qed

lemma deferring_on_ok:
  "on_ok x cl (\<lambda>_ c. deferring do_close (g c)) = (Ok r, c')
    \<longleftrightarrow> (\<exists>c2. on_ok x cl (\<lambda>_ c. g c) = (Ok r, c2) \<and> c' = do_close c2)"
proof (cases x rule: res_pair_cases)
  case (Ok a s)
  then show ?thesis by (cases "g s") (auto simp: deferring_def)
qed simp_all

lemma list_dir_Ok_iff:
  assumes "healthy c"
  shows "list_dir_on path c = (Ok es, c') \<longleftrightarrow>
    (\<exists>c2. c' = do_close c2 \<and> (\<exists>rest. incoming c = of_str ''OKAY'' @ of_str ''OKAY'' @ rest) \<and>
      list_loop [] (emit (path_packet IdListV2 path) (consume 4 (emit (message_packet (of_str ''sync:''))
        (consume 4 (emit (message_packet (of_str ''host:transport-local'')) c))))) = (Ok es, c2))"
  unfolding list_dir_on_def deferring_on_ok sync_prologue[OF assms] by blast

lemma ListDirectory_wire:
  assumes "healthy c"
  shows "(\<exists>c'. ListDirectory path (Inr c) = (Ok es, Some c')) \<longleftrightarrow>
    (\<exists>pad rest. incoming c = of_str ''OKAY'' @ of_str ''OKAY'' @ concat (map dent_wire es) @ done_wire pad @ rest
       \<and> length pad = 72 \<and> (\<forall>e \<in> set es. name_fits e))"
  (is "?L \<longleftrightarrow> ?R")
proof
  let ?req = "emit (path_packet IdListV2 path) (consume 4 (emit (message_packet (of_str ''sync:''))
      (consume 4 (emit (message_packet (of_str ''host:transport-local'')) c))))"
  {
    assume ?L
    then obtain c2 rest where inc: "incoming c = of_str ''OKAY'' @ of_str ''OKAY'' @ rest"
      and l: "list_loop [] ?req = (Ok es, c2)"
      by (cases "list_dir_on path c")
        (auto simp: ListDirectory_def NewRawConnection_def list_dir_Ok_iff[OF assms])
    from list_loop_Ok[OF l] inc show ?R by auto
  next
    assume ?R
    then obtain pad rest where inc: "incoming c = of_str ''OKAY'' @ of_str ''OKAY'' @ concat (map dent_wire es) @ done_wire pad @ rest"
      and fit: "length pad = 72" "\<forall>e \<in> set es. name_fits e" by blast
    from list_loop_wire[of ?req es pad rest "[]"] inc fit assms obtain c2 where
      "list_loop [] ?req = (Ok es, c2)" by auto
    with inc have "list_dir_on path c = (Ok es, do_close c2)"
      unfolding list_dir_Ok_iff[OF assms] by blast
    then show ?L
      by (simp add: ListDirectory_def NewRawConnection_def)
  }
qed

text \<open>What the device is sent for a listing: the command of the connection, the service and the request with the path.\<close>

lemma list_request: "path_packet IdListV2 path = of_str ''LIS2'' @ PutUint32 (word_of_nat (length path)) @ of_str path"
  by (simp add: path_packet_def PutUint32_def id_values of_str_def)

lemma list_loop_sends:
  assumes "healthy c" "list_loop [] c = (Ok es, c')"
  shows "outb c' = outb c"
proof -
  obtain es' pad where w: "es = es'" "incoming c = concat (map dent_wire es') @ done_wire pad @ incoming c'"
    "length pad = 72" "\<forall>e \<in> set es'. name_fits e"
    using list_loop_Ok[OF assms(2)] by auto
  from list_loop_wire[OF assms(1) w(2-4), of "[]"] assms(2) show ?thesis by auto
qed

lemma ListDirectory_sends:
  assumes "healthy c" "ListDirectory path (Inr c) = (Ok es, Some c')"
  shows "closed c' \<and> outb c' = outb c @ sync_request (of_str ''LIS2'' @ PutUint32 (word_of_nat (length path)) @ of_str path)"
proof -
  let ?req = "emit (path_packet IdListV2 path) (consume 4 (emit (message_packet (of_str ''sync:''))
      (consume 4 (emit (message_packet (of_str ''host:transport-local'')) c))))"
  have "list_dir_on path c = (Ok es, c')"
    using assms(2) by (cases "list_dir_on path c") (simp add: ListDirectory_def NewRawConnection_def)
  then obtain c2 where c2: "c' = do_close c2" "list_loop [] ?req = (Ok es, c2)"
    unfolding list_dir_Ok_iff[OF assms(1)] by blast
  then have "outb c2 = outb ?req" using assms(1) by (intro list_loop_sends) simp_all
  then show ?thesis using c2(1) by (simp add: sync_request_def list_request)
qed

text \<open>C8: \<open>ListDirectory\<close> on a healthy connection returns a listing exactly when the device accepted
  both commands, sent these entries in this order, and closed the list: no entry is lost, invented,
  reordered or misparsed, and a stream that ends early gives no listing. What it has sent by then is the
  command of the connection, the service and the request for a listing of this path, and the connection is closed.\<close>

theorem ListDirectory_exact:
  assumes "healthy c"
  shows "((\<exists>c'. ListDirectory path (Inr c) = (Ok es, Some c')) \<longleftrightarrow>
      (\<exists>pad rest. incoming c = of_str ''OKAY'' @ of_str ''OKAY'' @ concat (map dent_wire es) @ done_wire pad @ rest
         \<and> length pad = 72 \<and> (\<forall>e \<in> set es. name_fits e))) \<and>
    (\<forall>c'. ListDirectory path (Inr c) = (Ok es, Some c') \<longrightarrow> closed c' \<and>
       outb c' = outb c @ message_packet (of_str ''host:transport-local'') @ message_packet (of_str ''sync:'') @
         of_str ''LIS2'' @ PutUint32 (word_of_nat (length path)) @ of_str path)"
  using ListDirectory_wire[OF assms] ListDirectory_sends[OF assms] by (auto simp: sync_request_def)

definition sample_stat :: FileStat where
  "sample_stat = parseFileStat (replicate 64 1)"

definition sample_entries :: "ListDirectoryEntry list" where
  "sample_entries = [\<lparr>Name = ''f'', StatError = 0, Stat = sample_stat\<rparr>, \<lparr>Name = ''lost'', StatError = 2, Stat = sample_stat\<rparr>]"

theorem ListDirectory_exact_witness:
  "\<exists>c'. ListDirectory ''/d'' (Inr (peer_conn (of_str ''OKAY'' @ of_str ''OKAY'' @ concat (map dent_wire sample_entries) @
        done_wire (replicate 72 0)))) = (Ok sample_entries, Some c') \<and>
     closed c' \<and> outb c' = of_str ''0014host:transport-local0005sync:LIS2'' @ [2, 0, 0, 0] @ of_str ''/d''"
proof -
  let ?c = "peer_conn (of_str ''OKAY'' @ of_str ''OKAY'' @ concat (map dent_wire sample_entries) @ done_wire (replicate 72 0))"
  have h: "healthy ?c" by simp
  note L = ListDirectory_exact[OF h, of "''/d''" sample_entries]
  have "\<exists>pad rest. incoming ?c = of_str ''OKAY'' @ of_str ''OKAY'' @ concat (map dent_wire sample_entries) @ done_wire pad @ rest
      \<and> length pad = 72 \<and> (\<forall>e \<in> set sample_entries. name_fits e)"
    by (intro exI[of _ "replicate 72 0"] exI[of _ "[]"]) (simp add: sample_entries_def name_fits_def)
  then obtain c' where c': "ListDirectory ''/d'' (Inr ?c) = (Ok sample_entries, Some c')" using L by blast
  then have "closed c'" "outb c' = message_packet (of_str ''host:transport-local'') @ message_packet (of_str ''sync:'') @
      of_str ''LIS2'' @ PutUint32 (word_of_nat (length ''/d'')) @ of_str ''/d''" using L by simp_all
  moreover have "fmt_04x 20 = ''0014''" "fmt_04x 5 = ''0005''" by code_simp+
  then have "message_packet (of_str ''host:transport-local'') = of_str ''0014host:transport-local''"
    "message_packet (of_str ''sync:'') = of_str ''0005sync:''"
    by (simp_all add: message_packet_def of_str_def eval_nat_numeral)
  moreover have "PutUint32 (word_of_nat (length ''/d'')) = [2, 0, 0, 0]" by (simp add: PutUint32_def)
  ultimately show ?thesis using c' by (auto simp: of_str_def)
qed

lemma on_ok_deferring_closed:
  assumes "closing_op f" "on_ok (f c) (\<lambda>c. c) (\<lambda>_ c. deferring do_close (g c)) = (r, c')" "\<not> is_panic r"
  shows "closed c'"
  using assms closing_op.err_closes[OF assms(1), of c]
  by (cases "f c" rule: res_pair_cases) (auto simp: deferring_def)

lemma NewRawConnection_Some:
  "NewRawConnection dial k = (r, Some c') \<longleftrightarrow> (\<exists>c. dial = Inr c \<and> k c = (r, c'))"
  by (auto simp: NewRawConnection_def map_prod_def split: sum.splits prod.splits)

lemma ends_closed:
  "list_dir_on path c = (r, c') \<Longrightarrow> \<not> is_panic r \<Longrightarrow> closed c'"
  "stat_on path fl c = (s, c') \<Longrightarrow> \<not> is_panic s \<Longrightarrow> closed c'"
  unfolding list_dir_on_def stat_on_def
  by (erule on_ok_deferring_closed[OF open_emu.closing_op_axioms]; simp)+

lemma closing_opD: "closing_op f \<Longrightarrow> f c = (Err e, c') \<Longrightarrow> closed c'"
  using closing_op.err_closes[of f c e] by simp

text \<open>C10: No operation leaks a connection. \<open>ListDirectory\<close>, \<open>StatFile\<close>, \<open>ExecuteCommand\<close> and
  \<open>WaitForEmulator\<close> leave the connection they dialled closed whenever they return; \<open>OpenEmulator\<close>,
  \<open>PullFile\<close> and \<open>PushFile\<close>, which hand it to their caller, close it on every error.\<close>

theorem adb_no_leak:
  "(ListDirectory path dial = (r1, Some c) \<and> \<not> is_panic r1 \<longrightarrow> closed c) \<and>
   (StatFile path followLinks dial = (r2, Some c) \<and> \<not> is_panic r2 \<longrightarrow> closed c) \<and>
   (ExecuteCommand cmd hasBody dial = (r3, Some c) \<and> \<not> is_panic r3 \<longrightarrow> closed c) \<and>
   (WaitForEmulator dial = (r4, Some c) \<and> \<not> is_panic r4 \<longrightarrow> closed c) \<and>
   (OpenEmulator dial = (Err e, Some c) \<longrightarrow> closed c) \<and>
   (PullFile path dial = (Err e, Some c) \<longrightarrow> closed c) \<and>
   (PushFile path mode dial = (Err e, Some c) \<longrightarrow> closed c)"
proof -
  have "closed c" if "ExecuteCommand cmd hasBody dial = (r3, Some c)" "\<not> is_panic r3"
    using that unfolding ExecuteCommand_def NewRawConnection_Some
    by (auto dest: on_ok_deferring_closed[OF sys_send.closing_op_axioms])
  moreover have "closed c" if "WaitForEmulator dial = (r4, Some c)" "\<not> is_panic r4"
    using that unfolding WaitForEmulator_def NewRawConnection_Some
    by (auto dest: on_ok_deferring_closed[OF sys_send.closing_op_axioms])
  ultimately show ?thesis
    by (auto simp: ListDirectory_def StatFile_def OpenEmulator_def PullFile_def PushFile_def
        NewRawConnection_Some dest: ends_closed closing_opD[OF open_emu.closing_op_axioms]
        closing_opD[OF pull_start_op.closing_op_axioms] closing_opD[OF push_start_op.closing_op_axioms])
qed

theorem adb_no_leak_witness:
  "\<exists>c. OpenEmulator (Inr (peer_conn (of_str ''FAIL0002no''))) = (Err (NewError ''server error: no''), Some c) \<and> closed c"
proof -
  have "fmt_04x 2 = ''0002''" by code_simp
  then have m: "message_packet (of_str ''no'') = of_str ''0002no''"
    by (simp add: message_packet_def of_str_def numeral_2_eq_2)
  have inc: "incoming (peer_conn (of_str ''FAIL0002no'')) = of_str ''FAIL'' @ message_packet (of_str ''no'') @ []"
    unfolding m by (simp add: of_str_def)
  obtain c where "SendCommand (of_str ''host:transport-local'') (peer_conn (of_str ''FAIL0002no''))
      = (Err (NewError (''server error: '' @ to_str (of_str ''no''))), c)"
    using SendCommand_refused[OF peer_conn_simps(1) inc] by simp
  then have "OpenEmulator (Inr (peer_conn (of_str ''FAIL0002no''))) = (Err (NewError ''server error: no''), Some (do_close c))"
    by (simp add: OpenEmulator_def NewRawConnection_def open_emulator_def sys_SendCommand_def)
  then show ?thesis
    using adb_no_leak[of _ _ _ "do_close c"] by blast
qed

subsection \<open>Transfers\<close>

lemma chunk_fields:
  "Uint32 (slice 0 4 (PutUint32 rid @ PutUint32 n)) = rid"
  "Uint32 (slice 4 8 (PutUint32 rid @ PutUint32 n)) = n"
  by (simp_all add: slice_simps)

lemma pull_Recv_frame:
  assumes "healthy c" "incoming c = chunk_wire rid d @ rest" "length d < 2 ^ 32"
  shows "pull_Recv c =
    (let c' = consume (length d) (consume 8 c)
     in if rid = IdFail then (Err (NewError (to_str d)), do_close c')
        else if rid = IdData then (Ok (Some d), c')
        else if rid = IdDone then (Ok None, do_close c')
        else (Err (NewError ''unexpected resp id''), do_close c'))"
proof -
  let ?h = "PutUint32 rid @ PutUint32 (word_of_nat (length d))"
  have "ReadRaw 8 c = (Ok ?h, consume 8 c)"
    using assms by (intro ReadRaw_prefix[of _ _ "d @ rest"]) (simp_all add: chunk_wire_def)
  moreover have "ReadRaw (length d) (consume 8 c) = (Ok d, consume (length d) (consume 8 c))"
    using assms by (intro ReadRaw_prefix[of _ _ rest]) (simp_all add: chunk_wire_def)
  ultimately show ?thesis
    using assms(3) by (simp add: pull_Recv_def chunk_fields unat_of_length Let_def)
qed

definition data_frame :: "byte list option \<Rightarrow> byte list" where
  "data_frame m = chunk_wire IdData (case m of Some d \<Rightarrow> d | None \<Rightarrow> [])"

definition data_fits :: "byte list option \<Rightarrow> bool" where
  "data_fits m \<longleftrightarrow> (case m of None \<Rightarrow> False | Some d \<Rightarrow> length d < 2 ^ 32)"

interpretation pull_chunks: framing data_frame pull_Recv data_fits
proof
  fix c m rest
  assume "healthy c" "incoming c = data_frame m @ rest" "data_fits m"
  moreover then obtain d where "m = Some d" "length d < 2 ^ 32"
    by (auto simp: data_fits_def split: option.splits)
  ultimately show "\<exists>c'. pull_Recv c = (Ok m, c') \<and> incoming c' = rest \<and> healthy c' \<and> outb c' = outb c"
    using pull_Recv_frame[of c IdData d rest] by (simp add: data_frame_def Let_def chunk_wire_def)
qed

lemma push_Send_ok:
  "healthy c \<Longrightarrow> length d \<le> MaxData \<Longrightarrow>
   \<exists>c'. push_Send d c = (Ok (), c') \<and> healthy c' \<and> outb c' = outb c @ data_frame (Some d) \<and> incoming c' = incoming c"
  by (simp add: push_Send_def WriteRaw_ok data_frame_def chunk_wire_def)

text \<open>Sending one block after the other, as the caller of a push stream does.\<close>

fun push_all :: "byte list list \<Rightarrow> conn \<Rightarrow> unit res \<times> conn" where
  "push_all [] c = (Ok (), c)"
| "push_all (d # ds) c = on_ok (push_Send d c) (\<lambda>c. c) (\<lambda>_ c. push_all ds c)"

lemma push_all_ok:
  "healthy c \<Longrightarrow> \<forall>d \<in> set ds. length d \<le> MaxData \<Longrightarrow>
   \<exists>c'. push_all ds c = (Ok (), c') \<and> healthy c' \<and> incoming c' = incoming c
     \<and> outb c' = outb c @ concat (map data_frame (map Some ds))"
proof (induction ds arbitrary: c)
  case (Cons d ds)
  then obtain c1 where c1: "push_Send d c = (Ok (), c1)" "healthy c1"
      "outb c1 = outb c @ data_frame (Some d)" "incoming c1 = incoming c"
    using push_Send_ok[of c d] by auto
  with Cons.IH[of c1] Cons.prems show ?case by auto
qed simp

lemma ReadFull_closed: "closed c \<Longrightarrow> 0 < n \<Longrightarrow> ReadFull n c = (Err NetClosed, c)"
  by (simp add: ReadFull_def)

lemma push_Done_write_failed:
  assumes "fst (WriteRaw (PutUint32 IdDone @ PutUint32 mtime) c) = Err e"
  shows "fst (push_Done mtime c) = Err NetClosed"
proof -
  have "closed (snd (WriteRaw (PutUint32 IdDone @ PutUint32 mtime) c))"
    using closing_op.err_closes[OF closing_op_WriteRaw assms] .
  then show ?thesis
    by (simp add: push_Done_def Let_def ReadRaw_def ReadFull_closed)
qed

lemma WriteRaw_incoming: "incoming (snd (WriteRaw p c)) = incoming c"
  by (rule WriteRaw_cases[of p c])
    (auto simp: net_write_def incoming_def Close_def net_close_def split: list.splits wres.splits option.splits)

lemma receipt_shape:
  "length p = 8 \<Longrightarrow> p = PutUint32 (Uint32 (slice 0 4 p)) @ PutUint32 (Uint32 (slice 4 8 p))"
  by (simp add: PutUint32_Uint32 length_slice slice_join slice_all)

lemma push_Done_Ok:
  assumes "push_Done mtime c = (Ok u, c')"
  shows "\<exists>msg rest. incoming c = chunk_wire IdOkay msg @ rest \<and> length msg < 2 ^ 32"
proof -
  let ?c = "snd (WriteRaw (PutUint32 IdDone @ PutUint32 mtime) c)"
  obtain p c1 blob c2 where p: "ReadRaw 8 ?c = (Ok p, c1)"
    and blob: "ReadRaw (unat (Uint32 (slice 4 8 p))) c1 = (Ok blob, c2)"
    and id: "Uint32 (slice 0 4 p) = IdOkay"
    using assms
    by (cases "ReadRaw 8 ?c" rule: res_pair_cases)
      (auto simp: push_Done_def Let_def deferring_def prod_eq_iff on_ok_def split: res.splits prod.splits if_splits)
  from ReadRaw_Ok_split[OF p] ReadRaw_Ok_split[OF blob] have
    sp: "incoming c = p @ blob @ incoming c2" "length p = 8" "length blob = unat (Uint32 (slice 4 8 p))"
    by (simp_all add: WriteRaw_incoming)
  have "p @ blob = chunk_wire IdOkay blob"
    using receipt_shape[OF sp(2)] name_field(1)[OF sp(3)] id by (simp add: chunk_wire_def)
  then show ?thesis
    using sp(1) name_field(2)[OF sp(3)] by (metis append.assoc)
qed

text \<open>C2: The blocks of a push stream, each at most \<^verbatim>\<open>MaxData\<close> bytes, are accepted and written so that
  a pull stream reading the bytes gets back the same blocks in the same order, and then whatever
  follows; a block over the limit is refused, with nothing written and the connection closed.\<close>

theorem push_pull_roundtrip:
  assumes "healthy c" "outb c = []" "healthy d" "\<forall>b \<in> set bs. length b \<le> MaxData"
  shows "(\<exists>c'. push_all bs c = (Ok (), c') \<and>
      (\<forall>rest. incoming d = outb c' @ rest \<longrightarrow>
        (\<exists>d'. recv_many pull_Recv (length bs) d = (Ok (map Some bs), d') \<and> incoming d' = rest))) \<and>
    (\<forall>b. MaxData < length b \<longrightarrow>
      push_Send b c = (Err (NewError ''send blob over max size''), do_close c))"
proof -
  obtain c' where "push_all bs c = (Ok (), c')" "outb c' = concat (map data_frame (map Some bs))"
    using push_all_ok[OF assms(1,4)] assms(2) by auto
  moreover have "\<forall>m \<in> set (map Some bs). data_fits m"
    using assms(4) by (auto simp: data_fits_def MaxData_def)
  ultimately show ?thesis
    using pull_chunks.recv_stream[OF assms(3), of "map Some bs"] by (auto simp: push_Send_def)
qed

theorem push_pull_roundtrip_witness:
  "\<exists>c'. push_all [[1], [2, 3]] (peer_conn []) = (Ok (), c')"
  using push_pull_roundtrip[of "peer_conn []" "peer_conn []" "[[1], [2, 3]]"]
  by (auto simp: MaxData_def)

text \<open>\<open>Done\<close> does not look at the result of writing its packet, but loses no error by it: a failed
  write makes it fail, it succeeds only if the device sent an \<^verbatim>\<open>OKAY\<close> receipt, and the connection
  is closed in every case.\<close>

lemma push_Done_reports:
  "closed (snd (push_Done mtime c)) \<and>
   (fst (WriteRaw (PutUint32 IdDone @ PutUint32 mtime) c) = Err e \<longrightarrow> fst (push_Done mtime c) = Err NetClosed) \<and>
   (fst (push_Done mtime c) = Ok () \<longrightarrow>
      (\<exists>msg rest. incoming c = chunk_wire IdOkay msg @ rest \<and> length msg < 2 ^ 32))"
proof -
  have "closed (snd (push_Done mtime c))"
    by (simp add: push_Done_def)
  then show ?thesis
    using push_Done_write_failed[of mtime c e] push_Done_Ok[of mtime c "()"]
    by (metis prod.collapse)
qed

lemma push_Done_reports_witness:
  "fst (push_Done 7 (peer_conn []\<lparr>wscript := [WFail 3 (SysError ''broken pipe'')]\<rparr>)) = Err NetClosed"
  using push_Done_reports[of 7 "peer_conn []\<lparr>wscript := [WFail 3 (SysError ''broken pipe'')]\<rparr>" "SysError ''broken pipe''"]
  by (simp add: WriteRaw_def net_write_def peer_conn_def)

end
