(* ===== verification/Grpc.thy ===== *)
theory Grpc
  imports Prelude
begin

text \<open>
  The two ends of a gRPC stream as the code uses them. A sink records what has been sent and is given
  the outcomes of its sends; a source is given the messages still to come and the error after them,
  \<^verbatim>\<open>io.EOF\<close> when the other side ends the stream. What one side sends, the other receives, in order;
  a \<^verbatim>\<open>bytes\<close> field does not tell an empty slice from nil on the wire, and arrives as nil.
\<close>

record 'm sink =
  sent :: "'m list"
  send_fail :: "goerr option list"
  send_closed :: bool

record 'm source =
  msgs :: "'m list"
  rend :: goerr

definition new_sink :: "'m sink" where
  "new_sink = \<lparr>sent = [], send_fail = [], send_closed = False\<rparr>"

definition grpc_send :: "'m \<Rightarrow> 'm sink \<Rightarrow> unit res \<times> 'm sink" where
  "grpc_send m s = (case send_fail s of
     [] \<Rightarrow> (Ok (), s\<lparr>sent := sent s @ [m]\<rparr>)
   | None # fs \<Rightarrow> (Ok (), s\<lparr>sent := sent s @ [m], send_fail := fs\<rparr>)
   | Some e # fs \<Rightarrow> (Err e, s\<lparr>send_fail := fs\<rparr>))"

definition CloseSend :: "'m sink \<Rightarrow> 'm sink" where
  "CloseSend s = s\<lparr>send_closed := True\<rparr>"

definition grpc_recv :: "'m source \<Rightarrow> 'm res \<times> 'm source" where
  "grpc_recv s = (case msgs s of [] \<Rightarrow> (Err (rend s), s) | m # ms \<Rightarrow> (Ok m, s\<lparr>msgs := ms\<rparr>))"

text \<open>\<^verbatim>\<open>bytes\<close> as received\<close>

definition wire_bytes :: "byte list \<Rightarrow> byte list option" where
  "wire_bytes b = (if b = [] then None else Some b)"

text \<open>A sink none of whose sends will fail\<close>

definition no_fail :: "'m sink \<Rightarrow> bool" where
  "no_fail s \<longleftrightarrow> send_fail s = []"

lemma grpc_send_ok: "send_fail s = [] \<Longrightarrow> grpc_send m s = (Ok (), s\<lparr>sent := sent s @ [m]\<rparr>)"
  by (simp add: grpc_send_def)

lemma grpc_recv_simps [simp]:
  "grpc_recv \<lparr>msgs = [], rend = e\<rparr> = (Err e, \<lparr>msgs = [], rend = e\<rparr>)"
  "grpc_recv \<lparr>msgs = m # ms, rend = e\<rparr> = (Ok m, \<lparr>msgs = ms, rend = e\<rparr>)"
  by (simp_all add: grpc_recv_def)

text \<open>Sending never takes back what has been sent.\<close>

lemma grpc_send_prefix: "\<exists>ms. sent (snd (grpc_send m s)) = sent s @ ms"
  by (auto simp: grpc_send_def split: list.splits option.splits)

end
