(* ===== verification/SyncServer.thy ===== *)
theory SyncServer
  imports AdbSync Protocol Grpc
begin

text \<open>
  \<^verbatim>\<open>agent/server/sync/sync.go\<close>: the agent's side of the file operations, which translates between the
  adb client and the messages of the protocol. The connection dialled for an operation is given as the
  outcome of the dial, as in \<open>AdbSync\<close>, and returned as the operation leaves it.
\<close>

definition convertFileStat :: "FileStat \<Rightarrow> FileStat_pb" where
  "convertFileStat stat = \<lparr>
     FileStat_Dev = Dev stat,
     FileStat_Ino = INo stat,
     FileStat_Mode = Mode stat,
     FileStat_Nlink = NLink stat,
     FileStat_Uid = UId stat,
     FileStat_Gid = GId stat,
     FileStat_Size = Size stat,
     FileStat_Atime = ATime stat,
     FileStat_Mtime = MTime stat,
     FileStat_Ctime = CTime stat\<rparr>"

subsection \<open>Listing and status\<close>

definition convert_entry :: "ListDirectoryEntry \<Rightarrow> ListDirectoryEntry_pb" where
  "convert_entry entry = \<lparr>
     ListDirectoryEntry_Name = Name entry,
     ListDirectoryEntry_Stat = Some
       (if StatError entry \<noteq> 0 then ListDirectoryEntry_StatError (StatError entry)
        else ListDirectoryEntry_StatValue (Some (convertFileStat (Stat entry))))\<rparr>"

definition ListDirectory ::
  "goerr + conn \<Rightarrow> ListDirectoryRequest \<Rightarrow> ListDirectoryResponse res \<times> conn option" where
  "ListDirectory dial request =
     on_ok (AdbSync.ListDirectory (ListDirectoryRequest_Path request) dial) (\<lambda>c. c) (\<lambda>entries c.
       (Ok \<lparr>ListDirectoryResponse_Entries = map (Some \<circ> convert_entry) entries\<rparr>, c))"

definition StatFile ::
  "goerr + conn \<Rightarrow> StatFileRequest \<Rightarrow> StatFileResponse res \<times> conn option" where
  "StatFile dial request =
     on_ok (AdbSync.StatFile (StatFileRequest_Path request) (StatFileRequest_FollowLinks request) dial) (\<lambda>c. c)
       (\<lambda>(statError, stat) c.
         (Ok \<lparr>StatFileResponse_Stat = Some
            (if statError \<noteq> 0 then StatFileResponse_StatError statError
             else StatFileResponse_StatValue (Some (convertFileStat stat)))\<rparr>, c))"

subsection \<open>Pulling\<close>

definition data_response :: "byte list \<Rightarrow> PullFileResponse" where
  "data_response d = \<lparr>PullFileResponse_Data = d, PullFileResponse_Last = False\<rparr>"

definition last_response :: PullFileResponse where
  "last_response = \<lparr>PullFileResponse_Data = [], PullFileResponse_Last = True\<rparr>"

lemma pull_Recv_shrinks:
  "pull_Recv c = (Ok (Some d), c') \<Longrightarrow> length (incoming c') < length (incoming c)"
  by (auto simp: pull_Recv_def on_ok_eq_Ok Let_def split: if_splits dest!: ReadRaw_shrinks)

function pull_loop :: "PullFileResponse sink \<Rightarrow> conn \<Rightarrow> unit res \<times> (conn \<times> PullFileResponse sink)" where
  "pull_loop server c = (case pull_Recv c of
     (Err e, c) \<Rightarrow> (Err e, (c, server))
   | (Panic p, c) \<Rightarrow> (Panic p, (c, server))
   | (Ok None, c) \<Rightarrow> (case grpc_send last_response server of (r, server) \<Rightarrow> (r, (c, server)))
   | (Ok (Some data), c) \<Rightarrow>
       (case grpc_send (data_response data) server of
          (Ok _, server) \<Rightarrow> pull_loop server c
        | (Err e, server) \<Rightarrow> (Err e, (c, server))
        | (Panic p, server) \<Rightarrow> (Panic p, (c, server))))"
  by pat_completeness auto
termination
  by (relation "measure (\<lambda>(server, c). length (incoming c))") (auto dest: pull_Recv_shrinks[OF sym])

declare pull_loop.simps [simp del]

text \<open>The stream is closed whenever it was opened.\<close>

definition PullFile ::
  "goerr + conn \<Rightarrow> PullFileRequest \<Rightarrow> PullFileResponse sink \<Rightarrow> unit res \<times> (conn option \<times> PullFileResponse sink)" where
  "PullFile dial request server =
     (case AdbSync.PullFile (PullFileRequest_Path request) dial of
        (Ok _, Some c) \<Rightarrow>
          (case pull_loop server c of (r, (c, server)) \<Rightarrow> (r, (Some (snd (stream_Close c)), server)))
      | (Ok u, None) \<Rightarrow> (Ok u, (None, server))
      | (Err e, co) \<Rightarrow> (Err e, (co, server))
      | (Panic p, co) \<Rightarrow> (Panic p, (co, server)))"

subsection \<open>Pushing\<close>

fun push_loop :: "PushFileRequest list \<Rightarrow> goerr \<Rightarrow> conn \<Rightarrow> unit res \<times> conn" where
  "push_loop [] e c = (Err e, c)"
| "push_loop (rmsg # ms) e c =
     (case PushFileRequest_Message rmsg of
        Some (PushFileRequest_Data (Some m)) \<Rightarrow>
          on_ok (push_Send (PushFileDataRequest_Data m) c) (\<lambda>c. c) (\<lambda>_ c. push_loop ms e c)
      | Some (PushFileRequest_Data None) \<Rightarrow> (Panic NilDereference, c)
      | Some (PushFileRequest_End (Some m)) \<Rightarrow> push_Done (PushFileEndRequest_Mtime m) c
      | Some (PushFileRequest_End None) \<Rightarrow> (Panic NilDereference, c)
      | _ \<Rightarrow> (Err (GrpcStatus InvalidArgument ''unknown request''), c))"

definition PushFile :: "goerr + conn \<Rightarrow> PushFileRequest source \<Rightarrow> unit res \<times> conn option" where
  "PushFile dial server =
     (case grpc_recv server of
        (Err e, _) \<Rightarrow> (Err e, None)
      | (Panic p, _) \<Rightarrow> (Panic p, None)
      | (Ok initMsg, server) \<Rightarrow>
         (case PushFileRequest_GetStart (Some initMsg) of
            None \<Rightarrow> (Err (GrpcStatus InvalidArgument ''stream must begin with a start request''), None)
          | Some startMsg \<Rightarrow>
             (case AdbSync.PushFile (PushFileStartRequest_Path startMsg) (PushFileStartRequest_Mode startMsg) dial of
                (Ok _, Some c) \<Rightarrow>
                  (case push_loop (msgs server) (rend server) c of (r, c) \<Rightarrow> (r, Some (snd (push_Close c))))
              | r \<Rightarrow> r)))"

subsection \<open>Running the transfers\<close>

lemma pull_loop_chunks:
  "healthy c \<Longrightarrow> no_fail s \<Longrightarrow> incoming c = concat (map (chunk_wire IdData) ds) @ chunk_wire rid x @ rest \<Longrightarrow>
   \<forall>d \<in> set (x # ds). length d < 2 ^ 32 \<Longrightarrow> rid = IdDone \<or> rid = IdFail \<Longrightarrow>
   \<exists>c'. pull_loop s c =
     (if rid = IdDone then Ok () else Err (NewError (to_str x)),
      (c', s\<lparr>sent := sent s @ map data_response ds @ (if rid = IdDone then [last_response] else [])\<rparr>))"
proof (induction ds arbitrary: c s)
  case Nil
  then have "pull_Recv c = (if rid = IdDone then (Ok None, do_close (consume (length x) (consume 8 c)))
      else (Err (NewError (to_str x)), do_close (consume (length x) (consume 8 c))))"
    using pull_Recv_frame[of c rid x rest] by (auto simp: Let_def id_distinct[symmetric])
  then show ?case
    using Nil by (auto simp: pull_loop.simps[of s c] grpc_send_def no_fail_def)
next
  case (Cons d ds)
  let ?c = "consume (length d) (consume 8 c)"
  have r: "pull_Recv c = (Ok (Some d), ?c)"
    using Cons.prems pull_Recv_frame[of c IdData d "concat (map (chunk_wire IdData) ds) @ chunk_wire rid x @ rest"]
    by (auto simp: Let_def)
  let ?s = "s\<lparr>sent := sent s @ [data_response d]\<rparr>"
  have "\<exists>c'. pull_loop ?s ?c =
     (if rid = IdDone then Ok () else Err (NewError (to_str x)),
      (c', ?s\<lparr>sent := sent ?s @ map data_response ds @ (if rid = IdDone then [last_response] else [])\<rparr>))"
    using Cons.prems by (intro Cons.IH) (auto simp: no_fail_def chunk_wire_def)
  moreover have "pull_loop s c = pull_loop ?s ?c"
    using Cons.prems(2) by (subst pull_loop.simps) (simp add: r grpc_send_ok no_fail_def)
  ultimately show ?case by simp
qed

definition data_request :: "byte list \<Rightarrow> PushFileRequest" where
  "data_request d = \<lparr>PushFileRequest_Message = Some (PushFileRequest_Data (Some \<lparr>PushFileDataRequest_Data = d\<rparr>))\<rparr>"

definition end_request :: "u32 \<Rightarrow> PushFileRequest" where
  "end_request t = \<lparr>PushFileRequest_Message = Some (PushFileRequest_End (Some \<lparr>PushFileEndRequest_Mtime = t\<rparr>))\<rparr>"

definition start_request :: "string \<Rightarrow> u32 \<Rightarrow> PushFileRequest" where
  "start_request path mode = \<lparr>PushFileRequest_Message = Some (PushFileRequest_Start (Some
     \<lparr>PushFileStartRequest_Path = path, PushFileStartRequest_Mode = mode\<rparr>))\<rparr>"

lemma push_loop_data:
  "push_loop (map data_request ds @ ms) e c = on_ok (push_all ds c) (\<lambda>c. c) (\<lambda>_ c. push_loop ms e c)"
proof (induction ds arbitrary: c)
  case (Cons d ds)
  then show ?case
    by (cases "push_Send d c" rule: res_pair_cases) (simp_all add: data_request_def)
qed simp

end
