(* ===== verification/ShellServer.thy ===== *)
theory ShellServer
  imports AdbClient Protocol Grpc Machine "HOL-Library.Sublist"
begin

text \<open>
  \<^verbatim>\<open>agent/server/shell/shell.go\<close>: a shell session of the agent. Two goroutines receive, one the requests
  of the client, the other the packets of the device; each hands what it has received to the main loop
  over an unbuffered channel and waits until it is taken. The events of a session are the receipt and
  the taking on either side, so every execution is one interleaving of the three goroutines.
\<close>

subsection \<open>Opening a session\<close>

definition start_command :: "ShellStartRequest \<Rightarrow> string res" where
  "start_command startMsg =
     (let cmd = ''shell,v2'';
          cmd = (case ShellStartRequest_TermType startMsg of None \<Rightarrow> cmd | Some t \<Rightarrow> cmd @ '',TERM='' @ t);
          ty = ShellStartRequest_ShellType startMsg
      in bind_res
        (if ty = ShellStartRequest_RAW then Ok (cmd @ '',raw'')
         else if ty = ShellStartRequest_PTY then Ok (cmd @ '',pty'')
         else Err (GrpcStatus InvalidArgument ''unknown shell type''))
        (\<lambda>cmd. let cmd = cmd @ '':''
          in Ok (case ShellStartRequest_Command startMsg of None \<Rightarrow> cmd | Some c \<Rightarrow> cmd @ c)))"

text \<open>What a receiving goroutine is doing: waiting for a message, or for the main loop to take one.\<close>

datatype 'a hand = Idle | Holding "'a res"

record session =
  requests :: "ShellRequest source"
  req_hand :: "ShellRequest hand"
  emuConn :: conn
  resp_hand :: "(byte \<times> byte list) hand"
  responses :: "ShellResponse sink"
  exited :: bool
  outcome :: "unit res option"

definition new_session :: "ShellRequest source \<Rightarrow> conn \<Rightarrow> ShellResponse sink \<Rightarrow> session" where
  "new_session rs c out = \<lparr>requests = rs, req_hand = Idle, emuConn = c, resp_hand = Idle,
     responses = out, exited = False, outcome = None\<rparr>"

text \<open>
  The connection of a command the device refuses is returned as \<open>SendCommand\<close> leaves it: open.
\<close>

definition open_session ::
  "goerr + conn \<Rightarrow> ShellRequest source \<Rightarrow> ShellResponse sink \<Rightarrow> session res \<times> conn option" where
  "open_session dial server out =
     (case grpc_recv server of
        (Err e, _) \<Rightarrow> (Err e, None)
      | (Panic p, _) \<Rightarrow> (Panic p, None)
      | (Ok initMsg, server) \<Rightarrow>
         (case ShellRequest_GetStart (Some initMsg) of
            None \<Rightarrow> (Err (GrpcStatus InvalidArgument ''stream must begin with a start request''), None)
          | Some startMsg \<Rightarrow>
             (case start_command startMsg of
                Err e \<Rightarrow> (Err e, None)
              | Panic p \<Rightarrow> (Panic p, None)
              | Ok cmd \<Rightarrow>
                 (case OpenEmulator dial of
                    (Ok _, Some c) \<Rightarrow>
                      (case SendCommand (of_str cmd) c of
                         (Ok _, c) \<Rightarrow> (Ok (new_session server c out), Some c)
                       | (Err e, c) \<Rightarrow> (Err e, Some c)
                       | (Panic p, c) \<Rightarrow> (Panic p, Some c))
                  | (Ok _, None) \<Rightarrow> (Panic NilDereference, None)
                  | (Err e, co) \<Rightarrow> (Err e, co)
                  | (Panic p, co) \<Rightarrow> (Panic p, co)))))"

subsection \<open>The main loop\<close>

definition resize_payload :: "ShellResizeRequest \<Rightarrow> string" where
  "resize_payload m =
     fmt_d (unat (ShellResizeRequest_Rows m)) @ ''x'' @ fmt_d (unat (ShellResizeRequest_Cols m)) @ '','' @
     fmt_d (unat (ShellResizeRequest_Width m)) @ ''x'' @ fmt_d (unat (ShellResizeRequest_Height m))"

definition handle_request :: "ShellRequest \<Rightarrow> conn \<Rightarrow> unit res \<times> conn" where
  "handle_request request c = (case ShellRequest_GetMessage (Some request) of
     Some (ShellRequest_Stdin None) \<Rightarrow> (Panic NilDereference, c)
   | Some (ShellRequest_Stdin (Some m)) \<Rightarrow>
       on_ok (if ShellStdInRequest_Data m \<noteq> [] then WriteShellBlob 0 (ShellStdInRequest_Data m) c else (Ok (), c))
         (\<lambda>c. c) (\<lambda>_ c.
           if ShellStdInRequest_Close m then WriteShellBlob 4 [] c else (Ok (), c))
   | Some (ShellRequest_Resize None) \<Rightarrow> (Panic NilDereference, c)
   | Some (ShellRequest_Resize (Some m)) \<Rightarrow> WriteShellBlob 5 (of_str (resize_payload m)) c
   | _ \<Rightarrow> (Err (GrpcStatus InvalidArgument ''unknown request''), c))"

definition output_response :: "byte \<Rightarrow> byte list \<Rightarrow> ShellResponse" where
  "output_response sid d =
     (let channel = (if sid = 2 then ShellOutputResponse_ERR else ShellOutputResponse_OUT)
      in \<lparr>ShellResponse_Message = Some (ShellResponse_Output (Some
           \<lparr>ShellOutputResponse_Channel = channel, ShellOutputResponse_Data = d\<rparr>))\<rparr>)"

definition exit_response :: "byte \<Rightarrow> ShellResponse" where
  "exit_response code = \<lparr>ShellResponse_Message = Some (ShellResponse_Exit (Some
     \<lparr>ShellExitResponse_Code = ucast code\<rparr>))\<rparr>"

text \<open>\<open>None\<close> goes on; otherwise the loop ends with the result.\<close>

definition handle_response :: "byte \<Rightarrow> byte list \<Rightarrow> ShellResponse sink \<Rightarrow> unit res option \<times> ShellResponse sink" where
  "handle_response sid d out =
     (if sid = 1 \<or> sid = 2 then
        (case grpc_send (output_response sid d) out of
           (Ok _, out) \<Rightarrow> (None, out)
         | (r, out) \<Rightarrow> (Some r, out))
      else if sid = 3 then
        (if d = [] then (Some (Panic IndexOutOfRange), out)
         else map_prod Some id (grpc_send (exit_response (d ! 0)) out))
      else (Some (Err (GrpcStatus Internal ''unknown response'')), out))"

text \<open>
  The end of the loop: the channels are closed, which ends the two goroutines, and the connection too.
  A panic ends the process instead.
\<close>

definition finish :: "unit res \<Rightarrow> session \<Rightarrow> session" where
  "finish r s = s\<lparr>outcome := Some r, emuConn := (if is_panic r then emuConn s else do_close (emuConn s))\<rparr>"

datatype shell_event = ReceiveRequest | ReceiveResponse | TakeRequest | TakeResponse

definition receive_request :: "session \<Rightarrow> session option" where
  "receive_request s = (case req_hand s of
     Idle \<Rightarrow> (case grpc_recv (requests s) of (m, src) \<Rightarrow> Some (s\<lparr>requests := src, req_hand := Holding m\<rparr>))
   | Holding _ \<Rightarrow> None)"

definition receive_response :: "session \<Rightarrow> session option" where
  "receive_response s = (case resp_hand s of
     Idle \<Rightarrow> (case ReadShellBlob (emuConn s) of (m, c) \<Rightarrow> Some (s\<lparr>emuConn := c, resp_hand := Holding m\<rparr>))
   | Holding _ \<Rightarrow> None)"

definition take_request :: "session \<Rightarrow> session option" where
  "take_request s = (case req_hand s of
     Idle \<Rightarrow> None
   | Holding (Ok m) \<Rightarrow>
      (case handle_request m (emuConn s) of
         (Ok _, c) \<Rightarrow> Some (s\<lparr>emuConn := c, req_hand := Idle\<rparr>)
       | (r, c) \<Rightarrow> Some (finish r (s\<lparr>emuConn := c, req_hand := Idle\<rparr>)))
   | Holding (Err e) \<Rightarrow> Some (finish (Err e) s)
   | Holding (Panic p) \<Rightarrow> Some (finish (Panic p) s))"

definition take_response :: "session \<Rightarrow> session option" where
  "take_response s = (case resp_hand s of
     Idle \<Rightarrow> None
   | Holding (Ok (sid, d)) \<Rightarrow>
      (let s = s\<lparr>resp_hand := Idle, exited := (exited s \<or> sid = 3)\<rparr>
       in case handle_response sid d (responses s) of
         (None, out) \<Rightarrow> Some (s\<lparr>responses := out\<rparr>)
       | (Some r, out) \<Rightarrow> Some (finish r (s\<lparr>responses := out\<rparr>)))
   | Holding (Err e) \<Rightarrow> Some (finish (Err e) s)
   | Holding (Panic p) \<Rightarrow> Some (finish (Panic p) s))"

definition shell_step :: "shell_event \<Rightarrow> session \<Rightarrow> session option" where
  "shell_step ev s =
     (if outcome s \<noteq> None then None
      else case ev of
        ReceiveRequest \<Rightarrow> receive_request s
      | ReceiveResponse \<Rightarrow> receive_response s
      | TakeRequest \<Rightarrow> take_request s
      | TakeResponse \<Rightarrow> take_response s)"

text \<open>The whole call for one interleaving; \<open>None\<close> when the loop has not ended.\<close>

definition Process ::
  "goerr + conn \<Rightarrow> ShellRequest source \<Rightarrow> ShellResponse sink \<Rightarrow> shell_event list \<Rightarrow> (unit res \<times> session option) option" where
  "Process dial server out es = (case fst (open_session dial server out) of
     Err e \<Rightarrow> Some (Err e, None)
   | Panic p \<Rightarrow> Some (Panic p, None)
   | Ok s \<Rightarrow> (case exec shell_step es s of
       None \<Rightarrow> None
     | Some t \<Rightarrow> (case outcome t of None \<Rightarrow> None | Some r \<Rightarrow> Some (r, Some t))))"

subsection \<open>Every session ends\<close>

lemma WriteRaw_keeps_incoming: "incoming (snd (WriteRaw p c)) = incoming c"
  by (auto simp: WriteRaw_def net_write_def incoming_def split: wres.splits list.splits if_splits)
    (auto simp: Close_def net_close_def split: option.splits)

lemma WriteShellBlob_incoming: "incoming (snd (WriteShellBlob sid b c)) = incoming c"
proof -
  have 1: "incoming (snd (WriteRaw p c)) = incoming c" for p c by (rule WriteRaw_keeps_incoming)
  show ?thesis
    using 1[of "shell_header sid b" c] 1[of b "snd (WriteRaw (shell_header sid b) c)"]
    by (cases "WriteRaw (shell_header sid b) c" rule: res_pair_cases;
        cases "WriteRaw b (snd (WriteRaw (shell_header sid b) c))" rule: res_pair_cases)
      (auto simp: WriteShellBlob_def)
qed

lemma handle_request_incoming: "incoming (snd (handle_request m c)) = incoming c"
proof -
  have w: "WriteShellBlob sid b c = (r, c') \<Longrightarrow> incoming c' = incoming c" for sid b c r c'
    using WriteShellBlob_incoming[of sid b c] by simp
  have "incoming (snd (on_ok (if p then WriteShellBlob 0 b c else (Ok (), c)) (\<lambda>c. c)
      (\<lambda>_ c. if q then WriteShellBlob 4 [] c else (Ok (), c)))) = incoming c" for p b q
    by (cases "WriteShellBlob 0 b c" rule: res_pair_cases) (auto simp: WriteShellBlob_incoming dest: w)
  then show ?thesis
    by (auto simp: handle_request_def WriteShellBlob_incoming split: option.splits ShellRequest_Message.splits)
qed

lemma ReadFull_incoming_le: "ReadFull n c = (r, c') \<Longrightarrow> length (incoming c') \<le> length (incoming c)"
  using ReadFull_eq(2)[of c n] by (cases "closed c") (auto simp: ReadFull_def split: if_splits)

lemma ReadShellBlob_shrinks:
  assumes "ReadShellBlob c = (r, c')"
  shows "length (incoming c') + (if is_ok r then 1 else 0) \<le> length (incoming c)"
proof (cases "ReadFull 5 c" rule: res_pair_cases)
  case (Ok h c1)
  then have h: "length (incoming c) = 5 + length (incoming c1)" by (rule ReadFull_shrinks)
  show ?thesis
    using assms Ok h ReadFull_incoming_le[of "unat (Uint32 (drop 1 h))" c1]
    by (cases "ReadFull (unat (Uint32 (drop 1 h))) c1" rule: res_pair_cases)
      (auto simp: ReadShellBlob_def Let_def)
qed (use assms ReadFull_incoming_le[of 5 c] in \<open>auto simp: ReadShellBlob_def\<close>)

fun hand_weight :: "'a hand \<Rightarrow> nat" where
  "hand_weight Idle = 2"
| "hand_weight (Holding r) = (if is_ok r then 3 else 1)"

definition session_weight :: "session \<Rightarrow> nat" where
  "session_weight s = 2 * length (msgs (requests s)) + 2 * length (incoming (emuConn s))
     + hand_weight (req_hand s) + hand_weight (resp_hand s) + (if outcome s = None then 1 else 0)"

lemma finish_weight: "outcome s = None \<Longrightarrow> session_weight (finish r s) < session_weight s"
  by (simp add: session_weight_def finish_def)

lemma receive_request_weight:
  "receive_request s = Some t \<Longrightarrow> session_weight t < session_weight s"
  by (cases "msgs (requests s)")
    (auto simp: receive_request_def session_weight_def grpc_recv_def split: hand.splits)

lemma receive_response_weight:
  "receive_response s = Some t \<Longrightarrow> session_weight t < session_weight s"
  by (cases "ReadShellBlob (emuConn s)")
    (auto simp: receive_response_def session_weight_def split: hand.splits if_splits dest!: ReadShellBlob_shrinks)

lemma take_request_weight:
  assumes "take_request s = Some t" "outcome s = None"
  shows "session_weight t < session_weight s"
proof (cases "req_hand s")
  case (Holding r)
  show ?thesis
  proof (cases r)
    case (Ok m)
    obtain q c where q: "handle_request m (emuConn s) = (q, c)" by fastforce
    have c: "incoming c = incoming (emuConn s)" using handle_request_incoming[of m "emuConn s"] q by simp
    let ?s = "s\<lparr>emuConn := c, req_hand := Idle\<rparr>"
    have w: "session_weight ?s < session_weight s"
      using Holding Ok c by (simp add: session_weight_def)
    have "t = ?s \<or> t = finish q ?s"
      using assms(1) Holding Ok q by (cases q) (auto simp: take_request_def)
    with w finish_weight[of ?s q] assms(2) show ?thesis by auto
  qed (use assms Holding finish_weight in \<open>auto simp: take_request_def\<close>)
qed (use assms in \<open>simp add: take_request_def\<close>)

lemma take_response_weight:
  assumes "take_response s = Some t" "outcome s = None"
  shows "session_weight t < session_weight s"
proof (cases "resp_hand s")
  case (Holding r)
  show ?thesis
  proof (cases r)
    case (Ok f)
    obtain sid d where f: "f = (sid, d)" by fastforce
    obtain q out where q: "handle_response sid d (responses s) = (q, out)" by fastforce
    let ?s = "s\<lparr>resp_hand := Idle, exited := (exited s \<or> sid = 3), responses := out\<rparr>"
    have w: "session_weight ?s < session_weight s"
      using Holding Ok by (simp add: session_weight_def)
    have "t = ?s \<or> (\<exists>r. t = finish r ?s)"
      using assms(1) Holding Ok q f by (cases q) (auto simp: take_response_def)
    then show ?thesis
    proof
      assume "\<exists>r. t = finish r ?s"
      then obtain r where t: "t = finish r ?s" by blast
      have "session_weight (finish r ?s) < session_weight ?s" by (rule finish_weight) (simp add: assms(2))
      with w t show ?thesis by simp
    qed (use w in simp)
  qed (use assms Holding finish_weight in \<open>auto simp: take_response_def\<close>)
qed (use assms in \<open>simp add: take_response_def\<close>)

lemma shell_step_weight: "shell_step ev s = Some t \<Longrightarrow> session_weight t < session_weight s"
  by (cases ev)
    (auto simp: shell_step_def split: if_splits dest: receive_request_weight receive_response_weight
      take_request_weight take_response_weight)

interpretation session_progress: progress shell_step session_weight
  by unfold_locales (rule shell_step_weight)

lemma shell_live: "outcome s = None \<Longrightarrow> \<exists>ev. shell_step ev s \<noteq> None"
proof -
  assume o: "outcome s = None"
  have "shell_step (if req_hand s = Idle then ReceiveRequest else TakeRequest) s \<noteq> None"
    using o by (cases "req_hand s")
      (auto simp: shell_step_def receive_request_def take_request_def split: prod.splits res.splits)
  then show ?thesis by blast
qed

subsection \<open>What a session transfers\<close>

text \<open>The packets a request stands for, and the response a packet of the device stands for.\<close>

definition request_blobs :: "ShellRequest \<Rightarrow> (byte \<times> byte list) list" where
  "request_blobs request = (case ShellRequest_Message request of
     Some (ShellRequest_Stdin (Some m)) \<Rightarrow>
       (if ShellStdInRequest_Data m \<noteq> [] then [(0, ShellStdInRequest_Data m)] else []) @
       (if ShellStdInRequest_Close m then [(4, [])] else [])
   | Some (ShellRequest_Resize (Some m)) \<Rightarrow> [(5, of_str (resize_payload m))]
   | _ \<Rightarrow> [])"

fun response_of :: "byte \<times> byte list \<Rightarrow> ShellResponse" where
  "response_of (sid, d) = (if sid = 3 then exit_response (d ! 0) else output_response sid d)"

abbreviation wire :: "(byte \<times> byte list) list \<Rightarrow> byte list" where
  "wire fs \<equiv> concat (map shell_frame fs)"

abbreviation request_wire :: "ShellRequest list \<Rightarrow> byte list" where
  "request_wire rs \<equiv> wire (concat (map request_blobs rs))"

lemma handle_request_healthy:
  assumes "healthy c" "handle_request m c = (r, c')"
  shows "healthy c' \<and> incoming c' = incoming c \<and> outb c' = outb c @ wire (request_blobs m) \<and>
    (is_ok r \<or> request_blobs m = [])"
  using assms
  by (auto simp: handle_request_def request_blobs_def WriteShellBlob_ok shell_frame_def
      split: option.splits ShellRequest_Message.splits if_splits)

lemma WriteShellBlob_closed: "closed c \<Longrightarrow> WriteShellBlob sid b c = (Err NetClosed, c)"
  by (simp add: WriteShellBlob_def WriteRaw_def net_write_def Close_def net_close_def)

lemma handle_request_closed:
  assumes "closed c" "handle_request m c = (r, c')"
  shows "c' = c \<and> (is_ok r \<longrightarrow> request_blobs m = [])"
  using assms
  by (auto simp: handle_request_def request_blobs_def WriteShellBlob_closed
      split: option.splits ShellRequest_Message.splits if_splits)

lemma ReadShellBlob_end:
  assumes "healthy c" "incoming c = []"
  shows "\<exists>e c'. ReadShellBlob c = (Err e, c') \<and> closed c' \<and> outb c' = outb c"
proof -
  obtain e c1 where r: "ReadFull 5 c = (Err e, c1)"
    using ReadFull_short[OF assms(1), of 5] assms(2) by auto
  have "\<exists>q. c1 = c\<lparr>inq := q\<rparr>"
    using ReadFull_eq(3)[of c 5] r assms(1) by (simp add: healthy_def)
  then have "closed (do_close c1) \<and> outb (do_close c1) = outb c"
    by (auto simp: Close_def net_close_def split: option.splits)
  then show ?thesis using r by (simp add: ReadShellBlob_def)
qed

text \<open>
  The invariant: \<open>rdone\<close> are the requests taken, \<open>fdone\<close> the packets passed on. What a goroutine
  holds comes next on its side, and the device's other packets \<open>ys\<close> are still on the connection
  unless the receiver has met its end.
\<close>

fun held :: "'a hand \<Rightarrow> 'a list" where
  "held (Holding (Ok m)) = [m]"
| "held _ = []"

definition running_inv :: "ShellRequest list \<Rightarrow> (byte \<times> byte list) list \<Rightarrow> byte list \<Rightarrow> ShellRequest list
    \<Rightarrow> (byte \<times> byte list) list \<Rightarrow> session \<Rightarrow> bool" where
  "running_inv rs fs o0 rdone fdone s \<longleftrightarrow>
     rs = rdone @ held (req_hand s) @ msgs (requests s) \<and>
     (\<forall>f \<in> set fdone. fst f = 1 \<or> fst f = 2) \<and>
     (\<exists>ys. fs = fdone @ held (resp_hand s) @ ys \<and>
       (healthy (emuConn s) \<and> incoming (emuConn s) = wire ys
        \<or> closed (emuConn s) \<and> ys = [] \<and> (\<exists>e. resp_hand s = Holding (Err e))))"

definition ended_inv :: "ShellRequest list \<Rightarrow> (byte \<times> byte list) list
    \<Rightarrow> ShellRequest list \<Rightarrow> (byte \<times> byte list) list \<Rightarrow> unit res \<Rightarrow> session \<Rightarrow> bool" where
  "ended_inv rs fs rdone fdone r s \<longleftrightarrow>
     prefix rdone rs \<and> prefix fdone fs \<and> (is_panic r \<or> closed (emuConn s)) \<and>
     (r = Ok () \<longrightarrow> (\<exists>os code d. fdone = os @ [(3, code # d)] \<and> (\<forall>f \<in> set os. fst f = 1 \<or> fst f = 2)))"

definition session_inv :: "ShellRequest list \<Rightarrow> (byte \<times> byte list) list \<Rightarrow> byte list \<Rightarrow> session \<Rightarrow> bool" where
  "session_inv rs fs o0 s \<longleftrightarrow> no_fail (responses s) \<and> (\<exists>rdone fdone.
     outb (emuConn s) = o0 @ request_wire rdone \<and>
     sent (responses s) = map response_of fdone \<and>
     (case outcome s of None \<Rightarrow> running_inv rs fs o0 rdone fdone s
      | Some r \<Rightarrow> ended_inv rs fs rdone fdone r s))"

lemma session_invE:
  assumes "session_inv rs fs o0 s" "outcome s = None"
  obtains rdone fdone where "no_fail (responses s)" "outb (emuConn s) = o0 @ request_wire rdone"
    "sent (responses s) = map response_of fdone" "running_inv rs fs o0 rdone fdone s"
  using assms by (auto simp: session_inv_def)

lemma session_invI:
  assumes "no_fail (responses s)" "outb (emuConn s) = o0 @ request_wire rdone"
    "sent (responses s) = map response_of fdone"
    "case outcome s of None \<Rightarrow> running_inv rs fs o0 rdone fdone s | Some r \<Rightarrow> ended_inv rs fs rdone fdone r s"
  shows "session_inv rs fs o0 s"
  using assms unfolding session_inv_def by blast

lemma closed_do_close: "closed (do_close c)"
  by (auto simp: Close_def net_close_def split: option.splits)

lemma finish_inv:
  assumes "no_fail (responses s)" "outb (emuConn s) = o0 @ request_wire rdone"
    "sent (responses s) = map response_of fdone" "prefix rdone rs" "prefix fdone fs"
    "r = Ok () \<longrightarrow> (\<exists>os code d. fdone = os @ [(3, code # d)] \<and> (\<forall>f \<in> set os. fst f = 1 \<or> fst f = 2))"
  shows "session_inv rs fs o0 (finish r s)"
  using assms
  by (intro session_invI[of _ _ rdone fdone]) (auto simp: finish_def ended_inv_def closed_do_close)

lemma running_prefixes:
  "running_inv rs fs o0 rdone fdone s \<Longrightarrow> prefix rdone rs \<and> prefix fdone fs"
  by (auto simp: running_inv_def)

lemma receive_request_inv:
  assumes "session_inv rs fs o0 s" "outcome s = None" "receive_request s = Some t"
  shows "session_inv rs fs o0 t"
proof (rule session_invE[OF assms(1,2)])
  fix rdone fdone
  assume i: "no_fail (responses s)" "outb (emuConn s) = o0 @ request_wire rdone"
    "sent (responses s) = map response_of fdone" "running_inv rs fs o0 rdone fdone s"
  show ?thesis
  proof (cases "msgs (requests s)")
    case Nil
    then have "t = s\<lparr>req_hand := Holding (Err (rend (requests s)))\<rparr>" "req_hand s = Idle"
      using assms(3) by (auto simp: receive_request_def grpc_recv_def split: hand.splits)
    then show ?thesis
      using i assms(2) Nil by (intro session_invI[of _ _ rdone fdone]) (auto simp: running_inv_def)
  next
    case (Cons m ms)
    then have "t = s\<lparr>requests := (requests s)\<lparr>msgs := ms\<rparr>, req_hand := Holding (Ok m)\<rparr>" "req_hand s = Idle"
      using assms(3) by (auto simp: receive_request_def grpc_recv_def split: hand.splits)
    then show ?thesis
      using i assms(2) Cons by (intro session_invI[of _ _ rdone fdone]) (auto simp: running_inv_def)
  qed
qed

lemma receive_response_inv:
  assumes "session_inv rs fs o0 s" "outcome s = None" "receive_response s = Some t" "\<forall>f \<in> set fs. shell_fits f"
  shows "session_inv rs fs o0 t"
proof (rule session_invE[OF assms(1,2)])
  fix rdone fdone
  assume i: "no_fail (responses s)" "outb (emuConn s) = o0 @ request_wire rdone"
    "sent (responses s) = map response_of fdone" "running_inv rs fs o0 rdone fdone s"
  obtain m c where r: "ReadShellBlob (emuConn s) = (m, c)" by fastforce
  have t: "t = s\<lparr>emuConn := c, resp_hand := Holding m\<rparr>" "resp_hand s = Idle"
    using assms(3) r by (auto simp: receive_response_def split: hand.splits)
  then obtain ys where ys: "fs = fdone @ ys" "healthy (emuConn s)" "incoming (emuConn s) = wire ys"
    using i(4) by (auto simp: running_inv_def)
  show ?thesis
  proof (cases ys)
    case Nil
    then obtain e where "m = Err e" "closed c" "outb c = outb (emuConn s)"
      using ReadShellBlob_end[of "emuConn s"] ys r by auto
    then show ?thesis
      using i assms(2) t ys Nil by (intro session_invI[of _ _ rdone fdone]) (auto simp: running_inv_def)
  next
    case (Cons f fs')
    then have "m = Ok f \<and> incoming c = wire fs' \<and> healthy c \<and> outb c = outb (emuConn s)"
      using shell_frames.recv_frame[of "emuConn s" f "wire fs'"] ys assms(4) r by auto
    then show ?thesis
      using i assms(2) t ys Cons by (intro session_invI[of _ _ rdone fdone]) (auto simp: running_inv_def)
  qed
qed

lemma take_request_inv:
  assumes "session_inv rs fs o0 s" "outcome s = None" "take_request s = Some t"
  shows "session_inv rs fs o0 t"
proof (rule session_invE[OF assms(1,2)])
  fix rdone fdone
  assume i: "no_fail (responses s)" "outb (emuConn s) = o0 @ request_wire rdone"
    "sent (responses s) = map response_of fdone" "running_inv rs fs o0 rdone fdone s"
  note pre = running_prefixes[OF i(4)]
  show ?thesis
  proof (cases "req_hand s")
    case (Holding r)
    show ?thesis
    proof (cases r)
      case (Ok m)
      obtain q c where q: "handle_request m (emuConn s) = (q, c)" by fastforce
      let ?s = "s\<lparr>emuConn := c, req_hand := Idle\<rparr>"
      have rs: "rs = rdone @ [m] @ msgs (requests s)"
        using i(4) Holding Ok by (simp add: running_inv_def)
      have c: "outb c = outb (emuConn s) @ (if is_ok q then wire (request_blobs m) else []) \<and>
          (healthy (emuConn s) \<longrightarrow> healthy c) \<and> (closed (emuConn s) \<longrightarrow> closed c) \<and> incoming c = incoming (emuConn s)"
        using i(4) handle_request_healthy[OF _ q] handle_request_closed[OF _ q]
        by (auto simp: running_inv_def healthy_def)
      show ?thesis
      proof (cases "is_ok q")
        case True
        then have t: "t = ?s"
          using assms(3) Holding Ok q by (cases q) (auto simp: take_request_def)
        have "running_inv rs fs o0 (rdone @ [m]) fdone ?s"
          using i(4) c rs Holding Ok by (auto simp: running_inv_def)
        then show ?thesis
          using i c True assms(2) unfolding t by (intro session_invI[of _ _ "rdone @ [m]" fdone]) auto
      next
        case False
        then have t: "t = finish q ?s" "q \<noteq> Ok ()"
          using assms(3) Holding Ok q by (cases q; auto simp: take_request_def)+
        then show ?thesis
          using i c False pre unfolding t(1) by (intro finish_inv) auto
      qed
    next
      case (Err e)
      then have "t = finish (Err e) s" using assms(3) Holding by (simp add: take_request_def)
      then show ?thesis using i pre by (auto intro: finish_inv)
    next
      case (Panic p)
      then have "t = finish (Panic p) s" using assms(3) Holding by (simp add: take_request_def)
      then show ?thesis using i pre by (auto intro: finish_inv)
    qed
  qed (use assms in \<open>simp add: take_request_def\<close>)
qed

lemma handle_response_cases:
  assumes "no_fail out" "handle_response sid d out = (q, out')"
  obtains (Out) "sid = 1 \<or> sid = 2" "q = None" "out' = out\<lparr>sent := sent out @ [response_of (sid, d)]\<rparr>"
  | (Ex) "sid = 3" "d \<noteq> []" "q = Some (Ok ())" "out' = out\<lparr>sent := sent out @ [response_of (sid, d)]\<rparr>"
  | (Bad) r where "q = Some r" "r \<noteq> Ok ()" "out' = out"
  using assms by (auto simp: handle_response_def no_fail_def grpc_send_ok split: if_splits)

lemma take_response_inv:
  assumes "session_inv rs fs o0 s" "outcome s = None" "take_response s = Some t"
  shows "session_inv rs fs o0 t"
proof (rule session_invE[OF assms(1,2)])
  fix rdone fdone
  assume i: "no_fail (responses s)" "outb (emuConn s) = o0 @ request_wire rdone"
    "sent (responses s) = map response_of fdone" "running_inv rs fs o0 rdone fdone s"
  note pre = running_prefixes[OF i(4)]
  show ?thesis
  proof (cases "resp_hand s")
    case (Holding r)
    show ?thesis
    proof (cases r)
      case (Ok f)
      obtain sid d where f: "f = (sid, d)" by fastforce
      obtain q out where q: "handle_response sid d (responses s) = (q, out)" by fastforce
      let ?s = "s\<lparr>resp_hand := Idle, exited := (exited s \<or> sid = 3), responses := out\<rparr>"
      have t: "t = (case q of None \<Rightarrow> ?s | Some r \<Rightarrow> finish r ?s)"
        using assms(3) Holding Ok q f by (auto simp: take_response_def split: option.splits)
      obtain ys where ys: "fs = fdone @ (sid, d) # ys"
        using i(4) Holding Ok f by (auto simp: running_inv_def)
      from i(1) q show ?thesis
      proof (cases rule: handle_response_cases)
        case Out
        have "running_inv rs fs o0 rdone (fdone @ [(sid, d)]) ?s"
          using i(4) Holding Ok f Out(1) by (auto simp: running_inv_def)
        then show ?thesis
          using i assms(2) Out unfolding t
          by (intro session_invI[of _ _ rdone "fdone @ [(sid, d)]"]) (auto simp: no_fail_def)
      next
        case Ex
        then obtain code d' where "d = code # d'" by (cases d) auto
        then show ?thesis
          using i pre Ex ys i(4) unfolding t
          by simp (intro finish_inv[of _ _ rdone "fdone @ [(sid, d)]"], auto simp: no_fail_def running_inv_def)
      next
        case Bad
        then show ?thesis
          using i pre unfolding t by simp (intro finish_inv[of _ _ rdone fdone], auto)
      qed
    next
      case (Err e)
      then have "t = finish (Err e) s" using assms(3) Holding by (simp add: take_response_def)
      then show ?thesis using i pre by (auto intro: finish_inv)
    next
      case (Panic p)
      then have "t = finish (Panic p) s" using assms(3) Holding by (simp add: take_response_def)
      then show ?thesis using i pre by (auto intro: finish_inv)
    qed
  qed (use assms in \<open>simp add: take_response_def\<close>)
qed

lemma session_inv_step:
  "\<forall>f \<in> set fs. shell_fits f \<Longrightarrow> session_inv rs fs o0 s \<Longrightarrow> shell_step ev s = Some t \<Longrightarrow> session_inv rs fs o0 t"
  by (cases ev) (auto simp: shell_step_def split: if_splits
    intro: receive_request_inv receive_response_inv take_request_inv take_response_inv)

interpretation session_sys: machine shell_step s "\<lambda>_. True"
    "\<lambda>_ t. session_inv rs fs o0 s \<and> (\<forall>f \<in> set fs. shell_fits f) \<longrightarrow> session_inv rs fs o0 t" for rs fs o0 s
  by unfold_locales (auto intro: session_inv_step)

lemma session_inv_exec:
  "session_inv rs fs o0 s \<Longrightarrow> \<forall>f \<in> set fs. shell_fits f \<Longrightarrow> exec shell_step es s = Some t \<Longrightarrow> session_inv rs fs o0 t"
  using session_sys.inv_exec[OF TrueI] by blast

lemma new_session_inv:
  "healthy c \<Longrightarrow> no_fail out \<Longrightarrow> sent out = [] \<Longrightarrow> incoming c = wire fs \<Longrightarrow>
   session_inv (msgs src) fs (outb c) (new_session src c out)"
  by (auto simp: session_inv_def running_inv_def new_session_def)

subsection \<open>Opening\<close>

definition shell_start :: "ShellStartRequest \<Rightarrow> ShellRequest" where
  "shell_start m = \<lparr>ShellRequest_Message = Some (ShellRequest_Start (Some m))\<rparr>"

lemma open_session_okay:
  assumes "healthy c" "incoming c = of_str ''OKAY'' @ of_str ''OKAY'' @ rest" "start_command m = Ok cmd"
  shows "\<exists>c'. open_session (Inr c) \<lparr>msgs = shell_start m # rs, rend = e\<rparr> out =
      (Ok (new_session \<lparr>msgs = rs, rend = e\<rparr> c' out), Some c') \<and> healthy c' \<and> incoming c' = rest \<and>
    outb c' = outb c @ message_packet (of_str ''host:transport-local'') @ message_packet (of_str cmd)"
proof -
  let ?c1 = "consume 4 (emit (message_packet (of_str ''host:transport-local'')) c)"
  let ?c2 = "consume 4 (emit (message_packet (of_str cmd)) ?c1)"
  have "OpenEmulator (Inr c) = (Ok (), Some ?c1)"
    using assms open_emulator_okay[OF assms(1,2)] by (simp add: OpenEmulator_def NewRawConnection_def)
  moreover have "SendCommand (of_str cmd) ?c1 = (Ok (), ?c2)"
    using assms by (intro SendCommand_okay) simp_all
  ultimately show ?thesis
    using assms by (auto simp: open_session_def shell_start_def ShellRequest_GetStart_def)
qed

text \<open>The events are finitely many, so that statements about all of them compute.\<close>

instantiation shell_event :: enum
begin

definition enum_shell_event :: "shell_event list" where
  "enum_shell_event = [ReceiveRequest, ReceiveResponse, TakeRequest, TakeResponse]"

definition enum_all_shell_event :: "(shell_event \<Rightarrow> bool) \<Rightarrow> bool" where
  "enum_all_shell_event P \<longleftrightarrow> P ReceiveRequest \<and> P ReceiveResponse \<and> P TakeRequest \<and> P TakeResponse"

definition enum_ex_shell_event :: "(shell_event \<Rightarrow> bool) \<Rightarrow> bool" where
  "enum_ex_shell_event P \<longleftrightarrow> P ReceiveRequest \<or> P ReceiveResponse \<or> P TakeRequest \<or> P TakeResponse"

instance
proof
  show "UNIV = set (enum_class.enum :: shell_event list)"
    by (auto simp: enum_shell_event_def intro: shell_event.exhaust)
  show "distinct (enum_class.enum :: shell_event list)"
    by (simp add: enum_shell_event_def)
  have all: "(\<forall>x. P x) \<longleftrightarrow> P ReceiveRequest \<and> P ReceiveResponse \<and> P TakeRequest \<and> P TakeResponse" for P
    using shell_event.exhaust by metis
  show "enum_class.enum_all P \<longleftrightarrow> Ball UNIV P" for P :: "shell_event \<Rightarrow> bool"
    by (simp add: enum_all_shell_event_def all)
  show "enum_class.enum_ex P \<longleftrightarrow> Bex UNIV P" for P :: "shell_event \<Rightarrow> bool"
    using all[of "\<lambda>x. \<not> P x"] by (simp add: enum_ex_shell_event_def) blast
qed

end

subsection \<open>The session as a whole\<close>

text \<open>Whatever the client sends and the device answers, and however the goroutines are scheduled, a
  session makes at most a number of steps bounded by what the two send, and it stops exactly when
  the main loop has ended: no two of the goroutines wait for each other for ever.\<close>

lemma shell_session_ends:
  assumes "exec shell_step es (new_session src c out) = Some t"
  shows "length es \<le> 2 * length (msgs src) + 2 * length (incoming c) + 3 \<and>
    ((\<forall>ev. shell_step ev t = None) \<longleftrightarrow> outcome t \<noteq> None)"
proof -
  have "session_weight t + length es \<le> 2 * length (msgs src) + 2 * length (incoming c) + 5"
    using session_progress.exec_weight[OF assms] by (simp add: session_weight_def new_session_def)
  moreover have "2 \<le> session_weight t"
    by (cases "req_hand t"; cases "resp_hand t") (auto simp: session_weight_def)
  moreover have "outcome t \<noteq> None \<Longrightarrow> shell_step ev t = None" for ev
    by (simp add: shell_step_def)
  moreover have "outcome t = None \<Longrightarrow> \<not> (\<forall>ev. shell_step ev t = None)"
    using shell_live[of t] by metis
  ultimately show ?thesis by (cases "outcome t") auto
qed

text \<open>A device that refuses the shell leaves the agent with an open connection nobody will close.\<close>

lemma refused_shell_leaks:
  assumes "healthy c" "incoming c = of_str ''OKAY'' @ of_str ''FAIL'' @ message_packet m @ rest" "length m < 65536"
    and "start_command start = Ok cmd"
  shows "\<exists>c'. open_session (Inr c) \<lparr>msgs = shell_start start # rs, rend = e\<rparr> out =
    (Err (NewError (''server error: '' @ to_str m)), Some c') \<and> \<not> closed c'"
proof -
  let ?c1 = "consume 4 (emit (message_packet (of_str ''host:transport-local'')) c)"
  have o: "OpenEmulator (Inr c) = (Ok (), Some ?c1)"
    using assms open_emulator_okay[OF assms(1,2)] by (simp add: OpenEmulator_def NewRawConnection_def)
  let ?c2 = "emit (message_packet (of_str cmd)) ?c1"
  have "ReadStatus ?c2 = (Ok ''FAIL'', consume 4 ?c2)"
    using assms by (intro ReadStatus_ok[of _ _ "message_packet m @ rest"]) simp_all
  moreover have "ReadHexPrefixedBlob (consume 4 ?c2) = (Ok m, consume (length m) (consume 4 (consume 4 ?c2)))"
    using assms by (intro ReadHex_ok[of _ _ rest]) simp_all
  ultimately have "\<exists>c'. SendCommand (of_str cmd) ?c1 = (Err (NewError (''server error: '' @ to_str m)), c') \<and> \<not> closed c'"
    using assms(1) by (simp add: SendCommand_def WriteMessage_ok healthy_def[of c])
  then show ?thesis
    using o assms(4) by (auto simp: open_session_def shell_start_def ShellRequest_GetStart_def)
qed

text \<open>An exit packet without a code ends the agent.\<close>

lemma empty_exit_crashes:
  assumes "outcome s = None" "resp_hand s = Holding (Ok (3, []))"
  shows "\<exists>t. shell_step TakeResponse s = Some t \<and> outcome t = Some (Panic IndexOutOfRange)"
  using assms by (simp add: shell_step_def take_response_def handle_response_def finish_def Let_def)

text \<open>A client that closes its side of the stream ends the session, whatever the shell has still to say.\<close>

lemma half_closed_ends:
  assumes "outcome s = None" "req_hand s = Holding (Err EOF)"
  shows "\<exists>t. shell_step TakeRequest s = Some t \<and> outcome t = Some (Err EOF) \<and> closed (emuConn t)"
  using assms by (simp add: shell_step_def take_request_def finish_def closed_do_close)

end
