(* ===== verification/Handlers.thy ===== *)
theory Handlers
  imports Server SyncServer ShellServer Syslog
begin

text \<open>
  The rest of \<^verbatim>\<open>agent/server/controller.go\<close>: the calls that leave the server's state alone, that is the
  streams of states and of log lines and the calls on the device behind the guard; then the start of
  the agent, \<^verbatim>\<open>Server.Start\<close> of \<^verbatim>\<open>agent/server/server.go\<close> and \<^verbatim>\<open>agent/bin/server/main.go\<close>.
\<close>

subsection \<open>Streams\<close>

text \<open>
  \<open>waits\<close> are the results of the listener's successive waits; \<open>None\<close> is a stream that still waits
  after them.
\<close>

fun StreamState ::
  "AgentState option res list \<Rightarrow> AgentState option sink \<Rightarrow> unit res option \<times> AgentState option sink" where
  "StreamState [] out = (None, out)"
| "StreamState (Ok st # waits) out =
     (case grpc_send st out of
        (Ok _, out) \<Rightarrow> StreamState waits out
      | (Err e, out) \<Rightarrow> (Some (Err e), out)
      | (Panic p, out) \<Rightarrow> (Some (Panic p), out))"
| "StreamState (Err e # waits) out = (Some (Ok ()), out)"
| "StreamState (Panic p # waits) out = (Some (Panic p), out)"

text \<open>\<open>lines\<close> are the lines the listener receives one after the other.\<close>

fun StreamSysLog :: "string list \<Rightarrow> SysLogEntry sink \<Rightarrow> unit res option \<times> SysLogEntry sink" where
  "StreamSysLog [] out = (None, out)"
| "StreamSysLog (line # lines) out =
     (case grpc_send \<lparr>SysLogEntry_Line = line\<rparr> out of
        (Ok _, out) \<Rightarrow> StreamSysLog lines out
      | (Err e, out) \<Rightarrow> (Some (Err e), out)
      | (Panic p, out) \<Rightarrow> (Some (Panic p), out))"

subsection \<open>Calls on the device\<close>

text \<open>The guard looks at the state under the mutex; the call itself runs after it is released.\<close>

definition OpenShell ::
  "server \<Rightarrow> goerr + conn \<Rightarrow> ShellRequest source \<Rightarrow> ShellResponse sink \<Rightarrow> shell_event list \<Rightarrow>
   (unit res \<times> session option) option" where
  "OpenShell s dial src out es = (case require_running s of
     Some e \<Rightarrow> Some (Err e, None)
   | None \<Rightarrow> Process dial src out es)"

definition ListDirectory ::
  "server \<Rightarrow> goerr + conn \<Rightarrow> ListDirectoryRequest \<Rightarrow> ListDirectoryResponse res \<times> conn option" where
  "ListDirectory s dial req = (case require_running s of
     Some e \<Rightarrow> (Err e, None)
   | None \<Rightarrow> SyncServer.ListDirectory dial req)"

definition StatFile ::
  "server \<Rightarrow> goerr + conn \<Rightarrow> StatFileRequest \<Rightarrow> StatFileResponse res \<times> conn option" where
  "StatFile s dial req = (case require_running s of
     Some e \<Rightarrow> (Err e, None)
   | None \<Rightarrow> SyncServer.StatFile dial req)"

definition PullFile ::
  "server \<Rightarrow> goerr + conn \<Rightarrow> PullFileRequest \<Rightarrow> PullFileResponse sink \<Rightarrow>
   unit res \<times> (conn option \<times> PullFileResponse sink)" where
  "PullFile s dial req out = (case require_running s of
     Some e \<Rightarrow> (Err e, (None, out))
   | None \<Rightarrow> SyncServer.PullFile dial req out)"

definition PushFile :: "server \<Rightarrow> goerr + conn \<Rightarrow> PushFileRequest source \<Rightarrow> unit res \<times> conn option" where
  "PushFile s dial src = (case require_running s of
     Some e \<Rightarrow> (Err e, None)
   | None \<Rightarrow> SyncServer.PushFile dial src)"

subsection \<open>Starting the agent\<close>

text \<open>What the start depends on: the system's answers to its calls, and how serving ends.\<close>

record start_env =
  home :: "goerr + string"
  os :: "oscall \<Rightarrow> goerr option"
  rm_socket :: "string \<Rightarrow> goerr option"
  log_listen :: "string \<Rightarrow> string \<Rightarrow> goerr option"
  tcp_listen :: "goerr option"
  serve_end :: goerr

text \<open>
  The agent's process, which only ever ends with a fatal error: the state it has when it serves
  requests, \<open>None\<close> when it does not come to that, and the error it ends with.
\<close>

definition ServerStart :: "start_env \<Rightarrow> server \<Rightarrow> (server \<times> syslog) option \<times> gopanic" where
  "ServerStart env s =
     (case broadcastState s of
        (Ok _, s) \<Rightarrow>
          (case fst (StartServer (home env) (os env) []) of
             Ok _ \<Rightarrow>
               (case Syslog.Start (rm_socket env) (log_listen env) of
                  Ok log \<Rightarrow>
                    (case tcp_listen env of
                       None \<Rightarrow> (Some (s, log), LogFatal (serve_end env))
                     | Some e \<Rightarrow> (None, LogFatal e))
                | Err e \<Rightarrow> (None, LogFatal e)
                | Panic p \<Rightarrow> (None, p))
           | Err e \<Rightarrow> (None, LogFatal e)
           | Panic p \<Rightarrow> (None, p))
      | (Err e, s) \<Rightarrow> (None, LogFatal e)
      | (Panic p, s) \<Rightarrow> (None, p))"

definition main :: "start_env \<Rightarrow> (server \<times> syslog) option \<times> gopanic" where
  "main env = ServerStart env NewServer"

end
