(* ===== verification/SyncClient.thy ===== *)
theory SyncClient
  imports SyncServer
begin

text \<open>
  \<^verbatim>\<open>agent/client/sync/sync.go\<close>: the client's side of the file operations. The gRPC client is a
  parameter, the function from requests to responses for the unary calls, and the two ends of a
  stream of \<open>Grpc\<close> for the others. The last sections put this side and \<open>SyncServer\<close> together, down
  to the bytes the device exchanges with the adb client.
\<close>

subsection \<open>Results\<close>

record client_FileStat =
  cDev :: u64
  cINo :: u64
  cMode :: u32
  cNLink :: u32
  cUId :: u32
  cGId :: u32
  cSize :: u64
  cATime :: i64
  cMTime :: i64
  cCTime :: i64

definition convertFileStat :: "FileStat_pb \<Rightarrow> client_FileStat" where
  "convertFileStat stat = \<lparr>
     cDev = FileStat_Dev stat,
     cINo = FileStat_Ino stat,
     cMode = FileStat_Mode stat,
     cNLink = FileStat_Nlink stat,
     cUId = FileStat_Uid stat,
     cGId = FileStat_Gid stat,
     cSize = FileStat_Size stat,
     cATime = FileStat_Atime stat,
     cMTime = FileStat_Mtime stat,
     cCTime = FileStat_Ctime stat\<rparr>"

record DirectoryEntry =
  entryName :: string
  entryStatError :: u32
  entryStat :: "client_FileStat option"

subsection \<open>Listing and status\<close>

definition convert_response :: "ListDirectoryEntry_pb option \<Rightarrow> DirectoryEntry res" where
  "convert_response entry = (case entry of
     None \<Rightarrow> Panic NilDereference
   | Some e \<Rightarrow>
      (case ListDirectoryEntry_Stat e of
         Some (ListDirectoryEntry_StatError err) \<Rightarrow>
           Ok \<lparr>entryName = ListDirectoryEntry_Name e, entryStatError = err, entryStat = None\<rparr>
       | Some (ListDirectoryEntry_StatValue (Some v)) \<Rightarrow>
           Ok \<lparr>entryName = ListDirectoryEntry_Name e, entryStatError = 0, entryStat = Some (convertFileStat v)\<rparr>
       | Some (ListDirectoryEntry_StatValue None) \<Rightarrow> Panic NilDereference
       | None \<Rightarrow> Err (NewError ''unknown response'')))"

fun convert_all :: "ListDirectoryEntry_pb option list \<Rightarrow> DirectoryEntry list res" where
  "convert_all [] = Ok []"
| "convert_all (e # es) = bind_res (convert_response e) (\<lambda>x. bind_res (convert_all es) (\<lambda>xs. Ok (x # xs)))"

definition ListDirectory ::
  "(ListDirectoryRequest \<Rightarrow> ListDirectoryResponse res) \<Rightarrow> string \<Rightarrow> DirectoryEntry list res" where
  "ListDirectory client path =
     bind_res (client \<lparr>ListDirectoryRequest_Path = path\<rparr>) (\<lambda>resp.
       convert_all (ListDirectoryResponse_Entries resp))"

definition StatFile ::
  "(StatFileRequest \<Rightarrow> StatFileResponse res) \<Rightarrow> string \<Rightarrow> bool \<Rightarrow> client_FileStat res" where
  "StatFile client path followLinks =
     bind_res (client \<lparr>StatFileRequest_Path = path, StatFileRequest_FollowLinks = followLinks\<rparr>) (\<lambda>resp.
       case StatFileResponse_Stat resp of
         Some (StatFileResponse_StatError err) \<Rightarrow> Err (NewError (''stat failed: '' @ fmt_d (unat err)))
       | Some (StatFileResponse_StatValue (Some v)) \<Rightarrow> Ok (convertFileStat v)
       | Some (StatFileResponse_StatValue None) \<Rightarrow> Panic NilDereference
       | None \<Rightarrow> Err (NewError ''unknown response''))"

subsection \<open>Pulling\<close>

record PullStream =
  pserver :: "PullFileResponse source"
  complete :: bool

text \<open>The call only opens the stream: \<open>opened\<close> is what the gRPC client returns.\<close>

definition PullFile :: "(PullFileRequest \<Rightarrow> goerr + PullFileResponse source) \<Rightarrow> string \<Rightarrow> PullStream res" where
  "PullFile client path = (case client \<lparr>PullFileRequest_Path = path\<rparr> of
     Inl e \<Rightarrow> Err e
   | Inr server \<Rightarrow> Ok \<lparr>pserver = server, complete = False\<rparr>)"

text \<open>\<open>Ok None\<close> is \<^verbatim>\<open>nil, nil\<close>, which signifies that the stream has completed.\<close>

definition Recv :: "PullStream \<Rightarrow> byte list option res \<times> PullStream" where
  "Recv s =
     (if complete s then (Ok None, s)
      else case grpc_recv (pserver s) of
        (Err e, server) \<Rightarrow> (Err e, s\<lparr>pserver := server\<rparr>)
      | (Panic p, server) \<Rightarrow> (Panic p, s\<lparr>pserver := server\<rparr>)
      | (Ok resp, server) \<Rightarrow>
          (Ok (wire_bytes (PullFileResponse_Data resp)),
           s\<lparr>pserver := server, complete := (complete s \<or> PullFileResponse_Last resp)\<rparr>))"

definition Complete :: "PullStream \<Rightarrow> bool" where
  "Complete s = complete s"

subsection \<open>Pushing\<close>

text \<open>A push stream is the sink its messages go to.\<close>

definition PushFile ::
  "string \<Rightarrow> u32 \<Rightarrow> goerr + PushFileRequest sink \<Rightarrow> unit res \<times> PushFileRequest sink option" where
  "PushFile path mode opened = (case opened of
     Inl e \<Rightarrow> (Err e, None)
   | Inr server \<Rightarrow> map_prod id Some (grpc_send (start_request path mode) server))"

definition Send :: "byte list \<Rightarrow> PushFileRequest sink \<Rightarrow> unit res \<times> PushFileRequest sink" where
  "Send blob s = grpc_send (data_request blob) s"

text \<open>
  The error is that of the last send. The sending side is then closed and the server's answer, the
  outcome of the transfer, is not asked for.
\<close>

definition End :: "u32 \<Rightarrow> PushFileRequest sink \<Rightarrow> unit res \<times> PushFileRequest sink" where
  "End mtime s = map_prod id CloseSend (grpc_send (end_request mtime) s)"

subsection \<open>Callers\<close>

text \<open>A caller that receives until it is told that the stream has completed.\<close>

lemma Recv_Some_shrinks:
  "Recv s = (Ok (Some d), s') \<Longrightarrow> length (msgs (pserver s')) < length (msgs (pserver s))"
  by (auto simp: Recv_def grpc_recv_def split: if_splits list.splits)

function pull_all :: "PullStream \<Rightarrow> byte list list res" where
  "pull_all s = (case Recv s of
     (Ok None, _) \<Rightarrow> Ok []
   | (Ok (Some d), s') \<Rightarrow> bind_res (pull_all s') (\<lambda>ds. Ok (d # ds))
   | (Err e, _) \<Rightarrow> Err e
   | (Panic p, _) \<Rightarrow> Panic p)"
  by pat_completeness auto
termination
  by (relation "measure (\<lambda>s. length (msgs (pserver s)))") (auto dest: Recv_Some_shrinks[OF sym])

declare pull_all.simps [simp del]

text \<open>A caller that sends all its blocks and then the end.\<close>

fun push_blocks :: "byte list list \<Rightarrow> u32 \<Rightarrow> PushFileRequest sink \<Rightarrow> unit res \<times> PushFileRequest sink" where
  "push_blocks [] t s = End t s"
| "push_blocks (d # ds) t s = on_ok (Send d s) (\<lambda>s. s) (\<lambda>_ s. push_blocks ds t s)"

subsection \<open>Both sides together\<close>

definition client_stat :: "FileStat \<Rightarrow> client_FileStat" where
  "client_stat s = \<lparr>cDev = Dev s, cINo = INo s, cMode = Mode s, cNLink = NLink s, cUId = UId s,
     cGId = GId s, cSize = Size s, cATime = ATime s, cMTime = MTime s, cCTime = CTime s\<rparr>"

definition client_entry :: "ListDirectoryEntry \<Rightarrow> DirectoryEntry" where
  "client_entry e = \<lparr>entryName = Name e, entryStatError = StatError e,
     entryStat = (if StatError e = 0 then Some (client_stat (Stat e)) else None)\<rparr>"

lemma convert_both: "convertFileStat (SyncServer.convertFileStat s) = client_stat s"
  by (simp add: convertFileStat_def SyncServer.convertFileStat_def client_stat_def)

lemma convert_all_entries: "convert_all (map (Some \<circ> convert_entry) es) = Ok (map client_entry es)"
  by (induction es) (auto simp: convert_response_def convert_entry_def client_entry_def convert_both)

lemma pull_all_data:
  "pull_all \<lparr>pserver = \<lparr>msgs = map data_response ds @ ms, rend = e\<rparr>, complete = False\<rparr> =
     (if [] \<in> set ds then Ok (takeWhile (\<lambda>d. d \<noteq> []) ds)
      else bind_res (pull_all \<lparr>pserver = \<lparr>msgs = ms, rend = e\<rparr>, complete = False\<rparr>) (\<lambda>xs. Ok (ds @ xs)))"
proof (induction ds)
  case Nil
  show ?case by (cases "pull_all \<lparr>pserver = \<lparr>msgs = ms, rend = e\<rparr>, complete = False\<rparr>") simp_all
next
  case (Cons d ds)
  show ?case
  proof (cases "d = []")
    case True
    then show ?thesis
      by (subst pull_all.simps) (simp add: Recv_def wire_bytes_def data_response_def)
  next
    case False
    then have "pull_all \<lparr>pserver = \<lparr>msgs = map data_response (d # ds) @ ms, rend = e\<rparr>, complete = False\<rparr> =
        bind_res (pull_all \<lparr>pserver = \<lparr>msgs = map data_response ds @ ms, rend = e\<rparr>, complete = False\<rparr>) (\<lambda>ds. Ok (d # ds))"
      by (subst pull_all.simps) (simp add: Recv_def wire_bytes_def data_response_def)
    with False Cons.IH show ?thesis
      by (cases "pull_all \<lparr>pserver = \<lparr>msgs = ms, rend = e\<rparr>, complete = False\<rparr>") auto
  qed
qed

lemma pull_all_end:
  "pull_all \<lparr>pserver = \<lparr>msgs = [last_response], rend = e\<rparr>, complete = False\<rparr> = Ok []"
  "pull_all \<lparr>pserver = \<lparr>msgs = [], rend = e\<rparr>, complete = False\<rparr> = Err e"
  by (simp_all add: pull_all.simps Recv_def wire_bytes_def last_response_def)

lemma push_blocks_sent:
  "send_fail s = [] \<Longrightarrow> push_blocks ds t s = (Ok (), CloseSend (s\<lparr>sent := sent s @ map data_request ds @ [end_request t]\<rparr>))"
  by (induction ds arbitrary: s) (simp_all add: End_def Send_def grpc_send_ok)

subsection \<open>The adb side of a transfer\<close>

lemma PullFile_okay:
  assumes "healthy c" "incoming c = of_str ''OKAY'' @ of_str ''OKAY'' @ rest"
  shows "\<exists>c2. AdbSync.PullFile path (Inr c) = (Ok (), Some c2) \<and> healthy c2 \<and> incoming c2 = rest \<and>
    outb c2 = outb c @ sync_request (recv_packet path)"
proof -
  let ?c2 = "emit (recv_packet path) (consume 4 (emit (message_packet (of_str ''sync:''))
      (consume 4 (emit (message_packet (of_str ''host:transport-local'')) c))))"
  have "pull_start path c = (Ok (), ?c2)"
    unfolding pull_start_def using sync_prologue[OF assms(1), of do_close "recv_packet path" do_close "\<lambda>c. (Ok (), c)" "()" ?c2] assms(2)
    by simp
  then show ?thesis
    using assms by (simp add: AdbSync.PullFile_def NewRawConnection_def sync_request_def)
qed

lemma PushFile_okay:
  assumes "healthy c" "incoming c = of_str ''OKAY'' @ of_str ''OKAY'' @ rest"
  shows "\<exists>c2. AdbSync.PushFile path mode (Inr c) = (Ok (), Some c2) \<and> healthy c2 \<and> incoming c2 = rest \<and>
    outb c2 = outb c @ sync_request (send_packet path mode)"
proof -
  let ?c2 = "emit (send_packet path mode) (consume 4 (emit (message_packet (of_str ''sync:''))
      (consume 4 (emit (message_packet (of_str ''host:transport-local'')) c))))"
  have "push_start path mode c = (Ok (), ?c2)"
    unfolding push_start_def using sync_prologue[OF assms(1), of do_close "send_packet path mode" do_close "\<lambda>c. (Ok (), c)" "()" ?c2] assms(2)
    by simp
  then show ?thesis
    using assms by (simp add: AdbSync.PushFile_def NewRawConnection_def sync_request_def)
qed

lemma StatFile_okay:
  assumes "healthy c" "incoming c = of_str ''OKAY'' @ of_str ''OKAY'' @ PutUint32 rid @ PutUint32 err @ stat_wire st @ rest"
    and "rid = IdStatV2 \<or> rid = IdLStatV2"
  shows "\<exists>c2. AdbSync.StatFile path fl (Inr c) = (Ok (err, st), Some c2)"
proof -
  have nf: "rid \<noteq> IdFail" using assms(3) id_distinct by metis
  let ?req = "path_packet (if fl then IdStatV2 else IdLStatV2) path"
  let ?c2 = "emit ?req (consume 4 (emit (message_packet (of_str ''sync:''))
      (consume 4 (emit (message_packet (of_str ''host:transport-local'')) c))))"
  let ?p = "PutUint32 rid @ PutUint32 err @ stat_wire st"
  let ?k = "\<lambda>c. on_ok (ReadRaw (FileStatSize + 8) c) (\<lambda>c. c) stat_response"
  have "ReadRaw (FileStatSize + 8) ?c2 = (Ok ?p, consume (FileStatSize + 8) ?c2)"
    using assms(1,2) by (intro ReadRaw_prefix[of _ _ rest]) (simp_all add: FileStatSize_def stat_codec.enc_width)
  moreover have "stat_response ?p (consume (FileStatSize + 8) ?c2) = (Ok (err, st), consume (FileStatSize + 8) ?c2)"
    using assms(3) nf
    by (auto simp: stat_response_def slice_simps stat_codec.enc_width stat_codec.dec_enc FileStatSize_def Let_def)
  ultimately have "\<exists>c3. stat_on path fl c = (Ok (err, st), c3)"
    unfolding stat_on_def deferring_on_ok
    using sync_prologue[OF assms(1), of "\<lambda>c. c" ?req "\<lambda>c. c" ?k "(err, st)" "consume (FileStatSize + 8) ?c2"] assms(2)
    by auto
  then show ?thesis by (auto simp: AdbSync.StatFile_def NewRawConnection_def)
qed

lemma push_Done_receipt:
  assumes "healthy c" "incoming c = chunk_wire rid x @ rest" "length x < 2 ^ 32"
  shows "\<exists>c'. push_Done t c = (if rid = IdFail then Err (NewError (to_str x)) else if rid = IdOkay then Ok ()
      else Err (NewError ''unexpected resp id''), c') \<and> closed c' \<and> outb c' = outb c @ PutUint32 IdDone @ PutUint32 t"
proof -
  let ?c = "emit (PutUint32 IdDone @ PutUint32 t) c"
  let ?h = "PutUint32 rid @ PutUint32 (word_of_nat (length x))"
  have "ReadRaw 8 ?c = (Ok ?h, consume 8 ?c)"
    using assms by (intro ReadRaw_prefix[of _ _ "x @ rest"]) (simp_all add: chunk_wire_def)
  moreover have "ReadRaw (length x) (consume 8 ?c) = (Ok x, consume (length x) (consume 8 ?c))"
    using assms by (intro ReadRaw_prefix[of _ _ rest]) (simp_all add: chunk_wire_def)
  ultimately show ?thesis
    using assms(1,3) by (simp add: push_Done_def WriteRaw_ok chunk_fields unat_of_length Let_def deferring_def)
qed

subsection \<open>Properties\<close>

text \<open>C25: A directory listing travels from the device to the client as it is: name, error and every field of
  the status of each entry, in the device's order; an entry without error has a status and one with an
  error has none.\<close>

theorem list_end_to_end:
  assumes "healthy c" "incoming c = of_str ''OKAY'' @ of_str ''OKAY'' @ concat (map dent_wire es) @ done_wire pad @ rest"
    and "length pad = 72" "\<forall>e \<in> set es. name_fits e"
  shows "SyncClient.ListDirectory (\<lambda>req. fst (SyncServer.ListDirectory (Inr c) req)) path = Ok (map client_entry es)"
proof -
  obtain c' where "AdbSync.ListDirectory path (Inr c) = (Ok es, Some c')"
    using ListDirectory_wire[OF assms(1), of path es] assms(2-4) by blast
  then show ?thesis
    by (simp add: SyncClient.ListDirectory_def SyncServer.ListDirectory_def convert_all_entries)
qed

theorem list_end_to_end_witness:
  "SyncClient.ListDirectory (\<lambda>req. fst (SyncServer.ListDirectory
      (Inr (peer_conn (of_str ''OKAYOKAY'' @ dent_wire \<lparr>Name = ''f'', StatError = 0, Stat = sample_stat\<rparr> @
        done_wire (replicate 72 0)))) req)) ''/'' =
     Ok [client_entry \<lparr>Name = ''f'', StatError = 0, Stat = sample_stat\<rparr>]"
  using list_end_to_end[of "peer_conn (of_str ''OKAYOKAY'' @ dent_wire \<lparr>Name = ''f'', StatError = 0, Stat = sample_stat\<rparr> @
        done_wire (replicate 72 0))" "[\<lparr>Name = ''f'', StatError = 0, Stat = sample_stat\<rparr>]" "replicate 72 0" "[]"]
  by (simp add: okay_twice name_fits_def)

text \<open>C26: The status of a file travels from the device to the client as it is, whichever of the two replies
  the device uses; the device's error number becomes an error that shows it.\<close>

theorem stat_end_to_end:
  assumes "healthy c" "incoming c = of_str ''OKAY'' @ of_str ''OKAY'' @ PutUint32 rid @ PutUint32 err @ stat_wire st @ rest"
    and "rid = IdStatV2 \<or> rid = IdLStatV2"
  shows "SyncClient.StatFile (\<lambda>req. fst (SyncServer.StatFile (Inr c) req)) path followLinks =
    (if err = 0 then Ok (client_stat st) else Err (NewError (''stat failed: '' @ fmt_d (unat err))))"
  using StatFile_okay[OF assms, of path followLinks]
  by (auto simp: SyncClient.StatFile_def SyncServer.StatFile_def convert_both)

theorem stat_end_to_end_witness:
  "SyncClient.StatFile (\<lambda>req. fst (SyncServer.StatFile
      (Inr (peer_conn (of_str ''OKAYOKAY'' @ PutUint32 IdStatV2 @ PutUint32 0 @ stat_wire sample_stat))) req)) ''/f'' True =
     Ok (client_stat sample_stat)"
  using stat_end_to_end[of "peer_conn (of_str ''OKAYOKAY'' @ PutUint32 IdStatV2 @ PutUint32 0 @ stat_wire sample_stat)"
      IdStatV2 0 sample_stat "[]" "''/f''" True]
  by (simp add: okay_twice)

text \<open>C24: A pulled file reaches the client block by block, and completely when the device sends no empty block;
  at an empty block the client takes the transfer for completed. When the device fails after some
  blocks, the agent reports its message and never the end of the file, and the connection to the
  device is closed in any case.\<close>

theorem pull_end_to_end:
  assumes "healthy c" "incoming c = of_str ''OKAY'' @ of_str ''OKAY'' @ concat (map (chunk_wire IdData) ds) @ chunk_wire rid x @ rest"
    and "rid = IdDone \<or> rid = IdFail" "\<forall>d \<in> set (x # ds). length d < 2 ^ 32"
  shows "\<exists>c' out. SyncServer.PullFile (Inr c) \<lparr>PullFileRequest_Path = path\<rparr> new_sink =
      (if rid = IdDone then Ok () else Err (NewError (to_str x)), (Some c', out)) \<and> closed c' \<and>
    pull_all \<lparr>pserver = \<lparr>msgs = sent out, rend = e\<rparr>, complete = False\<rparr> =
      (if [] \<in> set ds then Ok (takeWhile (\<lambda>d. d \<noteq> []) ds)
       else if rid = IdDone then Ok ds else Err e)"
proof -
  obtain c2 where c2: "AdbSync.PullFile path (Inr c) = (Ok (), Some c2)" "healthy c2"
      "incoming c2 = concat (map (chunk_wire IdData) ds) @ chunk_wire rid x @ rest"
    using PullFile_okay[OF assms(1), of _ path] assms(2) by blast
  let ?out = "new_sink\<lparr>sent := sent new_sink @ map data_response ds @ (if rid = IdDone then [last_response] else [])\<rparr>"
  obtain c3 where "pull_loop new_sink c2 = (if rid = IdDone then Ok () else Err (NewError (to_str x)), (c3, ?out))"
    using pull_loop_chunks[OF c2(2) _ c2(3) assms(4,3), of new_sink] by (auto simp: no_fail_def new_sink_def)
  then have "SyncServer.PullFile (Inr c) \<lparr>PullFileRequest_Path = path\<rparr> new_sink =
      (if rid = IdDone then Ok () else Err (NewError (to_str x)), (Some (snd (stream_Close c3)), ?out))"
    by (simp add: SyncServer.PullFile_def c2(1))
  moreover have "closed (snd (stream_Close c3))" by (simp add: stream_Close_def)
  moreover have "pull_all \<lparr>pserver = \<lparr>msgs = sent ?out, rend = e\<rparr>, complete = False\<rparr> =
      (if [] \<in> set ds then Ok (takeWhile (\<lambda>d. d \<noteq> []) ds) else if rid = IdDone then Ok ds else Err e)"
    using pull_all_data[of ds "[last_response]" e] pull_all_data[of ds "[]" e]
    by (simp add: new_sink_def pull_all_end)
  ultimately show ?thesis by blast
qed

theorem pull_end_to_end_witness:
  "\<exists>c' out. SyncServer.PullFile (Inr (peer_conn (of_str ''OKAYOKAY'' @ chunk_wire IdData [1, 2] @ chunk_wire IdDone [])))
      \<lparr>PullFileRequest_Path = ''/f''\<rparr> new_sink = (Ok (), (Some c', out)) \<and> closed c' \<and>
    pull_all \<lparr>pserver = \<lparr>msgs = sent out, rend = EOF\<rparr>, complete = False\<rparr> = Ok [[1, 2]]"
  using pull_end_to_end[of "peer_conn (of_str ''OKAYOKAY'' @ chunk_wire IdData [1, 2] @ chunk_wire IdDone [])"
      "[[1, 2]]" IdDone "[]" "[]" "''/f''" EOF]
  by (simp add: okay_twice)

text \<open>C9: What a client pushes reaches the device: the request, its blocks of at most 64 KiB in order and the
  modification time; the agent reports the device's verdict. The client is told of success whatever
  the verdict, even when the device refuses the file.\<close>

theorem push_end_to_end:
  assumes "healthy c" "incoming c = of_str ''OKAY'' @ of_str ''OKAY'' @ chunk_wire rid x @ rest" "length x < 2 ^ 32"
    and "\<forall>d \<in> set ds. length d \<le> MaxData"
  shows "\<exists>s1 s2 c'. SyncClient.PushFile path mode (Inr new_sink) = (Ok (), Some s1) \<and>
    push_blocks ds t s1 = (Ok (), s2) \<and>
    SyncServer.PushFile (Inr c) \<lparr>msgs = sent s2, rend = EOF\<rparr> =
      (if rid = IdFail then Err (NewError (to_str x)) else if rid = IdOkay then Ok ()
       else Err (NewError ''unexpected resp id''), Some c') \<and>
    closed c' \<and>
    outb c' = outb c @ sync_request (send_packet path mode) @ concat (map (chunk_wire IdData) ds) @
      PutUint32 IdDone @ PutUint32 t"
proof -
  let ?s1 = "new_sink\<lparr>sent := [start_request path mode]\<rparr>"
  let ?s2 = "CloseSend (?s1\<lparr>sent := [start_request path mode] @ map data_request ds @ [end_request t]\<rparr>)"
  have s1: "SyncClient.PushFile path mode (Inr new_sink) = (Ok (), Some ?s1)"
    by (simp add: SyncClient.PushFile_def new_sink_def grpc_send_def)
  have s2: "push_blocks ds t ?s1 = (Ok (), ?s2)"
    using push_blocks_sent[of ?s1 ds t] by (simp add: new_sink_def)
  obtain c2 where c2: "AdbSync.PushFile path mode (Inr c) = (Ok (), Some c2)" "healthy c2"
      "incoming c2 = chunk_wire rid x @ rest" "outb c2 = outb c @ sync_request (send_packet path mode)"
    using PushFile_okay[OF assms(1,2), of path mode] by blast
  obtain c3 where c3: "push_all ds c2 = (Ok (), c3)" "healthy c3" "incoming c3 = incoming c2"
      "outb c3 = outb c2 @ concat (map data_frame (map Some ds))"
    using push_all_ok[OF c2(2) assms(4)] by blast
  have "data_frame \<circ> Some = chunk_wire IdData" by (simp add: fun_eq_iff data_frame_def)
  then have o3: "outb c3 = outb c2 @ concat (map (chunk_wire IdData) ds)" using c3(4) by (simp add: comp_def)
  let ?r = "if rid = IdFail then Err (NewError (to_str x)) else if rid = IdOkay then Ok ()
       else Err (NewError ''unexpected resp id'') :: unit res"
  obtain c4 where c4: "push_Done t c3 = (?r, c4)" "closed c4"
      "outb c4 = outb c3 @ PutUint32 IdDone @ PutUint32 t"
    using push_Done_receipt[OF c3(2), of rid x rest t] c2(3) c3(3) assms(3) by metis
  have "push_loop (map data_request ds @ [end_request t]) EOF c2 = (?r, c4)"
    unfolding push_loop_data by (simp add: c3(1) end_request_def c4(1))
  then have "SyncServer.PushFile (Inr c) \<lparr>msgs = sent ?s2, rend = EOF\<rparr> = (?r, Some (snd (push_Close c4)))"
    by (simp add: SyncServer.PushFile_def CloseSend_def start_request_def c2(1))
  then show ?thesis
    using s1 s2 c4 o3 c2(4) by (auto simp: push_Close_def)
qed

theorem push_end_to_end_witness:
  "\<exists>s1 s2 c'. SyncClient.PushFile ''/f'' 420 (Inr new_sink) = (Ok (), Some s1) \<and> push_blocks [[1], [2]] 9 s1 = (Ok (), s2) \<and>
    SyncServer.PushFile (Inr (peer_conn (of_str ''OKAYOKAY'' @ chunk_wire IdFail (of_str ''read-only''))))
      \<lparr>msgs = sent s2, rend = EOF\<rparr> = (Err (NewError ''read-only''), Some c')"
  using push_end_to_end[of "peer_conn (of_str ''OKAYOKAY'' @ chunk_wire IdFail (of_str ''read-only''))" IdFail
      "of_str ''read-only''" "[]" "[[1], [2]]" "''/f''" 420 9]
  by (simp add: okay_twice MaxData_def) blast

end
