(* ===== verification/ShellClient.thy ===== *)
theory ShellClient
  imports ShellServer
begin

text \<open>
  \<^verbatim>\<open>agent/client/shell/shell.go\<close>: the client's side of a shell. The gRPC stream is the source and the sink
  of \<open>Grpc\<close>. The last sections put this side and \<open>ShellServer\<close> together, down to the packets the
  device exchanges with the agent.
\<close>

subsection \<open>Types\<close>

type_synonym Type = ShellStartRequest_ShellType

definition TypeRaw :: Type where "TypeRaw = ShellStartRequest_RAW"
definition TypePTY :: Type where "TypePTY = ShellStartRequest_PTY"

type_synonym OutputChannel = ShellOutputResponse_ShellOutputChannel

definition ChannelOut :: OutputChannel where "ChannelOut = ShellOutputResponse_OUT"
definition ChannelErr :: OutputChannel where "ChannelErr = ShellOutputResponse_ERR"

record Request =
  RequestType :: Type
  RequestCommand :: "string option"
  RequestTermType :: "string option"

record Output =
  OutputCh :: OutputChannel
  OutputData :: "byte list"

record Shell =
  shell_in :: "ShellResponse source"
  shell_out :: "ShellRequest sink"
  shell_exited :: bool
  exitCode :: byte

subsection \<open>Operations\<close>

text \<open>\<open>opened\<close> is the stream the gRPC client opens, or its error.\<close>

definition Open :: "goerr + (ShellResponse source \<times> ShellRequest sink) \<Rightarrow> Request \<Rightarrow> Shell res" where
  "Open opened request = (case opened of
     Inl e \<Rightarrow> Err e
   | Inr (src, out) \<Rightarrow>
      (case grpc_send \<lparr>ShellRequest_Message = Some (ShellRequest_Start (Some
           \<lparr>ShellStartRequest_ShellType = RequestType request, ShellStartRequest_Command = RequestCommand request,
            ShellStartRequest_TermType = RequestTermType request\<rparr>))\<rparr> out of
         (Ok _, out) \<Rightarrow> Ok \<lparr>shell_in = src, shell_out = out, shell_exited = False, exitCode = 0\<rparr>
       | (Err e, _) \<Rightarrow> Err e
       | (Panic p, _) \<Rightarrow> Panic p))"

definition shell_send :: "ShellRequest \<Rightarrow> Shell \<Rightarrow> unit res \<times> Shell" where
  "shell_send m s = map_prod id (\<lambda>out. s\<lparr>shell_out := out\<rparr>) (grpc_send m (shell_out s))"

definition SendInput :: "byte list \<Rightarrow> Shell \<Rightarrow> unit res \<times> Shell" where
  "SendInput data = shell_send \<lparr>ShellRequest_Message = Some (ShellRequest_Stdin (Some
     \<lparr>ShellStdInRequest_Data = data, ShellStdInRequest_Close = False\<rparr>))\<rparr>"

definition CloseInput :: "Shell \<Rightarrow> unit res \<times> Shell" where
  "CloseInput = shell_send \<lparr>ShellRequest_Message = Some (ShellRequest_Stdin (Some
     \<lparr>ShellStdInRequest_Data = [], ShellStdInRequest_Close = True\<rparr>))\<rparr>"

definition Resize :: "u32 \<Rightarrow> u32 \<Rightarrow> u32 \<Rightarrow> u32 \<Rightarrow> Shell \<Rightarrow> unit res \<times> Shell" where
  "Resize rows cols width height = shell_send \<lparr>ShellRequest_Message = Some (ShellRequest_Resize (Some
     \<lparr>ShellResizeRequest_Rows = rows, ShellResizeRequest_Cols = cols,
      ShellResizeRequest_Width = width, ShellResizeRequest_Height = height\<rparr>))\<rparr>"

text \<open>\<open>Ok None\<close> is \<^verbatim>\<open>nil, nil\<close>, which signifies that the shell has exited.\<close>

definition Recv :: "Shell \<Rightarrow> Output option res \<times> Shell" where
  "Recv s =
     (if shell_exited s then (Ok None, s)
      else case grpc_recv (shell_in s) of
        (Err e, src) \<Rightarrow> (Err e, s\<lparr>shell_in := src\<rparr>)
      | (Panic p, src) \<Rightarrow> (Panic p, s\<lparr>shell_in := src\<rparr>)
      | (Ok rmsg, src) \<Rightarrow>
         (let s = s\<lparr>shell_in := src\<rparr>
          in case ShellResponse_GetMessage (Some rmsg) of
            Some (ShellResponse_Output (Some m)) \<Rightarrow>
              (Ok (Some \<lparr>OutputCh = ShellOutputResponse_Channel m, OutputData = ShellOutputResponse_Data m\<rparr>), s)
          | Some (ShellResponse_Output None) \<Rightarrow> (Panic NilDereference, s)
          | Some (ShellResponse_Exit (Some m)) \<Rightarrow>
              (Ok None, s\<lparr>exitCode := ucast (ShellExitResponse_Code m), shell_exited := True\<rparr>)
          | Some (ShellResponse_Exit None) \<Rightarrow> (Panic NilDereference, s)
          | None \<Rightarrow> (Err (NewError ''unknown response''), s)))"

definition ExitCode :: "Shell \<Rightarrow> bool \<times> byte" where
  "ExitCode s = (shell_exited s, exitCode s)"

subsection \<open>Callers\<close>

text \<open>What a caller does with its input, and the packets the device is to get for it.\<close>

datatype input = Input "byte list" | CloseIn | ResizeTo u32 u32 u32 u32

fun send_input :: "input \<Rightarrow> Shell \<Rightarrow> unit res \<times> Shell" where
  "send_input (Input b) = SendInput b"
| "send_input CloseIn = CloseInput"
| "send_input (ResizeTo r c w h) = Resize r c w h"

fun send_inputs :: "input list \<Rightarrow> Shell \<Rightarrow> unit res \<times> Shell" where
  "send_inputs [] s = (Ok (), s)"
| "send_inputs (i # is) s = on_ok (send_input i s) (\<lambda>s. s) (\<lambda>_ s. send_inputs is s)"

fun input_packets :: "input \<Rightarrow> (byte \<times> byte list) list" where
  "input_packets (Input b) = (if b = [] then [] else [(0, b)])"
| "input_packets CloseIn = [(4, [])]"
| "input_packets (ResizeTo r c w h) =
     [(5, of_str (fmt_d (unat r) @ ''x'' @ fmt_d (unat c) @ '','' @ fmt_d (unat w) @ ''x'' @ fmt_d (unat h)))]"

text \<open>A caller that receives until it is told of the exit.\<close>

lemma shell_Recv_shrinks:
  "Recv s = (Ok (Some d), s') \<Longrightarrow> length (msgs (shell_in s')) < length (msgs (shell_in s))"
  by (auto simp: Recv_def grpc_recv_def Let_def
      split: if_splits list.splits option.splits ShellResponse_Message.splits)

function recv_all :: "Shell \<Rightarrow> (Output list \<times> (bool \<times> byte)) res" where
  "recv_all s = (case Recv s of
     (Ok None, s') \<Rightarrow> Ok ([], ExitCode s')
   | (Ok (Some d), s') \<Rightarrow> bind_res (recv_all s') (\<lambda>(ds, x). Ok (d # ds, x))
   | (Err e, _) \<Rightarrow> Err e
   | (Panic p, _) \<Rightarrow> Panic p)"
  by pat_completeness auto
termination
  by (relation "measure (\<lambda>s. length (msgs (shell_in s)))") (auto dest: shell_Recv_shrinks[OF sym])

declare recv_all.simps [simp del]

subsection \<open>Both sides together\<close>

fun input_request :: "input \<Rightarrow> ShellRequest" where
  "input_request (Input b) = \<lparr>ShellRequest_Message = Some (ShellRequest_Stdin (Some
     \<lparr>ShellStdInRequest_Data = b, ShellStdInRequest_Close = False\<rparr>))\<rparr>"
| "input_request CloseIn = \<lparr>ShellRequest_Message = Some (ShellRequest_Stdin (Some
     \<lparr>ShellStdInRequest_Data = [], ShellStdInRequest_Close = True\<rparr>))\<rparr>"
| "input_request (ResizeTo r c w h) = \<lparr>ShellRequest_Message = Some (ShellRequest_Resize (Some
     \<lparr>ShellResizeRequest_Rows = r, ShellResizeRequest_Cols = c,
      ShellResizeRequest_Width = w, ShellResizeRequest_Height = h\<rparr>))\<rparr>"

lemma request_blobs_input: "request_blobs (input_request i) = input_packets i"
  by (cases i) (simp_all add: request_blobs_def resize_payload_def)

lemma send_input_eq: "send_input i = shell_send (input_request i)"
  by (cases i) (simp_all add: SendInput_def CloseInput_def Resize_def)

lemma send_inputs_sent:
  "no_fail (shell_out s) \<Longrightarrow> send_inputs is s =
     (Ok (), s\<lparr>shell_out := (shell_out s)\<lparr>sent := sent (shell_out s) @ map input_request is\<rparr>\<rparr>)"
  by (induction "is" arbitrary: s)
    (simp_all add: send_input_eq shell_send_def no_fail_def grpc_send_ok)

text \<open>The command line of a request, as the adb daemon of the device expects it.\<close>

definition shell_command :: "Request \<Rightarrow> string" where
  "shell_command req = ''shell,v2'' @ (case RequestTermType req of None \<Rightarrow> '''' | Some t \<Rightarrow> '',TERM='' @ t) @
     (if RequestType req = TypeRaw then '',raw:'' else '',pty:'') @
     (case RequestCommand req of None \<Rightarrow> '''' | Some c \<Rightarrow> c)"

definition start_of :: "Request \<Rightarrow> ShellStartRequest" where
  "start_of req = \<lparr>ShellStartRequest_ShellType = RequestType req, ShellStartRequest_Command = RequestCommand req,
     ShellStartRequest_TermType = RequestTermType req\<rparr>"

lemma start_command_of:
  "RequestType req = TypeRaw \<or> RequestType req = TypePTY \<Longrightarrow>
   start_command (start_of req) = Ok (shell_command req)"
  by (auto simp: start_command_def start_of_def shell_command_def TypeRaw_def TypePTY_def Let_def
      ShellStartRequest_RAW_def ShellStartRequest_PTY_def split: option.splits)

lemma Open_sent:
  "Open (Inr (src, new_sink)) req =
     Ok \<lparr>shell_in = src, shell_out = new_sink\<lparr>sent := [shell_start (start_of req)]\<rparr>, shell_exited = False, exitCode = 0\<rparr>"
  by (simp add: Open_def new_sink_def grpc_send_def shell_start_def start_of_def)

definition output_of :: "byte \<times> byte list \<Rightarrow> Output" where
  "output_of f = \<lparr>OutputCh = (if fst f = 2 then ChannelErr else ChannelOut), OutputData = snd f\<rparr>"

lemma code_roundtrip: "(ucast (ucast (code :: byte) :: u32) :: byte) = code"
  by (simp add: ucast_up_ucast_id is_up)

lemma recv_all_outputs:
  "\<forall>f \<in> set os. fst f \<noteq> 3 \<Longrightarrow> shell_in s = \<lparr>msgs = map response_of (os @ [(3, code # d)]), rend = e\<rparr> \<Longrightarrow>
   \<not> shell_exited s \<Longrightarrow> recv_all s = Ok (map output_of os, (True, code))"
proof (induction os arbitrary: s)
  case Nil
  then show ?case
    by (subst recv_all.simps) (simp add: Recv_def exit_response_def ExitCode_def Let_def code_roundtrip)
next
  case (Cons f os)
  let ?s = "s\<lparr>shell_in := \<lparr>msgs = map response_of (os @ [(3, code # d)]), rend = e\<rparr>\<rparr>"
  have "Recv s = (Ok (Some (output_of f)), ?s)"
    using Cons.prems
    by (cases f) (auto simp: Recv_def output_response_def output_of_def Let_def ChannelErr_def ChannelOut_def)
  moreover have "recv_all ?s = Ok (map output_of os, (True, code))"
    using Cons.prems by (intro Cons.IH) auto
  ultimately show ?case by (subst recv_all.simps) simp
qed

lemma prefix_map_inputs:
  "prefix xs (map input_request is) \<Longrightarrow> \<exists>js. prefix js is \<and> xs = map input_request js"
  by (auto simp: prefix_map_rightE)

lemma Process_session:
  assumes "Process (Inr c) \<lparr>msgs = shell_start m # rs, rend = e\<rparr> new_sink es = Some (r, Some t)"
    and "healthy c" "incoming c = of_str ''OKAY'' @ of_str ''OKAY'' @ wire fs" "start_command m = Ok cmd"
    and "\<forall>f \<in> set fs. shell_fits f"
  obtains rdone fdone where
    "outb (emuConn t) = outb c @ message_packet (of_str ''host:transport-local'') @ message_packet (of_str cmd) @
       request_wire rdone"
    "sent (responses t) = map response_of fdone" "ended_inv rs fs rdone fdone r t"
proof -
  obtain c' where o: "open_session (Inr c) \<lparr>msgs = shell_start m # rs, rend = e\<rparr> new_sink =
      (Ok (new_session \<lparr>msgs = rs, rend = e\<rparr> c' new_sink), Some c')" and
    h: "healthy c'" "incoming c' = wire fs"
    and ob: "outb c' = outb c @ message_packet (of_str ''host:transport-local'') @ message_packet (of_str cmd)"
    using open_session_okay[OF assms(2-4), of rs e new_sink] by blast
  let ?s = "new_session \<lparr>msgs = rs, rend = e\<rparr> c' new_sink"
  have ex: "exec shell_step es ?s = Some t" "outcome t = Some r"
    using assms(1) o by (auto simp: Process_def split: option.splits)
  have "session_inv rs fs (outb c') ?s"
    using new_session_inv[of c' new_sink fs "\<lparr>msgs = rs, rend = e\<rparr>"] h by (simp add: new_sink_def no_fail_def)
  from session_inv_exec[OF this assms(5) ex(1)] ex(2) ob that show thesis
    by (auto simp: session_inv_def)
qed


subsection \<open>Properties\<close>

text \<open>C3: A shell from the client to the device and back, in every interleaving of the agent's goroutines: the
  device receives the command line and then the packets of a prefix of what the client has sent in
  the order sent, the client receives a prefix of what the device has sent, the connection to the
  device is closed, and when the agent reports no error the client has all output of the shell, each piece
  on its channel, and its exit code.\<close>

theorem shell_end_to_end:
  assumes "healthy c" "incoming c = of_str ''OKAY'' @ of_str ''OKAY'' @ wire fs" "fs = os @ [(3, code # d)]"
    and "\<forall>f \<in> set os. fst f = 1 \<or> fst f = 2" "\<forall>f \<in> set fs. shell_fits f"
    and "RequestType req = TypeRaw \<or> RequestType req = TypePTY"
    and "Open (Inr (src, new_sink)) req = Ok sh" "send_inputs ins sh = (Ok (), sh')"
    and "Process (Inr c) \<lparr>msgs = sent (shell_out sh'), rend = e\<rparr> new_sink es = Some (r, Some t)"
  shows "\<exists>ins1 fs1. prefix ins1 ins \<and> prefix fs1 fs \<and> (is_panic r \<or> closed (emuConn t)) \<and>
    outb (emuConn t) = outb c @ message_packet (of_str ''host:transport-local'') @
      message_packet (of_str (shell_command req)) @ wire (concat (map input_packets ins1)) \<and>
    sent (responses t) = map response_of fs1 \<and>
    (r = Ok () \<longrightarrow> recv_all (sh'\<lparr>shell_in := \<lparr>msgs = sent (responses t), rend = e'\<rparr>\<rparr>) =
       Ok (map output_of os, (True, code)))"
proof -
  have sh: "sh = \<lparr>shell_in = src, shell_out = new_sink\<lparr>sent := [shell_start (start_of req)]\<rparr>, shell_exited = False, exitCode = 0\<rparr>"
    using assms(7) by (simp add: Open_sent)
  then have sh': "sent (shell_out sh') = shell_start (start_of req) # map input_request ins" "\<not> shell_exited sh'"
    using assms(8) send_inputs_sent[of sh ins] by (auto simp: no_fail_def new_sink_def)
  obtain rdone fdone where p:
    "outb (emuConn t) = outb c @ message_packet (of_str ''host:transport-local'') @
       message_packet (of_str (shell_command req)) @ request_wire rdone"
    "sent (responses t) = map response_of fdone" "ended_inv (map input_request ins) fs rdone fdone r t"
    using Process_session[OF assms(9)[unfolded sh'] assms(1,2) start_command_of[OF assms(6)] assms(5)] by blast
  then obtain ins1 where i: "prefix ins1 ins" "rdone = map input_request ins1"
    using prefix_map_inputs by (auto simp: ended_inv_def)
  have "r = Ok () \<Longrightarrow> fdone = fs"
    using p(3) assms(3,4) by (auto simp: ended_inv_def prefix_def append_eq_append_conv2 Cons_eq_append_conv append_eq_Cons_conv)
  then have "r = Ok () \<longrightarrow> recv_all (sh'\<lparr>shell_in := \<lparr>msgs = sent (responses t), rend = e'\<rparr>\<rparr>) =
       Ok (map output_of os, (True, code))"
    using recv_all_outputs[of os _ code d e'] p(2) assms(3,4) sh'(2) by fastforce
  then show ?thesis
    using p i by (intro exI[of _ ins1] exI[of _ fdone]) (auto simp: ended_inv_def comp_def request_blobs_input)
qed

definition demo_request :: Request where
  "demo_request = \<lparr>RequestType = TypeRaw, RequestCommand = Some ''cat'', RequestTermType = None\<rparr>"

definition demo_shell :: Shell where
  "demo_shell = \<lparr>shell_in = \<lparr>msgs = [], rend = EOF\<rparr>,
     shell_out = new_sink\<lparr>sent := [shell_start (start_of demo_request), input_request (Input [104])]\<rparr>,
     shell_exited = False, exitCode = 0\<rparr>"

definition demo_conn :: conn where
  "demo_conn = peer_conn (of_str ''OKAYOKAY'' @ wire [(1, [104]), (3, [7])])"

definition demo_events :: "shell_event list" where
  "demo_events = [ReceiveRequest, ReceiveResponse, TakeRequest, TakeResponse, ReceiveResponse, TakeResponse]"

definition demo_result :: "unit res \<times> session option" where
  "demo_result = the (Process (Inr demo_conn) \<lparr>msgs = sent (shell_out demo_shell), rend = EOF\<rparr> new_sink demo_events)"

lemma demo_ends: "fst demo_result = Ok ()" "snd demo_result \<noteq> None"
    "Process (Inr demo_conn) \<lparr>msgs = sent (shell_out demo_shell), rend = EOF\<rparr> new_sink demo_events \<noteq> None"
  by code_simp+

theorem shell_end_to_end_witness:
  "recv_all (demo_shell\<lparr>shell_in := \<lparr>msgs = sent (responses (the (snd demo_result))), rend = EOF\<rparr>\<rparr>) =
     Ok ([\<lparr>OutputCh = ChannelOut, OutputData = [104]\<rparr>], (True, 7))"
proof -
  let ?sh = "\<lparr>shell_in = \<lparr>msgs = [], rend = EOF\<rparr>, shell_out = new_sink\<lparr>sent := [shell_start (start_of demo_request)]\<rparr>,
    shell_exited = False, exitCode = 0\<rparr>"
  have P: "Process (Inr demo_conn) \<lparr>msgs = sent (shell_out demo_shell), rend = EOF\<rparr> new_sink demo_events =
      Some (Ok (), Some (the (snd demo_result)))"
    using demo_ends by (cases demo_result) (auto simp: demo_result_def)
  have "send_inputs [Input [104]] ?sh = (Ok (), demo_shell)"
    by (subst send_inputs_sent) (simp_all add: no_fail_def new_sink_def demo_shell_def)
  from shell_end_to_end[OF _ _ refl _ _ _ Open_sent this P, of "[(1, [104])]" 7 "[]"] show ?thesis
    by (auto simp: demo_conn_def demo_request_def okay_twice shell_fits_def output_of_def)
qed

end
