(* ===== verification/Vpx.thy ===== *)
theory Vpx
  imports Prelude
begin

text \<open>
  \<^verbatim>\<open>agent/util/vpx/vpx.go\<close>: the conversion of an RGB frame to planar YUV 4:2:0, the copy of the
  planes into an encoder's image (the C function of the file's preamble), and the translation of the
  encoder's error codes. Indices are 32-bit and the size of the result goes through \<^verbatim>\<open>float32\<close>, as
  in the code; an index out of range is a panic. The libvpx functions themselves are not modelled here.
\<close>

subsection \<open>float32\<close>

text \<open>The nearest multiple of a power of two that has a 24-bit significand, ties to even.\<close>

fun bitlen :: "nat \<Rightarrow> nat" where
  "bitlen n = (if n = 0 then 0 else Suc (bitlen (n div 2)))"

declare bitlen.simps [simp del]

definition float32 :: "nat \<Rightarrow> nat" where
  "float32 n =
     (let e = bitlen n - 24; q = n div 2 ^ e; r = n mod 2 ^ e
      in if 2 * r < 2 ^ e \<or> (2 * r = 2 ^ e \<and> even q) then q * 2 ^ e else Suc q * 2 ^ e)"

text \<open>\<^verbatim>\<open>int(float32(n) * 1.5)\<close>: the product is rounded as well, in units of one half.\<close>

definition yuv_size :: "u32 \<Rightarrow> nat" where
  "yuv_size n = float32 (3 * float32 (unat n)) div 2"

lemma bitlen_le: "n < 2 ^ k \<Longrightarrow> bitlen n \<le> k"
proof (induction n arbitrary: k rule: bitlen.induct)
  case (1 n)
  show ?case
  proof (cases "n = 0")
    case False
    then obtain j where j: "k = Suc j" using "1.prems" by (cases k) auto
    have "n div 2 < 2 ^ j" using "1.prems" j by simp
    with 1 False have "bitlen (n div 2) \<le> j" by blast
    then show ?thesis using False j by (subst bitlen.simps) simp
  qed (simp add: bitlen.simps)
qed

lemma float32_exact:
  assumes "n < 2 ^ (24 + j)" "2 ^ j dvd n"
  shows "float32 n = n"
proof -
  have "bitlen n - 24 \<le> j" using bitlen_le[OF assms(1)] by simp
  then have d: "(2::nat) ^ (bitlen n - 24) dvd n"
    using assms(2) by (meson dvd_trans le_imp_power_dvd)
  then show ?thesis by (simp add: float32_def Let_def mod_eq_0_iff_dvd)
qed

subsection \<open>The conversion\<close>

definition luma :: "int \<Rightarrow> int \<Rightarrow> int \<Rightarrow> int" where
  "luma r g b = (66 * r + 129 * g + 25 * b) div 256 + 16"

definition chroma_u :: "int \<Rightarrow> int \<Rightarrow> int \<Rightarrow> int" where
  "chroma_u r g b = (- 38 * r + - 74 * g + 112 * b) div 256 + 128"

definition chroma_v :: "int \<Rightarrow> int \<Rightarrow> int \<Rightarrow> int" where
  "chroma_v r g b = (112 * r + - 94 * g + - 18 * b) div 256 + 128"

text \<open>The bytes \<^verbatim>\<open>rgba[3*i]\<close>, \<^verbatim>\<open>rgba[3*i+1]\<close>, \<^verbatim>\<open>rgba[3*i+2]\<close>, the index being \<^verbatim>\<open>uint32\<close>.\<close>

definition pixel :: "byte list \<Rightarrow> u32 \<Rightarrow> (int \<times> int \<times> int) res" where
  "pixel rgba i =
     (let a = unat (3 * i); b = unat (3 * i + 1); c = unat (3 * i + 2)
      in if a < length rgba \<and> b < length rgba \<and> c < length rgba
         then Ok (uint (rgba ! a), uint (rgba ! b), uint (rgba ! c))
         else Panic IndexOutOfRange)"

text \<open>
  One plane: the loop over the coordinates writes at \<open>pos\<close>. Coordinates count in \<^verbatim>\<open>uint32\<close>; the
  list of them is that of the loops as long as stepping past the height does not wrap, that is
  for every height but \<open>2 ^ 32 - 1\<close>.
\<close>

fun plane_loop ::
  "(int \<Rightarrow> int \<Rightarrow> int \<Rightarrow> int) \<Rightarrow> byte list \<Rightarrow> u32 \<Rightarrow> (nat \<times> nat) list \<Rightarrow> byte list \<times> nat \<Rightarrow> (byte list \<times> nat) res" where
  "plane_loop f rgba w [] st = Ok st"
| "plane_loop f rgba w ((x, y) # cs) (yuv, pos) =
     bind_res (pixel rgba (word_of_nat y * w + word_of_nat x)) (\<lambda>(r, g, b).
       if pos < length yuv
       then plane_loop f rgba w cs (yuv[pos := word_of_int (f r g b)], Suc pos)
       else Panic IndexOutOfRange)"

definition steps :: "nat \<Rightarrow> nat \<Rightarrow> nat list" where
  "steps d n = map (\<lambda>k. d * k) [0 ..< (n + d - 1) div d]"

definition coords :: "nat \<Rightarrow> u32 \<Rightarrow> u32 \<Rightarrow> (nat \<times> nat) list" where
  "coords d w h = concat (map (\<lambda>y. map (\<lambda>x. (x, y)) (steps d (unat w))) (steps d (unat h)))"

definition RgbToYuv :: "byte list \<Rightarrow> u32 \<Rightarrow> u32 \<Rightarrow> byte list res" where
  "RgbToYuv rgba w h =
     bind_res (plane_loop luma rgba w (coords 1 w h) (replicate (yuv_size (w * h)) 0, 0)) (\<lambda>st.
     bind_res (plane_loop chroma_u rgba w (coords 2 w h) st) (\<lambda>st.
     bind_res (plane_loop chroma_v rgba w (coords 2 w h) st) (\<lambda>st. Ok (fst st))))"

subsection \<open>The image\<close>

definition plane_width :: "nat \<Rightarrow> nat \<Rightarrow> nat" where
  "plane_width d_w plane = (if plane > 0 then (d_w + 1) div 2 else d_w)"

definition plane_height :: "nat \<Rightarrow> nat \<Rightarrow> nat" where
  "plane_height d_h plane = (if plane > 0 then (d_h + 1) div 2 else d_h)"

text \<open>
  \<^verbatim>\<open>vpx_img_read\<close> for an I420 image: the rows of each plane, read one after the other. The C code
  trusts the blob to be long enough; reading past its end is \<open>None\<close>.
\<close>

fun read_rows :: "nat \<Rightarrow> nat \<Rightarrow> byte list \<Rightarrow> (byte list list \<times> byte list) option" where
  "read_rows w 0 blob = Some ([], blob)"
| "read_rows w (Suc h) blob =
     (if length blob < w then None
      else map_option (\<lambda>(rows, rest). (take w blob # rows, rest)) (read_rows w h (drop w blob)))"

definition img_read :: "nat \<Rightarrow> nat \<Rightarrow> byte list \<Rightarrow> (byte list list list \<times> byte list) option" where
  "img_read d_w d_h blob =
     (case read_rows (plane_width d_w 0) (plane_height d_h 0) blob of
        None \<Rightarrow> None
      | Some (y, blob) \<Rightarrow>
        (case read_rows (plane_width d_w 1) (plane_height d_h 1) blob of
           None \<Rightarrow> None
         | Some (u, blob) \<Rightarrow>
           (case read_rows (plane_width d_w 2) (plane_height d_h 2) blob of
              None \<Rightarrow> None
            | Some (v, blob) \<Rightarrow> Some ([y, u, v], blob))))"

text \<open>\<^verbatim>\<open>Image.Read\<close> takes the address of the first byte, which an empty slice does not have.\<close>

definition Read :: "nat \<Rightarrow> nat \<Rightarrow> byte list \<Rightarrow> (byte list list list \<times> byte list) option res" where
  "Read d_w d_h data = (if data = [] then Panic IndexOutOfRange else Ok (img_read d_w d_h data))"

subsection \<open>Error codes\<close>

datatype codec_err =
    CODEC_OK | CODEC_ERROR | MEM_ERROR | ABI_MISMATCH | INCAPABLE | UNSUP_BITSTREAM
  | UNSUP_FEATURE | CORRUPT_FRAME | INVALID_PARAM | CODEC_OTHER int

text \<open>The errors of the package.\<close>

abbreviation UnknownError :: goerr where "UnknownError \<equiv> NewError ''unknown error''"
abbreviation MemoryError :: goerr where "MemoryError \<equiv> NewError ''memory error''"
abbreviation ABIMismatch :: goerr where "ABIMismatch \<equiv> NewError ''ABI mismatch''"
abbreviation Incapable :: goerr where "Incapable \<equiv> NewError ''incapable''"
abbreviation UnsupportedBitstream :: goerr where "UnsupportedBitstream \<equiv> NewError ''unsupported bitstream''"
abbreviation UnsupportedFeature :: goerr where "UnsupportedFeature \<equiv> NewError ''unsupported feature''"
abbreviation CorruptFrame :: goerr where "CorruptFrame \<equiv> NewError ''corrupt frame''"
abbreviation InvalidParam :: goerr where "InvalidParam \<equiv> NewError ''invalid param''"

fun convertCodecError :: "codec_err \<Rightarrow> goerr option" where
  "convertCodecError CODEC_OK = None"
| "convertCodecError CODEC_ERROR = Some UnknownError"
| "convertCodecError MEM_ERROR = Some MemoryError"
| "convertCodecError ABI_MISMATCH = Some ABIMismatch"
| "convertCodecError INCAPABLE = Some Incapable"
| "convertCodecError UNSUP_BITSTREAM = Some UnsupportedBitstream"
| "convertCodecError UNSUP_FEATURE = Some UnsupportedFeature"
| "convertCodecError CORRUPT_FRAME = Some CorruptFrame"
| "convertCodecError INVALID_PARAM = Some InvalidParam"
| "convertCodecError (CODEC_OTHER c) = Some UnknownError"

lemma convertCodecError_OK: "convertCodecError c = None \<longleftrightarrow> c = CODEC_OK"
  by (cases c) auto

subsection \<open>What the conversion computes\<close>

definition sample :: "(int \<Rightarrow> int \<Rightarrow> int \<Rightarrow> int) \<Rightarrow> byte list \<Rightarrow> nat \<Rightarrow> nat \<times> nat \<Rightarrow> byte" where
  "sample f rgba w p = (let i = 3 * (snd p * w + fst p)
     in word_of_int (f (uint (rgba ! i)) (uint (rgba ! (i + 1))) (uint (rgba ! (i + 2)))))"

lemma unat_small_add: "unat (a :: u32) + k < 2 ^ 32 \<Longrightarrow> unat (a + word_of_nat k) = unat a + k"
  by (simp add: unat_word_ariths unat_of_nat take_bit_nat_eq_self)

lemma unat_index:
  assumes "3 * (y * unat w + x) + 2 < 2 ^ 32"
  shows "unat (3 * (word_of_nat y * w + word_of_nat x) :: u32) = 3 * (y * unat w + x)"
proof -
  have "3 * (word_of_nat y * w + word_of_nat x) = (word_of_nat (3 * (y * unat w + x)) :: u32)"
    by simp
  also have "unat \<dots> = 3 * (y * unat w + x)"
    using assms by (subst unat_of_nat) (simp add: take_bit_nat_eq_self)
  finally show ?thesis .
qed

lemma pixel_ok:
  assumes "3 * (y * unat w + x) + 2 < length rgba" "3 * (y * unat w + x) + 2 < 2 ^ 32"
  shows "pixel rgba (word_of_nat y * w + word_of_nat x) = (let i = 3 * (y * unat w + x)
     in Ok (uint (rgba ! i), uint (rgba ! (i + 1)), uint (rgba ! (i + 2))))"
proof -
  define i :: u32 where "i = word_of_nat y * w + word_of_nat x"
  have a: "unat (3 * i) = 3 * (y * unat w + x)" unfolding i_def using assms(2) by (rule unat_index)
  have b: "unat (3 * i + 1) = 3 * (y * unat w + x) + 1"
    using unat_small_add[of "3 * i" 1] a assms(2) by simp
  have c: "unat (3 * i + 2) = 3 * (y * unat w + x) + 2"
    using unat_small_add[of "3 * i" 2] a assms(2) by simp
  have "pixel rgba i = (let i = 3 * (y * unat w + x)
     in Ok (uint (rgba ! i), uint (rgba ! (i + 1)), uint (rgba ! (i + 2))))"
    using assms(1) by (simp add: pixel_def Let_def a b c del: distrib_left_numeral)
  then show ?thesis by (simp add: i_def)
qed

lemma plane_loop_ok:
  assumes "\<forall>(x, y) \<in> set cs. 3 * (y * unat w + x) + 2 < length rgba \<and> 3 * (y * unat w + x) + 2 < 2 ^ 32"
    and "length pre + length cs \<le> length pre + length rest"
  shows "plane_loop f rgba w cs (pre @ rest, length pre) =
     Ok (pre @ map (sample f rgba (unat w)) cs @ drop (length cs) rest, length pre + length cs)"
  using assms
proof (induction cs arbitrary: pre rest)
  case (Cons c cs)
  obtain x y where c: "c = (x, y)" by (cases c)
  from Cons.prems(2) obtain r rest' where rest: "rest = r # rest'" by (cases rest) auto
  have "pixel rgba (word_of_nat y * w + word_of_nat x) = (let i = 3 * (y * unat w + x)
     in Ok (uint (rgba ! i), uint (rgba ! (i + 1)), uint (rgba ! (i + 2))))"
    using Cons.prems(1) c by (intro pixel_ok) auto
  then have "plane_loop f rgba w (c # cs) (pre @ rest, length pre) =
      plane_loop f rgba w cs ((pre @ [sample f rgba (unat w) c]) @ rest', length (pre @ [sample f rgba (unat w) c]))"
    by (simp add: c rest sample_def Let_def list_update_append)
  also have "\<dots> = Ok ((pre @ [sample f rgba (unat w) c]) @ map (sample f rgba (unat w)) cs @ drop (length cs) rest',
      length (pre @ [sample f rgba (unat w) c]) + length cs)"
    using Cons.prems rest by (intro Cons.IH) auto
  finally show ?case by (simp add: rest)
qed simp

lemma plane_loop_count:
  "plane_loop f rgba w cs (yuv, pos) = Ok (yuv', pos') \<Longrightarrow> pos \<le> length yuv \<Longrightarrow>
     length yuv' = length yuv \<and> pos' = pos + length cs \<and> pos' \<le> length yuv"
  by (induction cs arbitrary: yuv pos) (fastforce simp: bind_res_eq_Ok split: prod.splits if_splits)+

lemma plane_loop_panics:
  "(\<exists>st'. plane_loop f rgba w cs st = Ok st') \<or> plane_loop f rgba w cs st = Panic IndexOutOfRange"
proof (induction cs arbitrary: st)
  case (Cons c cs)
  then show ?case
    by (cases c; cases st) (auto simp: pixel_def Let_def)
qed simp

lemma length_steps [simp]: "length (steps d n) = (n + d - 1) div d"
  by (simp add: steps_def)

lemma length_coords: "length (coords d w h) = length (steps d (unat w)) * length (steps d (unat h))"
  by (simp add: coords_def length_concat comp_def sum_list_triv)

lemma steps_less: "x \<in> set (steps d n) \<Longrightarrow> 0 < d \<Longrightarrow> x < n"
proof -
  assume "x \<in> set (steps d n)" "0 < d"
  then obtain k where "x = d * k" "k < (n + d - 1) div d" by (auto simp: steps_def)
  moreover from this have "d * Suc k \<le> n + d - 1"
    by (metis Suc_leI le_trans mult.commute mult_le_mono1 div_times_less_eq_dividend)
  ultimately show "x < n" using \<open>0 < d\<close> by simp
qed

lemma coords_less: "(x, y) \<in> set (coords d w h) \<Longrightarrow> 0 < d \<Longrightarrow> x < unat w \<and> y < unat h"
  using steps_less by (auto simp: coords_def)

lemma index_less: "x < w \<Longrightarrow> y < h \<Longrightarrow> 3 * (y * w + x) + 2 < 3 * (w * h :: nat)"
proof -
  assume "x < w" "y < h"
  then have "y * w + w \<le> w * h" by (metis Suc_leI add.commute mult.commute mult_Suc_right mult_le_mono2)
  moreover have "3 * (a + x) + 2 < 3 * b" if "a + w \<le> b" for a b :: nat
    using that \<open>x < w\<close> by presburger
  ultimately show ?thesis by blast
qed

lemma steps_even: "even n \<Longrightarrow> (n + 2 - 1) div 2 = n div (2::nat)"
  by (elim evenE) simp

lemma yuv_size_exact:
  assumes "3 * (unat w * unat h) < 2 ^ (24 + j)" "2 ^ j dvd unat w * unat h" "j \<le> 2"
  shows "yuv_size (w * h) = 3 * (unat w * unat h) div 2"
proof -
  let ?n = "unat w * unat h"
  have "(2::nat) ^ (24 + j) \<le> 2 ^ 26" using assms(3) by (intro power_increasing) auto
  then have "?n < 2 ^ 32" using assms(1) by simp
  then have n: "unat (w * h) = ?n" by (simp add: unat_word_ariths)
  have "float32 ?n = ?n" using assms by (intro float32_exact[of _ j]) auto
  moreover have "float32 (3 * ?n) = 3 * ?n" using assms by (intro float32_exact[of _ j]) auto
  ultimately show ?thesis by (simp add: yuv_size_def n)
qed

lemma chroma_count:
  assumes "even (unat w)" "even (unat h)"
  shows "length (coords 1 w h) + 2 * length (coords 2 w h) = 3 * (unat w * unat h) div 2"
proof -
  obtain a b where "unat w = 2 * a" "unat h = 2 * b" using assms by (auto elim!: evenE)
  then show ?thesis by (simp add: length_coords steps_even)
qed

lemma RgbToYuv_ok:
  assumes "even (unat w)" "even (unat h)" "3 * (unat w * unat h) < 2 ^ 26" "3 * (unat w * unat h) \<le> length rgba"
  shows "RgbToYuv rgba w h = Ok (map (sample luma rgba (unat w)) (coords 1 w h) @
      map (sample chroma_u rgba (unat w)) (coords 2 w h) @ map (sample chroma_v rgba (unat w)) (coords 2 w h))"
proof -
  have "2 ^ 2 dvd unat w * unat h"
    using mult_dvd_mono[OF assms(1,2)] by simp
  then have size: "yuv_size (w * h) = length (coords 1 w h) + 2 * length (coords 2 w h)"
    using assms(3) chroma_count[OF assms(1,2)] yuv_size_exact[of w h 2] by simp
  have ok: "\<forall>(x, y) \<in> set (coords d w h). 3 * (y * unat w + x) + 2 < length rgba \<and> 3 * (y * unat w + x) + 2 < 2 ^ 32"
    if "0 < d" for d
  proof (clarify, rule conjI)
    fix x y assume "(x, y) \<in> set (coords d w h)"
    then have "3 * (y * unat w + x) + 2 < 3 * (unat w * unat h)"
      using coords_less that by (intro index_less) auto
    with assms(3,4) show "3 * (y * unat w + x) + 2 < length rgba" "3 * (y * unat w + x) + 2 < 2 ^ 32"
      by simp_all
  qed
  let ?y = "map (sample luma rgba (unat w)) (coords 1 w h)"
  let ?u = "map (sample chroma_u rgba (unat w)) (coords 2 w h)"
  let ?n = "length (coords 2 w h)"
  have "plane_loop luma rgba w (coords 1 w h) (replicate (yuv_size (w * h)) 0, 0) = Ok (?y @ replicate (2 * ?n) 0, length ?y)"
    using plane_loop_ok[OF ok[of 1], of "[]" "replicate (yuv_size (w * h)) 0" luma] by (simp add: size)
  moreover have "plane_loop chroma_u rgba w (coords 2 w h) (?y @ replicate (2 * ?n) 0, length ?y) =
      Ok ((?y @ ?u) @ replicate ?n 0, length (?y @ ?u))"
    using plane_loop_ok[OF ok[of 2], of ?y "replicate (2 * ?n) 0" chroma_u] by simp
  moreover have "plane_loop chroma_v rgba w (coords 2 w h) ((?y @ ?u) @ replicate ?n 0, length (?y @ ?u)) =
      Ok ((?y @ ?u) @ map (sample chroma_v rgba (unat w)) (coords 2 w h), length (?y @ ?u) + ?n)"
    using plane_loop_ok[OF ok[of 2], of "?y @ ?u" "replicate ?n 0" chroma_v] by simp
  ultimately show ?thesis by (simp add: RgbToYuv_def)
qed

lemma RgbToYuv_odd:
  assumes "odd (unat w) \<or> odd (unat h)" "0 < unat w" "0 < unat h" "3 * (unat w * unat h) < 2 ^ 24"
  shows "RgbToYuv rgba w h = Panic IndexOutOfRange"
proof -
  let ?W = "unat w" and ?H = "unat h"
  have size: "yuv_size (w * h) = 3 * (?W * ?H) div 2"
    using yuv_size_exact[of w h 0] assms(4) by simp
  have "3 * (?W * ?H) div 2 < length (coords 1 w h) + 2 * length (coords 2 w h)"
  proof -
    have "?W * ?H < 4 * (((?W + 1) div 2) * ((?H + 1) div 2))"
    proof -
      have "?W \<le> 2 * ((?W + 1) div 2)" "?H \<le> 2 * ((?H + 1) div 2)" by presburger+
      moreover have "?W < 2 * ((?W + 1) div 2) \<or> ?H < 2 * ((?H + 1) div 2)" using assms(1) by presburger
      ultimately have "?W * ?H < (2 * ((?W + 1) div 2)) * (2 * ((?H + 1) div 2))"
        using assms(2,3) mult_less_le_imp_less[of ?W "2 * ((?W + 1) div 2)" ?H "2 * ((?H + 1) div 2)"]
          mult_le_less_imp_less[of ?W "2 * ((?W + 1) div 2)" ?H "2 * ((?H + 1) div 2)"] by auto
      then show ?thesis by (simp add: mult_ac)
    qed
    then show ?thesis by (simp add: length_coords)
  qed
  then have False if "RgbToYuv rgba w h = Ok yuv" for yuv
    using that size
    by (auto simp: RgbToYuv_def bind_res_eq_Ok dest!: plane_loop_count)
  moreover have "(\<exists>yuv. RgbToYuv rgba w h = Ok yuv) \<or> RgbToYuv rgba w h = Panic IndexOutOfRange"
    using plane_loop_panics[of luma rgba w "coords 1 w h" "(replicate (yuv_size (w * h)) 0, 0)"]
    by (auto simp: RgbToYuv_def) (metis bind_res.simps(1,3) plane_loop_panics)
  ultimately show ?thesis by blast
qed

lemma nth_rows:
  "y < m \<Longrightarrow> x < n \<Longrightarrow> concat (map (\<lambda>y. map (g y) [0..<n]) [0..<m]) ! (y * n + x) = g y x"
proof (induction m)
  case (Suc m)
  have len: "length (concat (map (\<lambda>y. map (g y) [0..<n]) [0..<m])) = m * n"
    by (simp add: length_concat comp_def sum_list_triv)
  show ?case
  proof (cases "y = m")
    case False
    then have "y < m" using Suc.prems by simp
    moreover from this have "y * n + x < m * n"
      using Suc.prems(2) by (metis add_less_cancel_left less_le_trans mult_Suc add.commute mult_le_mono1 Suc_leI)
    ultimately show ?thesis using Suc by (simp add: nth_append len)
  qed (use Suc.prems in \<open>simp add: nth_append len\<close>)
qed simp

lemma coords_nth:
  "x < length (steps d (unat w)) \<Longrightarrow> y < length (steps d (unat h)) \<Longrightarrow>
   coords d w h ! (y * length (steps d (unat w)) + x) = (d * x, d * y)"
  using nth_rows[of y "length (steps d (unat h))" x "length (steps d (unat w))" "\<lambda>y x. (d * x, d * y)"]
  by (simp add: coords_def steps_def comp_def)

lemma row_index: "x < n \<Longrightarrow> y < m \<Longrightarrow> y * n + x < n * (m::nat)"
  by (metis add.commute add_less_cancel_left less_le_trans mult.commute mult_Suc mult_le_mono1 Suc_leI)

lemma read_rows_exact:
  "length blob = w * h + k \<Longrightarrow> \<exists>rows. read_rows w h blob = Some (rows, drop (w * h) blob) \<and>
     concat rows = take (w * h) blob \<and> length rows = h \<and> (\<forall>r \<in> set rows. length r = w)"
proof (induction h arbitrary: blob)
  case (Suc h)
  obtain rows where "read_rows w h (drop w blob) = Some (rows, drop (w * h) (drop w blob))"
    "concat rows = take (w * h) (drop w blob)" "length rows = h" "\<forall>r \<in> set rows. length r = w"
    using Suc.IH[of "drop w blob"] Suc.prems by auto
  with Suc.prems show ?case
    by (auto simp: add.commute take_add)
qed simp

lemma img_read_planes:
  assumes "even w" "even h" "length data = 3 * (w * h) div 2" "data \<noteq> []"
  shows "\<exists>y u v. Read w h data = Ok (Some ([y, u, v], [])) \<and> concat (y @ u @ v) = data \<and>
    length y = h \<and> length u = h div 2 \<and> length v = h div 2 \<and>
    (\<forall>r \<in> set y. length r = w) \<and> (\<forall>r \<in> set (u @ v). length r = w div 2)"
proof -
  obtain a b where ab: "w = 2 * a" "h = 2 * b" using assms(1,2) by (auto elim!: evenE)
  have len: "length data = w * h + (a * b + a * b)" using assms(3) by (simp add: ab)
  obtain y where y: "read_rows w h data = Some (y, drop (w * h) data)" "concat y = take (w * h) data"
    "length y = h" "\<forall>r \<in> set y. length r = w"
    using read_rows_exact[OF len] by blast
  obtain u where u: "read_rows a b (drop (w * h) data) = Some (u, drop (a * b) (drop (w * h) data))"
    "concat u = take (a * b) (drop (w * h) data)" "length u = b" "\<forall>r \<in> set u. length r = a"
    using read_rows_exact[of "drop (w * h) data" a b "a * b"] len by auto
  obtain v where v: "read_rows a b (drop (a * b) (drop (w * h) data)) = Some (v, [])"
    "concat v = drop (a * b) (drop (w * h) data)" "length v = b" "\<forall>r \<in> set v. length r = a"
    using read_rows_exact[of "drop (a * b) (drop (w * h) data)" a b 0] len by auto
  have "concat (y @ u @ v) = take (w * h) data @
      (take (a * b) (drop (w * h) data) @ drop (a * b) (drop (w * h) data))"
    by (simp only: concat_append y(2) u(2) v(2))
  then have "concat (y @ u @ v) = data" by (simp only: append_take_drop_id)
  moreover have "img_read w h data = Some ([y, u, v], [])"
    using y(1) u(1) v(1) by (simp add: img_read_def plane_width_def plane_height_def ab)
  ultimately show ?thesis
    using y u v assms(4) by (auto simp: Read_def ab)
qed

lemma Read_exact:
  "even w \<Longrightarrow> even h \<Longrightarrow> length data = 3 * (w * h) div 2 \<Longrightarrow> data \<noteq> [] \<Longrightarrow>
   \<exists>planes. Read w h data = Ok (Some (planes, []))"
  using img_read_planes by blast

subsection \<open>Properties\<close>

text \<open>C29: For a frame of even width and height of up to \<open>2 ^ 26\<close> bytes the conversion returns the three
  planes, each sample at its place: the luma of every pixel, and the two chroma values of the upper
  left pixel of every two-by-two block.\<close>

theorem RgbToYuv_planar:
  assumes "even (unat w)" "even (unat h)" "3 * (unat w * unat h) < 2 ^ 26" "3 * (unat w * unat h) \<le> length rgba"
  shows "\<exists>yuv. RgbToYuv rgba w h = Ok yuv \<and> length yuv = 3 * (unat w * unat h) div 2 \<and>
    (\<forall>x < unat w. \<forall>y < unat h. yuv ! (y * unat w + x) = sample luma rgba (unat w) (x, y)) \<and>
    (\<forall>x < unat w div 2. \<forall>y < unat h div 2.
       yuv ! (unat w * unat h + y * (unat w div 2) + x) = sample chroma_u rgba (unat w) (2 * x, 2 * y) \<and>
       yuv ! (unat w * unat h + unat w * unat h div 4 + y * (unat w div 2) + x) =
         sample chroma_v rgba (unat w) (2 * x, 2 * y))"
proof -
  obtain a b where ab: "unat w = 2 * a" "unat h = 2 * b" using assms(1,2) by (auto elim!: evenE)
  let ?Y = "map (sample luma rgba (unat w)) (coords 1 w h)"
  let ?U = "map (sample chroma_u rgba (unat w)) (coords 2 w h)"
  let ?V = "map (sample chroma_v rgba (unat w)) (coords 2 w h)"
  have l1: "length (coords 1 w h) = unat w * unat h" "length (coords (Suc 0) w h) = unat w * unat h"
    by (simp_all add: length_coords)
  have l2: "length (coords 2 w h) = a * b" by (simp add: length_coords ab steps_even)
  have quarter: "unat w * unat h div 4 = a * b" by (simp add: ab)
  have Y: "(?Y @ ?U @ ?V) ! (y * unat w + x) = sample luma rgba (unat w) (x, y)" if "x < unat w" "y < unat h" for x y
    using that row_index[OF that] coords_nth[of x 1 w y h] by (simp add: nth_append l1)
  have UV: "(?Y @ ?U @ ?V) ! (unat w * unat h + y * a + x) = sample chroma_u rgba (unat w) (2 * x, 2 * y)"
    "(?Y @ ?U @ ?V) ! (unat w * unat h + a * b + y * a + x) = sample chroma_v rgba (unat w) (2 * x, 2 * y)"
    if "x < a" "y < b" for x y
    using that row_index[OF that] coords_nth[of x 2 w y h]
    by (simp_all add: nth_append l1 l2 ab steps_even add.assoc)
  have "3 * (unat w * unat h) div 2 = unat w * unat h + 2 * (a * b)" by (simp add: ab)
  then show ?thesis
    using RgbToYuv_ok[OF assms] Y UV by (auto simp: l1 l2 quarter ab)
qed

theorem RgbToYuv_planar_witness:
  "\<exists>yuv. RgbToYuv (replicate 12 255) 2 2 = Ok yuv \<and> length yuv = 6 \<and>
     yuv ! 3 = sample luma (replicate 12 255) 2 (1, 1)"
proof -
  have "\<exists>yuv. RgbToYuv (replicate 12 255) 2 2 = Ok yuv \<and> length yuv = 6 \<and>
      (\<forall>x < 2. \<forall>y < 2. yuv ! (y * 2 + x) = sample luma (replicate 12 255) 2 (x, y))"
    using RgbToYuv_planar[of "2 :: u32" "2 :: u32" "replicate 12 255"] by simp blast
  then obtain yuv where "RgbToYuv (replicate 12 255) 2 2 = Ok yuv" "length yuv = 6"
    "\<forall>x < 2. \<forall>y < 2. yuv ! (y * 2 + x) = sample luma (replicate 12 255) 2 (x, y)" by blast
  moreover from this(3) have "yuv ! (1 * 2 + 1) = sample luma (replicate 12 255) 2 (1, 1)"
    by (metis one_less_numeral_iff semiring_norm(76))
  ultimately show ?thesis by simp
qed

text \<open>With an odd width or height there is no room for the chroma of the last column or row, and the
  conversion panics, which ends the agent.\<close>

lemma RgbToYuv_odd_panics:
  assumes "0 < unat w" "0 < unat h" "3 * (unat w * unat h) < 2 ^ 24" "3 * (unat w * unat h) \<le> length rgba"
  shows "(\<exists>p. RgbToYuv rgba w h = Panic p) \<longleftrightarrow> odd (unat w) \<or> odd (unat h)"
  using RgbToYuv_ok[of w h rgba] RgbToYuv_odd[of w h rgba] assms by auto

lemma RgbToYuv_odd_panics_witness:
  "\<exists>p. RgbToYuv (replicate 18 0) 3 2 = Panic p"
  using RgbToYuv_odd_panics[of "3 :: u32" "2 :: u32" "replicate 18 0"] by simp

text \<open>No sample of a plane overflows its byte: luma lies in 16 to 235 and chroma in 16 to 239 for every
  colour, so the conversion to a byte keeps the value.\<close>

lemma samples_in_range:
  "uint (sample luma rgba n p) \<in> {16..235} \<and>
   (\<exists>(r :: byte) (g :: byte) (b :: byte). uint (sample luma rgba n p) = luma (uint r) (uint g) (uint b)) \<and>
   uint (sample chroma_u rgba n p) \<in> {16..239} \<and>
   (\<exists>(r :: byte) (g :: byte) (b :: byte). uint (sample chroma_u rgba n p) = chroma_u (uint r) (uint g) (uint b)) \<and>
   uint (sample chroma_v rgba n p) \<in> {16..239} \<and>
   (\<exists>(r :: byte) (g :: byte) (b :: byte). uint (sample chroma_v rgba n p) = chroma_v (uint r) (uint g) (uint b))"
proof -
  have b: "0 \<le> uint (x :: byte) \<and> uint x \<le> 255" for x
    using unsigned_less[of x, where ?'a = int] by simp
  have l: "16 \<le> luma (uint r) (uint g) (uint c) \<and> luma (uint r) (uint g) (uint c) \<le> 235"
    "16 \<le> chroma_u (uint r) (uint g) (uint c) \<and> chroma_u (uint r) (uint g) (uint c) \<le> 239"
    "16 \<le> chroma_v (uint r) (uint g) (uint c) \<and> chroma_v (uint r) (uint g) (uint c) \<le> 239" for r g c :: byte
    using b[of r] b[of g] b[of c] unfolding luma_def chroma_u_def chroma_v_def by (auto; linarith)+
  have keep: "uint (word_of_int i :: byte) = i" if "16 \<le> i" "i \<le> 239" for i
    using that by (simp add: unsigned_of_int take_bit_int_eq_self)
  have K: "uint (word_of_int (luma (uint r) (uint g) (uint c)) :: byte) = luma (uint r) (uint g) (uint c)"
    "uint (word_of_int (chroma_u (uint r) (uint g) (uint c)) :: byte) = chroma_u (uint r) (uint g) (uint c)"
    "uint (word_of_int (chroma_v (uint r) (uint g) (uint c)) :: byte) = chroma_v (uint r) (uint g) (uint c)"
    for r g c :: byte
    using l[where r = r and g = g and c = c] by (auto intro!: keep)
  show ?thesis
    unfolding sample_def Let_def K atLeastAtMost_iff using l by (intro conjI) blast+
qed

text \<open>Copying the converted planes into the encoder's image reads exactly the converted bytes, no more and
  no fewer: the three planes of the image are the bytes in order.\<close>

lemma img_read_exact:
  assumes "even w" "even h" "length data = 3 * (w * h) div 2" "data \<noteq> []"
  shows "\<exists>y u v. Read w h data = Ok (Some ([y, u, v], [])) \<and> concat (y @ u @ v) = data \<and>
    length y = h \<and> length u = h div 2 \<and> length v = h div 2 \<and>
    (\<forall>r \<in> set y. length r = w) \<and> (\<forall>r \<in> set (u @ v). length r = w div 2)"
  using img_read_planes[OF assms] .

lemma img_read_exact_witness:
  "\<exists>y u v. Read 2 2 [1, 2, 3, 4, 5, 6] = Ok (Some ([y, u, v], [])) \<and> concat (y @ u @ v) = [1, 2, 3, 4, 5, 6]"
  using img_read_exact[of 2 2 "[1, 2, 3, 4, 5, 6]"] by auto

end
