(* ===== verification/Encoder.thy ===== *)
theory Encoder
  imports Vpx Machine
begin

text \<open>
  The wrappers of libvpx in \<^verbatim>\<open>agent/util/vpx/vpx.go\<close>: the encoder's configuration and its setters, the
  calls that build an encoder and encode an image, and the extraction of the packets. What libvpx does
  is given by the codes its functions return, its default configuration and the packets it produces;
  the calls made to it are values (\<open>vpx_call\<close>), so that the display stream can be checked against
  the order libvpx asks for (\<open>enc_step\<close>).
\<close>

subsection \<open>The configuration\<close>

datatype CodecIface = VP8Iface

record CodecEncCfg =
  g_w :: u32
  g_h :: u32
  rc_target_bitrate :: u32
  g_error_resilient :: u32
  g_timebase :: "i32 \<times> i32"

text \<open>The arguments are Go's 64-bit integers, the fields C's 32-bit ones.\<close>

definition SetGW :: "u64 \<Rightarrow> CodecEncCfg \<Rightarrow> CodecEncCfg" where
  "SetGW w c = c\<lparr>g_w := ucast w\<rparr>"

definition SetGH :: "u64 \<Rightarrow> CodecEncCfg \<Rightarrow> CodecEncCfg" where
  "SetGH h c = c\<lparr>g_h := ucast h\<rparr>"

definition SetRcTargetBitrate :: "u64 \<Rightarrow> CodecEncCfg \<Rightarrow> CodecEncCfg" where
  "SetRcTargetBitrate rate c = c\<lparr>rc_target_bitrate := ucast rate\<rparr>"

definition SetGErrorResilient :: "u64 \<Rightarrow> CodecEncCfg \<Rightarrow> CodecEncCfg" where
  "SetGErrorResilient res c = c\<lparr>g_error_resilient := ucast res\<rparr>"

definition SetGTimebase :: "i64 \<Rightarrow> i64 \<Rightarrow> CodecEncCfg \<Rightarrow> CodecEncCfg" where
  "SetGTimebase num den c = c\<lparr>g_timebase := (ucast num, ucast den)\<rparr>"

text \<open>\<open>lib\<close> is what \<^verbatim>\<open>vpx_codec_enc_config_default\<close> returns and stores.\<close>

definition Default :: "codec_err \<times> CodecEncCfg \<Rightarrow> goerr option \<times> CodecEncCfg" where
  "Default lib = (convertCodecError (fst lib), snd lib)"

subsection \<open>Images, encoding\<close>

datatype ImageFormat =
    ImageFormatNone | ImageFormatYv12 | ImageFormatI420 | ImageFormatI422 | ImageFormatI444 | ImageFormatI440
  | ImageFormatI42016 | ImageFormatI42216 | ImageFormatI44416 | ImageFormatI44016

record image =
  handle :: nat
  format :: ImageFormat
  d_w :: u32
  d_h :: u32

definition EFlagNone :: i64 where "EFlagNone = 0"
definition EFlagForceKF :: i64 where "EFlagForceKF = 1"
definition DLRealtime :: u64 where "DLRealtime = 1"
definition DLGoodQuality :: u64 where "DLGoodQuality = 1000000"
definition DLBestQuality :: u64 where "DLBestQuality = 0"

text \<open>The calls to libvpx that use an encoder: its handle, then the arguments.\<close>

datatype vpx_call =
    CallEncInit nat CodecIface CodecEncCfg i64
  | CallEncode nat image i64 u64 i64 u64

definition EncInit :: "codec_err \<Rightarrow> nat \<Rightarrow> CodecIface \<Rightarrow> CodecEncCfg \<Rightarrow> i64 \<Rightarrow> goerr option \<times> vpx_call" where
  "EncInit code ctx iface cfg flags = (convertCodecError code, CallEncInit ctx iface cfg flags)"

definition Encode ::
  "codec_err \<Rightarrow> nat \<Rightarrow> image \<Rightarrow> i64 \<Rightarrow> u64 \<Rightarrow> i64 \<Rightarrow> u64 \<Rightarrow> goerr option \<times> vpx_call" where
  "Encode code ctx im pts duration flags deadline =
     (convertCodecError code, CallEncode ctx im pts duration flags deadline)"

lemmas vpx_wrappers = Default_def EncInit_def Encode_def

subsection \<open>The packets\<close>

record cx_pkt =
  is_frame :: bool
  frame_buf :: "byte list option"

text \<open>The C function of the preamble: the buffer stays null for a packet that is not a frame.\<close>

definition frame_buffer :: "cx_pkt option \<Rightarrow> byte list option" where
  "frame_buffer pkt = (case pkt of
     None \<Rightarrow> None
   | Some p \<Rightarrow> if is_frame p then frame_buf p else None)"

text \<open>The iterator is the packets not yet returned.\<close>

definition GetFrameBuffer :: "cx_pkt list \<Rightarrow> byte list option \<times> cx_pkt list" where
  "GetFrameBuffer iter = (case iter of
     [] \<Rightarrow> (frame_buffer None, [])
   | p # ps \<Rightarrow> (frame_buffer (Some p), ps))"

text \<open>The buffers a caller gets that asks until it gets none.\<close>

function frame_buffers :: "cx_pkt list \<Rightarrow> byte list list" where
  "frame_buffers iter = (case GetFrameBuffer iter of
     (None, _) \<Rightarrow> []
   | (Some d, iter') \<Rightarrow> d # frame_buffers iter')"
  by pat_completeness auto
termination
  by (relation "measure length") (auto simp: GetFrameBuffer_def frame_buffer_def split: list.splits)

declare frame_buffers.simps [simp del]

lemma frame_buffers_Nil [simp]: "frame_buffers [] = []"
  by (subst frame_buffers.simps) (simp add: GetFrameBuffer_def frame_buffer_def)

lemma frame_buffers_Cons [simp]:
  "frame_buffers (p # ps) = (case frame_buffer (Some p) of None \<Rightarrow> [] | Some d \<Rightarrow> d # frame_buffers ps)"
  by (subst frame_buffers.simps) (simp add: GetFrameBuffer_def)

text \<open>The frames up to the first packet of another kind, or without a buffer.\<close>

lemma frame_buffers_prefix:
  "frame_buffers pkts = map (the \<circ> frame_buf) (takeWhile (\<lambda>p. is_frame p \<and> frame_buf p \<noteq> None) pkts)"
  by (induction pkts) (auto simp: frame_buffer_def split: option.splits)

text \<open>So a packet of statistics hides the frames after it.\<close>

lemma frame_after_other_lost: "\<not> is_frame p \<Longrightarrow> frame_buffers (pre @ p # post) = frame_buffers pre"
  by (induction pre) (auto simp: frame_buffer_def split: option.splits)

subsection \<open>The order of the calls\<close>

text \<open>
  What libvpx asks of the caller of one encoder: initialise it with a configuration, then encode images
  of the configured size and format with rising time stamps. The first is a keyframe. The state is the
  encoder in use with its configured size and next time stamp.
\<close>

type_synonym enc_state = "(nat \<times> u32 \<times> u32 \<times> u32) option"

fun enc_step :: "vpx_call \<Rightarrow> enc_state \<Rightarrow> enc_state option" where
  "enc_step (CallEncInit ctx iface cfg flags) st = Some (Some (ctx, g_w cfg, g_h cfg, 0))"
| "enc_step (CallEncode ctx im pts duration flags deadline) None = None"
| "enc_step (CallEncode ctx im pts duration flags deadline) (Some (c, w, h, n)) =
     (if ctx = c \<and> format im = ImageFormatI420 \<and> d_w im = w \<and> d_h im = h \<and> pts = ucast n \<and> duration = 1 \<and>
         (n = 0 \<longrightarrow> flags = EFlagForceKF)
      then Some (Some (c, w, h, n + 1)) else None)"

end
