(* ===== verification/Display.thy ===== *)
theory Display
  imports Encoder Emulator Broadcaster "HOL-Library.Sublist"
begin

text \<open>
  \<^verbatim>\<open>agent/server/display.go\<close>: the display stream of one client. The encoder (libvpx) is given by the
  outcomes of its calls and the packets it produces for each frame; the objects it allocates are handles,
  and freeing one that is not allocated is a double free. The waits on the frame broadcaster are given by
  their results, which \<open>Broadcaster\<close> describes.
\<close>

subsection \<open>The state\<close>

record displayProcessor =
  img :: "image option"
  codecCtx :: "nat option"
  width :: u32
  height :: u32
  frameCount :: u32
  lastKeyframe :: int
  allocated :: "nat list"
  fresh :: nat
  vpx_calls :: "vpx_call list"

definition NewProcessor :: displayProcessor where
  "NewProcessor = \<lparr>img = None, codecCtx = None, width = 0, height = 0, frameCount = 0, lastKeyframe = 0,
     allocated = [], fresh = 0, vpx_calls = []\<rparr>"

text \<open>What the clock, the encoder and the client's connection do during one call; times in milliseconds.\<close>

record frame_env =
  now :: int
  calloc_errs :: "goerr option \<times> goerr option"
  default_err :: codec_err
  default_cfg :: CodecEncCfg
  init_err :: codec_err
  alloc_ok :: bool
  encode_err :: codec_err
  packets :: "cx_pkt list"
  send_errs :: "goerr option list"

definition free :: "nat option \<Rightarrow> displayProcessor \<Rightarrow> unit res \<times> displayProcessor" where
  "free x p = (case x of
     None \<Rightarrow> (Ok (), p)
   | Some a \<Rightarrow>
       (if a \<in> set (allocated p) then (Ok (), p\<lparr>allocated := removeAll a (allocated p)\<rparr>)
        else (Panic DoubleFree, p)))"

definition malloc :: "displayProcessor \<Rightarrow> nat \<times> displayProcessor" where
  "malloc p = (fresh p, p\<lparr>allocated := fresh p # allocated p, fresh := fresh p + 1\<rparr>)"

text \<open>What C's \<^verbatim>\<open>calloc\<close> reports; running out of memory ends the agent.\<close>

definition allocMemory :: "goerr option \<Rightarrow> displayProcessor \<Rightarrow> nat res \<times> displayProcessor" where
  "allocMemory err p = (case err of
     Some e \<Rightarrow> (Panic (LogFatal e), p)
   | None \<Rightarrow> (let (a, p) = malloc p in (Ok a, p)))"

definition NewCodecCtx :: "goerr option \<Rightarrow> displayProcessor \<Rightarrow> nat res \<times> displayProcessor" where
  "NewCodecCtx err p = allocMemory err p"

definition NewCodecEncCfg :: "goerr option \<Rightarrow> displayProcessor \<Rightarrow> nat res \<times> displayProcessor" where
  "NewCodecEncCfg err p = allocMemory err p"

definition Alloc :: "bool \<Rightarrow> ImageFormat \<Rightarrow> u32 \<Rightarrow> u32 \<Rightarrow> displayProcessor \<Rightarrow> image option \<times> displayProcessor" where
  "Alloc ok fmt w h p =
     (if ok then (let (i, p) = malloc p in (Some \<lparr>handle = i, format = fmt, d_w = w, d_h = h\<rparr>, p)) else (None, p))"

definition FreeImage :: "image option \<Rightarrow> displayProcessor \<Rightarrow> unit res \<times> displayProcessor" where
  "FreeImage im p = free (map_option handle im) p"

lemmas vpx_heap = vpx_wrappers NewCodecCtx_def NewCodecEncCfg_def allocMemory_def malloc_def Alloc_def FreeImage_def

subsection \<open>processFrame\<close>

definition display_frame :: "bool \<Rightarrow> u32 \<Rightarrow> u32 \<Rightarrow> byte list \<Rightarrow> DisplayFrame" where
  "display_frame kf w h d = \<lparr>DisplayFrame_Keyframe = kf, DisplayFrame_Width = w, DisplayFrame_Height = h,
     DisplayFrame_Data = d\<rparr>"

fun send_packets :: "bool \<Rightarrow> u32 \<Rightarrow> u32 \<Rightarrow> byte list list \<Rightarrow> goerr option list \<Rightarrow> unit res \<times> DisplayFrame list" where
  "send_packets kf w h [] errs = (Ok (), [])"
| "send_packets kf w h (pkt # pkts) errs =
     (case errs of
        Some e # _ \<Rightarrow> (Err e, [display_frame kf w h pkt])
      | _ \<Rightarrow> (let r = send_packets kf w h pkts (tl errs) in (fst r, display_frame kf w h pkt # snd r)))"

text \<open>A nil frame turns the display off; the freed pointers are kept.\<close>

definition blank_screen :: "frame_env \<Rightarrow> displayProcessor \<Rightarrow> (unit res \<times> DisplayFrame list) \<times> displayProcessor" where
  "blank_screen env p =
     (let p = p\<lparr>width := 0, height := 0, frameCount := 0, lastKeyframe := now env\<rparr>
      in case FreeImage (img p) p of
           (Panic q, p) \<Rightarrow> ((Panic q, []), p)
         | (_, p) \<Rightarrow>
          (case free (codecCtx p) p of
             (Panic q, p) \<Rightarrow> ((Panic q, []), p)
           | (_, p) \<Rightarrow>
              ((case send_errs env of Some e # _ \<Rightarrow> Err e | _ \<Rightarrow> Ok (), [display_frame True 0 0 []]), p)))"

text \<open>The settings of the encoder, over libvpx's defaults.\<close>

definition stream_config :: "u32 \<Rightarrow> u32 \<Rightarrow> CodecEncCfg \<Rightarrow> CodecEncCfg" where
  "stream_config w h cfg =
     SetGTimebase 1 60 (SetGErrorResilient 1 (SetRcTargetBitrate 1000 (SetGH (ucast h) (SetGW (ucast w) cfg))))"

text \<open>A new encoder and image for a new size; the configuration object is never freed.\<close>

definition reconfigure :: "frame_env \<Rightarrow> Frame \<Rightarrow> displayProcessor \<Rightarrow> unit res \<times> displayProcessor" where
  "reconfigure env frame p =
     (let p = p\<lparr>width := FrameWidth frame, height := FrameHeight frame, frameCount := 0, lastKeyframe := now env\<rparr>
      in on_ok (FreeImage (img p) p) (\<lambda>p. p) (\<lambda>_ p.
         on_ok (free (codecCtx p) p) (\<lambda>p. p) (\<lambda>_ p.
         on_ok (NewCodecEncCfg (fst (calloc_errs env)) p) (\<lambda>p. p) (\<lambda>encCfg p.
         case Default (default_err env, default_cfg env) of
              (Some e, _) \<Rightarrow> (Err e, p)
            | (None, cfg) \<Rightarrow>
               (let cfg = stream_config (width p) (height p) cfg
                in on_ok (NewCodecCtx (snd (calloc_errs env)) p) (\<lambda>p. p) (\<lambda>ctx p.
                   let (err, call) = EncInit (init_err env) ctx VP8Iface cfg 0;
                       p = p\<lparr>codecCtx := Some ctx, vpx_calls := vpx_calls p @ [call]\<rparr>
                   in case err of
                        Some e \<Rightarrow> (Err e, p)
                      | None \<Rightarrow>
                         (case Alloc (alloc_ok env) ImageFormatI420 (width p) (height p) p of
                            (Some im, p) \<Rightarrow> (Ok (), p\<lparr>img := Some im\<rparr>)
                          | (None, p) \<Rightarrow> (Panic (LogFatal (NewError ''failed to create img'')), p\<lparr>img := None\<rparr>))))))))"

definition wants_keyframe :: "StreamDisplayRequest \<Rightarrow> frame_env \<Rightarrow> displayProcessor \<Rightarrow> bool" where
  "wants_keyframe req env p \<longleftrightarrow>
     StreamDisplayRequest_KeyframeInterval req \<noteq> 0 \<and>
     word_of_int (now env - lastKeyframe p) \<ge> StreamDisplayRequest_KeyframeInterval req"

text \<open>An image is only there together with an encoder (\<open>dp_inv\<close> below).\<close>

definition encode_frame ::
  "StreamDisplayRequest \<Rightarrow> frame_env \<Rightarrow> Frame \<Rightarrow> displayProcessor \<Rightarrow> (unit res \<times> DisplayFrame list) \<times> displayProcessor" where
  "encode_frame req env frame p =
     (case RgbToYuv (FrameData frame) (width p) (height p) of
        Panic q \<Rightarrow> ((Panic q, []), p)
      | Err e \<Rightarrow> ((Err e, []), p)
      | Ok data \<Rightarrow>
       (case (img p, codecCtx p) of
          (Some im, Some ctx) \<Rightarrow>
         (case Read (unat (d_w im)) (unat (d_h im)) data of
            Panic q \<Rightarrow> ((Panic q, []), p)
          | Err e \<Rightarrow> ((Err e, []), p)
          | Ok None \<Rightarrow> ((Panic OutOfBoundsRead, []), p)
          | Ok (Some _) \<Rightarrow>
             (let keyframe = (frameCount p = 0 \<or> wants_keyframe req env p);
                  p = (if wants_keyframe req env p then p\<lparr>lastKeyframe := now env\<rparr> else p);
                  flags = (if keyframe then EFlagForceKF else EFlagNone);
                  (err, call) = Encode (encode_err env) ctx im (ucast (frameCount p)) 1 flags DLRealtime;
                  p = p\<lparr>vpx_calls := vpx_calls p @ [call]\<rparr>
              in case err of
                   Some e \<Rightarrow> ((Panic (LogFatal e), []), p)
                 | None \<Rightarrow>
                    (let r = send_packets keyframe (width p) (height p) (frame_buffers (packets env)) (send_errs env)
                     in if is_ok (fst r) then (r, p\<lparr>frameCount := frameCount p + 1\<rparr>) else (r, p))))
        | _ \<Rightarrow> ((Panic NilDereference, []), p)))"

definition processFrame ::
  "StreamDisplayRequest \<Rightarrow> frame_env \<Rightarrow> Frame option res \<Rightarrow> displayProcessor \<Rightarrow>
   (unit res \<times> DisplayFrame list) \<times> displayProcessor" where
  "processFrame req env waited p = (case waited of
     Err e \<Rightarrow> ((Err e, []), p)
   | Panic q \<Rightarrow> ((Panic q, []), p)
   | Ok None \<Rightarrow> blank_screen env p
   | Ok (Some frame) \<Rightarrow>
      (case (if FrameWidth frame \<noteq> width p \<or> FrameHeight frame \<noteq> height p
             then reconfigure env frame p else (Ok (), p)) of
         (Ok _, p) \<Rightarrow> encode_frame req env frame p
       | (Err e, p) \<Rightarrow> ((Err e, []), p)
       | (Panic q, p) \<Rightarrow> ((Panic q, []), p)))"

subsection \<open>StreamDisplay\<close>

text \<open>The loop: what it has sent, and how it ended, \<open>None\<close> while the inputs last.\<close>

fun display_loop ::
  "StreamDisplayRequest \<Rightarrow> (Frame option res \<times> frame_env) list \<Rightarrow> displayProcessor \<Rightarrow>
   unit res option \<times> DisplayFrame list \<times> displayProcessor" where
  "display_loop req [] p = (None, [], p)"
| "display_loop req ((waited, env) # ins) p =
     (case processFrame req env waited p of
        ((Ok _, sent), p') \<Rightarrow>
          (let (r, sent', p'') = display_loop req ins p' in (r, sent @ sent', p''))
      | ((r, sent), p') \<Rightarrow> (Some r, sent, p'))"

text \<open>The period of the ticker, one second over the rate in nanoseconds; it must be positive.\<close>

definition ticker_period :: "StreamDisplayRequest \<Rightarrow> nat" where
  "ticker_period req = 1000000000 div unat (StreamDisplayRequest_MaxFps req)"

fun StreamDisplay ::
  "StreamDisplayRequest \<Rightarrow> (Frame option res \<times> frame_env) list \<Rightarrow>
   unit res option \<times> DisplayFrame list \<times> displayProcessor" where
  "StreamDisplay req [] = (None, [], NewProcessor)"
| "StreamDisplay req ((waited, env) # ins) =
     (case processFrame req env waited NewProcessor of
        ((Ok _, sent), p) \<Rightarrow>
          (if StreamDisplayRequest_MaxFps req \<noteq> 0 \<and> ticker_period req = 0
           then (Some (Panic NonPositiveTicker), sent, p)
           else (let (r, sent', p') = display_loop req ins p in (r, sent @ sent', p')))
      | ((r, sent), p) \<Rightarrow> (Some r, sent, p))"

subsection \<open>Good frames\<close>

definition good_frame :: "Frame \<Rightarrow> bool" where
  "good_frame f \<longleftrightarrow> (let w = unat (FrameWidth f); h = unat (FrameHeight f)
     in 0 < w \<and> 0 < h \<and> even w \<and> even h \<and> 3 * (w * h) < 2 ^ 26 \<and> length (FrameData f) = 3 * (w * h))"

definition good_env :: "frame_env \<Rightarrow> bool" where
  "good_env env \<longleftrightarrow> calloc_errs env = (None, None) \<and> default_err env = CODEC_OK \<and> init_err env = CODEC_OK \<and> alloc_ok env \<and>
     encode_err env = CODEC_OK \<and> frame_buffers (packets env) \<noteq> []"

definition has_size :: "displayProcessor \<Rightarrow> bool" where
  "has_size p \<longleftrightarrow> width p \<noteq> 0 \<or> height p \<noteq> 0"

text \<open>The image and the encoder are there, distinct and allocated, and the image has the current size.\<close>

definition dp_inv :: "displayProcessor \<Rightarrow> bool" where
  "dp_inv p \<longleftrightarrow> distinct (allocated p) \<and> (\<forall>a \<in> set (allocated p). a < fresh p) \<and>
     (case (img p, codecCtx p) of
        (Some im, Some c) \<Rightarrow> has_size p \<and> d_w im = width p \<and> d_h im = height p \<and>
          handle im \<in> set (allocated p) \<and> c \<in> set (allocated p) \<and> handle im \<noteq> c
      | (None, None) \<Rightarrow> \<not> has_size p
      | _ \<Rightarrow> False)"

lemma dp_inv_updates [simp]:
  "dp_inv (p\<lparr>frameCount := n\<rparr>) = dp_inv p" "dp_inv (p\<lparr>lastKeyframe := t\<rparr>) = dp_inv p"
  "dp_inv (p\<lparr>vpx_calls := cs\<rparr>) = dp_inv p"
  by (simp_all add: dp_inv_def has_size_def split: option.splits)

lemma dp_inv_New: "dp_inv NewProcessor"
  by (simp add: dp_inv_def NewProcessor_def has_size_def)

definition resized :: "Frame \<Rightarrow> displayProcessor \<Rightarrow> bool" where
  "resized f p \<longleftrightarrow> FrameWidth f \<noteq> width p \<or> FrameHeight f \<noteq> height p"

lemma good_frame_size: "good_frame f \<Longrightarrow> FrameWidth f \<noteq> 0 \<and> FrameHeight f \<noteq> 0"
  by (auto simp: good_frame_def Let_def)

lemma free_ok: "a \<in> set (allocated p) \<Longrightarrow> free (Some a) p = (Ok (), p\<lparr>allocated := removeAll a (allocated p)\<rparr>)"
  by (simp add: free_def)

lemma free_None [simp]: "free None p = (Ok (), p)"
  by (simp add: free_def)

lemma length_removeAll_in: "distinct xs \<Longrightarrow> a \<in> set xs \<Longrightarrow> Suc (length (removeAll a xs)) = length xs"
  using length_pos_if_in_set[of a xs] by (simp add: distinct_remove1_removeAll[symmetric] length_remove1)

lemma reconfigure_good:
  assumes "dp_inv p" "good_env env" "FrameWidth f \<noteq> 0"
  shows "\<exists>p'. reconfigure env f p = (Ok (), p') \<and> dp_inv p' \<and> width p' = FrameWidth f \<and>
    height p' = FrameHeight f \<and> frameCount p' = 0 \<and> lastKeyframe p' = now env \<and> img p' \<noteq> None \<and>
    length (allocated p') = length (allocated p) + (if img p = None then 3 else 1)"
proof (cases "img p")
  case None
  then have "codecCtx p = None" using assms(1) by (auto simp: dp_inv_def split: option.splits)
  with None assms show ?thesis
    by (auto simp: reconfigure_def vpx_heap good_env_def dp_inv_def has_size_def Let_def)
next
  case (Some im)
  then obtain c where c: "codecCtx p = Some c" using assms(1) by (auto simp: dp_inv_def split: option.splits)
  with Some assms(1) have in_p: "handle im \<in> set (allocated p)" "c \<in> set (allocated p)" "handle im \<noteq> c"
    "distinct (allocated p)" "\<forall>a \<in> set (allocated p). a < fresh p"
    by (auto simp: dp_inv_def)
  have len: "length (removeAll c (removeAll (handle im) (allocated p))) + 2 = length (allocated p)"
    using in_p length_removeAll_in[of "allocated p" "handle im"]
      length_removeAll_in[of "removeAll (handle im) (allocated p)" c] by (simp add: distinct_removeAll)
  have old: "fresh p \<notin> set (allocated p)" "Suc (fresh p) \<notin> set (allocated p)" "Suc (Suc (fresh p)) \<notin> set (allocated p)"
    using in_p(5) by fastforce+
  show ?thesis
    using Some c in_p assms len old
    by (auto simp: reconfigure_def vpx_heap good_env_def dp_inv_def has_size_def Let_def free_ok distinct_removeAll
        less_SucI)
qed

lemma encode_good:
  assumes "dp_inv p" "good_env env" "good_frame f" "\<not> resized f p"
  shows "\<exists>p'. encode_frame req env f p =
      (send_packets (frameCount p = 0 \<or> wants_keyframe req env p) (FrameWidth f) (FrameHeight f) (frame_buffers (packets env)) (send_errs env), p')
    \<and> dp_inv p' \<and> width p' = width p \<and> height p' = height p \<and> allocated p' = allocated p \<and> img p' = img p"
proof -
  have sz: "width p = FrameWidth f" "height p = FrameHeight f" using assms(4) by (auto simp: resized_def)
  then have "has_size p" using good_frame_size[OF assms(3)] by (auto simp: has_size_def)
  then obtain im ctx where im: "img p = Some im" "d_w im = width p" "d_h im = height p" "codecCtx p = Some ctx"
    using assms(1) by (auto simp: dp_inv_def split: option.splits)
  let ?w = "unat (FrameWidth f)" and ?h = "unat (FrameHeight f)"
  have f: "even ?w" "even ?h" "3 * (?w * ?h) < 2 ^ 26" "3 * (?w * ?h) \<le> length (FrameData f)" "0 < ?w * ?h"
    using assms(3) by (auto simp: good_frame_def Let_def)
  let ?d = "map (sample luma (FrameData f) ?w) (coords 1 (FrameWidth f) (FrameHeight f)) @
      map (sample chroma_u (FrameData f) ?w) (coords 2 (FrameWidth f) (FrameHeight f)) @
      map (sample chroma_v (FrameData f) ?w) (coords 2 (FrameWidth f) (FrameHeight f))"
  have yuv: "RgbToYuv (FrameData f) (FrameWidth f) (FrameHeight f) = Ok ?d"
    using f by (intro RgbToYuv_ok)
  have len: "length ?d = 3 * (?w * ?h) div 2" using chroma_count[OF f(1,2)] by simp
  then have "\<exists>planes. Read ?w ?h ?d = Ok (Some (planes, []))"
    using f by (intro Read_exact) auto
  then obtain planes where "Read ?w ?h ?d = Ok (Some (planes, []))" by blast
  with yuv im sz assms(1,2) show ?thesis
    by (simp add: encode_frame_def vpx_wrappers Let_def good_env_def)
qed

lemma process_good:
  assumes "dp_inv p" "good_env env" "good_frame f"
  shows "\<exists>kf p'. processFrame req env (Ok (Some f)) p =
      (send_packets kf (FrameWidth f) (FrameHeight f) (frame_buffers (packets env)) (send_errs env), p') \<and>
    (resized f p \<longrightarrow> kf) \<and> dp_inv p' \<and> width p' = FrameWidth f \<and> height p' = FrameHeight f \<and> img p' \<noteq> None \<and>
    length (allocated p') = length (allocated p) + (if \<not> resized f p then 0 else if img p = None then 3 else 1)"
proof (cases "resized f p")
  case True
  have "FrameWidth f \<noteq> 0" using good_frame_size[OF assms(3)] by blast
  from reconfigure_good[OF assms(1,2) this] obtain p1 where
    p1: "reconfigure env f p = (Ok (), p1)" "dp_inv p1" "width p1 = FrameWidth f" "height p1 = FrameHeight f"
    "frameCount p1 = 0" "img p1 \<noteq> None"
    "length (allocated p1) = length (allocated p) + (if img p = None then 3 else 1)" by blast
  then have "\<not> resized f p1" by (simp add: resized_def)
  from encode_good[OF p1(2) assms(2,3) this, of req] p1 True show ?thesis
    by (auto simp: processFrame_def resized_def)
next
  case False
  then have "img p \<noteq> None"
    using assms(1) good_frame_size[OF assms(3)]
    by (auto simp: resized_def dp_inv_def has_size_def split: option.splits)
  with encode_good[OF assms False, of req] False show ?thesis
    by (auto simp: processFrame_def resized_def)
qed

subsection \<open>The frames a client receives\<close>

fun kf_chain :: "u32 \<Rightarrow> u32 \<Rightarrow> DisplayFrame list \<Rightarrow> bool" where
  "kf_chain w h [] = True"
| "kf_chain w h (d # ds) = ((DisplayFrame_Width d = w \<and> DisplayFrame_Height d = h \<or> DisplayFrame_Keyframe d) \<and>
     kf_chain (DisplayFrame_Width d) (DisplayFrame_Height d) ds)"

lemma send_packets_Cons:
  "send_packets kf w h (pkt # pkts) errs =
     (if errs \<noteq> [] \<and> hd errs \<noteq> None then (Err (the (hd errs)), [display_frame kf w h pkt])
      else (fst (send_packets kf w h pkts (tl errs)), display_frame kf w h pkt # snd (send_packets kf w h pkts (tl errs))))"
  by (auto simp: Let_def split: list.splits option.splits)

lemma send_packets_shape:
  "\<forall>d \<in> set (snd (send_packets kf w h pkts errs)). DisplayFrame_Width d = w \<and> DisplayFrame_Height d = h \<and>
     DisplayFrame_Keyframe d = kf \<and> DisplayFrame_Data d \<in> set pkts"
  "\<not> is_panic (fst (send_packets kf w h pkts errs))"
  "fst (send_packets kf w h pkts errs) = Ok () \<Longrightarrow> map DisplayFrame_Data (snd (send_packets kf w h pkts errs)) = pkts"
proof -
  show "\<forall>d \<in> set (snd (send_packets kf w h pkts errs)). DisplayFrame_Width d = w \<and> DisplayFrame_Height d = h \<and>
     DisplayFrame_Keyframe d = kf \<and> DisplayFrame_Data d \<in> set pkts"
  proof (induction pkts arbitrary: errs)
    case (Cons pkt pkts)
    from Cons.IH[of "tl errs"] show ?case
      by (auto simp: send_packets_Cons display_frame_def simp del: send_packets.simps(2) split: if_splits)
  qed simp
  show "\<not> is_panic (fst (send_packets kf w h pkts errs))"
  proof (induction pkts arbitrary: errs)
    case (Cons pkt pkts)
    from Cons.IH[of "tl errs"] show ?case
      by (simp add: send_packets_Cons del: send_packets.simps(2))
  qed simp
  show "fst (send_packets kf w h pkts errs) = Ok () \<Longrightarrow> map DisplayFrame_Data (snd (send_packets kf w h pkts errs)) = pkts"
  proof (induction pkts arbitrary: errs)
    case (Cons pkt pkts)
    with Cons.IH[of "tl errs"] show ?case
      by (auto simp: send_packets_Cons display_frame_def simp del: send_packets.simps(2) split: if_splits)
  qed simp
qed

lemma kf_chain_same:
  "\<forall>d \<in> set ds. DisplayFrame_Width d = w \<and> DisplayFrame_Height d = h \<and> DisplayFrame_Keyframe d = kf \<Longrightarrow>
   w0 = w \<and> h0 = h \<or> kf \<Longrightarrow> ds \<noteq> [] \<Longrightarrow>
   kf_chain w0 h0 (ds @ es) \<longleftrightarrow> kf_chain w h es"
proof (induction ds arbitrary: w0 h0)
  case (Cons d ds)
  from Cons.prems(1) have d: "DisplayFrame_Width d = w" "DisplayFrame_Height d = h" "DisplayFrame_Keyframe d = kf"
    by simp_all
  have "w = w0 \<and> h = h0 \<or> kf" using Cons.prems(2) by blast
  then have "kf_chain w0 h0 ((d # ds) @ es) = kf_chain w h (ds @ es)"
    by (simp only: append_Cons kf_chain.simps d simp_thms)
  moreover have "kf_chain w h (ds @ es) = kf_chain w h es"
  proof (cases "ds = []")
    case False
    have "\<forall>d \<in> set ds. DisplayFrame_Width d = w \<and> DisplayFrame_Height d = h \<and> DisplayFrame_Keyframe d = kf"
      using Cons.prems(1) by (meson list.set_intros(2))
    then show ?thesis using False by (intro Cons.IH) blast+
  qed simp
  ultimately show ?case by blast
qed simp

definition good_input :: "Frame option res \<times> frame_env \<Rightarrow> bool" where
  "good_input i \<longleftrightarrow> good_env (snd i) \<and> (case fst i of Ok (Some f) \<Rightarrow> good_frame f | Err _ \<Rightarrow> True | _ \<Rightarrow> False)"

definition frames_in :: "(Frame option res \<times> frame_env) list \<Rightarrow> Frame set" where
  "frames_in ins = {f. Ok (Some f) \<in> fst ` set ins}"

definition shown :: "Frame set \<Rightarrow> DisplayFrame \<Rightarrow> bool" where
  "shown fs d \<longleftrightarrow> (\<exists>f \<in> fs. DisplayFrame_Width d = FrameWidth f \<and> DisplayFrame_Height d = FrameHeight f)"

lemma send_packets_nonempty: "pkts \<noteq> [] \<Longrightarrow> snd (send_packets kf w h pkts errs) \<noteq> []"
  by (cases pkts) (auto simp: Let_def split: list.splits option.splits)

text \<open>One call, as the loops see it.\<close>

lemma dp_inv_allocated:
  assumes "dp_inv p" "img p \<noteq> None"
  shows "2 \<le> length (allocated p)"
proof -
  obtain im c where "img p = Some im" "codecCtx p = Some c"
    using assms by (auto simp: dp_inv_def split: option.splits)
  then have "{handle im, c} \<subseteq> set (allocated p)" "handle im \<noteq> c" using assms(1) by (auto simp: dp_inv_def)
  then have "2 \<le> card (set (allocated p))"
    by (metis card_2_iff card_mono List.finite_set)
  then show ?thesis using card_length le_trans by blast
qed

lemma process_input:
  assumes "dp_inv p" "good_input (waited, env)"
  obtains r sent p' where "processFrame req env waited p = ((r, sent), p')" "dp_inv p'" "\<not> is_panic r"
    "kf_chain (width p) (height p) sent" "\<forall>d \<in> set sent. shown {f. waited = Ok (Some f)} d"
    "img p \<noteq> None \<or> sent \<noteq> [] \<longrightarrow> img p' \<noteq> None"
    "r = Ok () \<Longrightarrow> sent \<noteq> [] \<and> (\<forall>es. kf_chain (width p) (height p) (sent @ es) = kf_chain (width p') (height p') es)"
proof (cases waited)
  case (Err e)
  show ?thesis by (rule that[of "Err e" "[]" p]) (simp_all add: Err processFrame_def assms(1))
next
  case (Ok fo)
  with assms(2) obtain f where f: "waited = Ok (Some f)" "good_frame f" "good_env env"
    by (auto simp: good_input_def split: option.splits)
  from process_good[OF assms(1) f(3,2), of req] obtain kf p' where
    p': "processFrame req env waited p =
      (send_packets kf (FrameWidth f) (FrameHeight f) (frame_buffers (packets env)) (send_errs env), p')"
    "resized f p \<longrightarrow> kf" "dp_inv p'" "width p' = FrameWidth f" "height p' = FrameHeight f" "img p' \<noteq> None"
    unfolding f(1) by blast
  obtain r sent where sp: "send_packets kf (FrameWidth f) (FrameHeight f) (frame_buffers (packets env)) (send_errs env) = (r, sent)"
    by fastforce
  have sh: "\<forall>d \<in> set sent. DisplayFrame_Width d = FrameWidth f \<and> DisplayFrame_Height d = FrameHeight f \<and> DisplayFrame_Keyframe d = kf"
    "\<not> is_panic r"
    using send_packets_shape(1,2)[of kf "FrameWidth f" "FrameHeight f" "frame_buffers (packets env)" "send_errs env"] sp by auto
  have ne: "sent \<noteq> []"
    using send_packets_nonempty[of "frame_buffers (packets env)" kf "FrameWidth f" "FrameHeight f" "send_errs env"] sp f(3)
    by (simp add: good_env_def)
  have chain: "kf_chain (width p) (height p) (sent @ es) = kf_chain (FrameWidth f) (FrameHeight f) es" for es
  proof (rule kf_chain_same[where kf = kf])
    show "width p = FrameWidth f \<and> height p = FrameHeight f \<or> kf"
      using p'(2) by (auto simp: resized_def)
  qed (fact sh(1) ne)+
  have "\<forall>d \<in> set sent. shown {f. waited = Ok (Some f)} d"
    using sh(1) f(1) by (simp add: shown_def)
  then show ?thesis
    using that[of r sent p'] p' sp sh(2) ne chain chain[of "[]"] by simp
next
  case (Panic q)
  then show ?thesis using assms(2) by (simp add: good_input_def)
qed

lemma shown_mono: "shown fs d \<Longrightarrow> fs \<subseteq> gs \<Longrightarrow> shown gs d"
  by (auto simp: shown_def)

definition stream_ok :: "u32 \<Rightarrow> u32 \<Rightarrow> Frame set \<Rightarrow> bool \<Rightarrow> unit res option \<times> DisplayFrame list \<times> displayProcessor \<Rightarrow> bool" where
  "stream_ok w h fs b res \<longleftrightarrow> (case res of (r, sent, p) \<Rightarrow> (\<forall>q. r \<noteq> Some (Panic q)) \<and> kf_chain w h sent \<and>
     (\<forall>d \<in> set sent. shown fs d) \<and> dp_inv p \<and> (b \<or> sent \<noteq> [] \<longrightarrow> img p \<noteq> None))"

lemma display_loop_good:
  "dp_inv p \<Longrightarrow> \<forall>i \<in> set ins. good_input i \<Longrightarrow>
   stream_ok (width p) (height p) (frames_in ins) (img p \<noteq> None) (display_loop req ins p)"
proof (induction ins arbitrary: p)
  case (Cons i ins)
  obtain waited env where i: "i = (waited, env)" by (cases i)
  have fs: "{f. waited = Ok (Some f)} \<subseteq> frames_in (i # ins)" "frames_in ins \<subseteq> frames_in (i # ins)"
    by (auto simp: frames_in_def i)
  have "good_input (waited, env)" using Cons.prems(2) i by simp
  note step = process_input[OF Cons.prems(1) this, of req]
  obtain r sent p' where
    s: "processFrame req env waited p = ((r, sent), p')" "dp_inv p'" "\<not> is_panic r"
    "kf_chain (width p) (height p) sent" "\<forall>d \<in> set sent. shown {f. waited = Ok (Some f)} d"
    "img p \<noteq> None \<or> sent \<noteq> [] \<longrightarrow> img p' \<noteq> None"
    "r = Ok () \<Longrightarrow> sent \<noteq> [] \<and> (\<forall>es. kf_chain (width p) (height p) (sent @ es) = kf_chain (width p') (height p') es)"
    by (rule step) (rule that)
  have sh: "\<forall>d \<in> set sent. shown (frames_in (i # ins)) d" using s(5) shown_mono[OF _ fs(1)] by blast
  show ?case
  proof (cases r)
    case (Ok u)
    obtain r2 sent2 p2 where l: "display_loop req ins p' = (r2, sent2, p2)" by (cases "display_loop req ins p'")
    have "stream_ok (width p') (height p') (frames_in ins) (img p' \<noteq> None) (r2, sent2, p2)"
      using Cons.IH[OF s(2)] Cons.prems(2) l by simp
    then have t: "\<forall>q. r2 \<noteq> Some (Panic q)" "kf_chain (width p') (height p') sent2"
      "\<forall>d \<in> set sent2. shown (frames_in ins) d" "dp_inv p2" "img p' \<noteq> None \<or> sent2 \<noteq> [] \<longrightarrow> img p2 \<noteq> None"
      by (simp_all add: stream_ok_def)
    have eq: "display_loop req (i # ins) p = (r2, sent @ sent2, p2)" by (simp add: i s(1) Ok l)
    have "r = Ok ()" using Ok by simp
    from s(7)[OF this] have "sent \<noteq> []" "kf_chain (width p) (height p) (sent @ sent2)" using t(2) by blast+
    moreover have "\<forall>d \<in> set (sent @ sent2). shown (frames_in (i # ins)) d"
      using sh t(3) shown_mono[OF _ fs(2)] by (simp add: ball_Un)
    moreover have "img p2 \<noteq> None" using s(6) t(5) \<open>sent \<noteq> []\<close> by blast
    ultimately show ?thesis using t(1,4) unfolding eq stream_ok_def by blast
  next
    case (Err e)
    then show ?thesis using s sh by (simp add: stream_ok_def i)
  next
    case (Panic q)
    then show ?thesis using s(3) by simp
  qed
qed (simp add: stream_ok_def)

lemma StreamDisplay_loop:
  assumes "unat (StreamDisplayRequest_MaxFps req) \<le> 1000000000"
  shows "StreamDisplay req ins = display_loop req ins NewProcessor"
proof (cases ins)
  case (Cons i ins')
  obtain waited env where i: "i = (waited, env)" by (cases i)
  have "StreamDisplayRequest_MaxFps req \<noteq> 0 \<longrightarrow> ticker_period req \<noteq> 0"
    using assms by (auto simp: ticker_period_def div_eq_0_iff unat_eq_zero)
  then show ?thesis by (auto simp: Cons i split: prod.splits res.splits)
qed simp

lemma StreamDisplay_cases:
  obtains (loop) "StreamDisplay req ins = display_loop req ins NewProcessor"
  | (ticker) sent p where "1000000000 < unat (StreamDisplayRequest_MaxFps req)"
      "StreamDisplay req ins = (Some (Panic NonPositiveTicker), sent, p)"
      "display_loop req (take 1 ins) NewProcessor = (None, sent, p)"
proof (cases "unat (StreamDisplayRequest_MaxFps req) \<le> 1000000000")
  case True
  then show ?thesis using loop StreamDisplay_loop by blast
next
  case False
  then have t: "StreamDisplayRequest_MaxFps req \<noteq> 0" "ticker_period req = 0"
    by (auto simp: ticker_period_def)
  show ?thesis
  proof (cases ins)
    case Nil
    then show ?thesis using loop by simp
  next
    case (Cons i rest)
    obtain waited env where i: "i = (waited, env)" by (cases i)
    obtain r sent p where P: "processFrame req env waited NewProcessor = ((r, sent), p)" by (metis prod.exhaust)
    show ?thesis
    proof (cases r)
      case (Ok u)
      then show ?thesis using ticker[of sent p] False t P by (simp add: Cons i)
    qed (use loop P in \<open>simp_all add: Cons i\<close>)
  qed
qed

lemma frames_in_take: "frames_in (take n ins) \<subseteq> frames_in ins"
  by (auto simp: frames_in_def dest: in_set_takeD)

text \<open>The stream as a whole: only the ticker can crash it.\<close>

definition stream_safe :: "StreamDisplayRequest \<Rightarrow> Frame set \<Rightarrow> unit res option \<times> DisplayFrame list \<times> displayProcessor \<Rightarrow> bool" where
  "stream_safe req fs res \<longleftrightarrow> (case res of (r, sent, p) \<Rightarrow>
     (\<forall>q. r = Some (Panic q) \<longrightarrow> q = NonPositiveTicker \<and> 1000000000 < unat (StreamDisplayRequest_MaxFps req)) \<and>
     kf_chain 0 0 sent \<and> (\<forall>d \<in> set sent. shown fs d) \<and> dp_inv p \<and> (sent \<noteq> [] \<longrightarrow> img p \<noteq> None))"

lemma StreamDisplay_safe_stream:
  assumes "\<forall>i \<in> set ins. good_input i"
  shows "stream_safe req (frames_in ins) (StreamDisplay req ins)"
proof (cases rule: StreamDisplay_cases[of req ins])
  case loop
  have "stream_ok 0 0 (frames_in ins) False (display_loop req ins NewProcessor)"
    using display_loop_good[OF dp_inv_New assms, of req] by (simp add: NewProcessor_def)
  then show ?thesis unfolding loop by (auto simp: stream_ok_def stream_safe_def split: prod.splits)
next
  case (ticker sent p)
  have "\<forall>i \<in> set (take 1 ins). good_input i" using assms by (blast dest: in_set_takeD)
  then have "stream_ok 0 0 (frames_in (take 1 ins)) False (None, sent, p)"
    using display_loop_good[OF dp_inv_New, of "take 1 ins" req] ticker(3) by (simp add: NewProcessor_def)
  then show ?thesis
    unfolding ticker(2) using ticker(1) shown_mono[OF _ frames_in_take[of 1 ins]] by (auto simp: stream_ok_def stream_safe_def)
qed

text \<open>The frames sent, in groups: the frames of a group come of one wait, in the order of the waits.\<close>

fun in_order :: "Frame option res list \<Rightarrow> DisplayFrame list list \<Rightarrow> bool" where
  "in_order ws [] = True"
| "in_order [] (g # gs) = False"
| "in_order (waited # ws) (g # gs) = ((\<forall>d \<in> set g. shown {f. waited = Ok (Some f)} d) \<and> in_order ws gs)"

lemma display_loop_order:
  "dp_inv p \<Longrightarrow> \<forall>i \<in> set ins. good_input i \<Longrightarrow> display_loop req ins p = (r, sent, p') \<Longrightarrow>
   \<exists>gs. sent = concat gs \<and> in_order (map fst ins) gs \<and>
     (r = None \<longrightarrow> length gs = length ins \<and> (\<forall>g \<in> set gs. g \<noteq> []))"
proof (induction ins arbitrary: p sent)
  case Nil
  then show ?case by (intro exI[of _ "[]"]) simp
next
  case (Cons i ins)
  obtain waited env where i: "i = (waited, env)" by (cases i)
  have "good_input (waited, env)" using Cons.prems(2) i by simp
  note step = process_input[OF Cons.prems(1) this, of req]
  obtain r1 sent1 p1 where
    s: "processFrame req env waited p = ((r1, sent1), p1)" "dp_inv p1"
    "\<forall>d \<in> set sent1. shown {f. waited = Ok (Some f)} d" "r1 = Ok () \<Longrightarrow> sent1 \<noteq> []"
    by (rule step) (metis that)
  show ?case
  proof (cases r1)
    case (Ok u)
    obtain r2 sent2 p2 where l: "display_loop req ins p1 = (r2, sent2, p2)" by (cases "display_loop req ins p1")
    with Cons.prems(3) s Ok i have rs: "r2 = r" "sent = sent1 @ sent2" "p2 = p'" by simp_all
    obtain gs where gs: "sent2 = concat gs" "in_order (map fst ins) gs"
      "r = None \<longrightarrow> length gs = length ins \<and> (\<forall>g \<in> set gs. g \<noteq> [])"
      using Cons.IH[OF s(2) _ l[unfolded rs]] Cons.prems(2) by auto
    show ?thesis
      using rs gs s Ok i by (intro exI[of _ "sent1 # gs"]) auto
  next
    case (Err e)
    then show ?thesis using Cons.prems(3) s i by (intro exI[of _ "[sent1]"]) auto
  next
    case (Panic q)
    then show ?thesis using Cons.prems(3) s i by (intro exI[of _ "[sent1]"]) auto
  qed
qed

lemma in_order_append: "in_order ws gs \<Longrightarrow> in_order (ws @ vs) gs"
  by (induction ws gs rule: in_order.induct) simp_all

lemma StreamDisplay_order:
  assumes "\<forall>i \<in> set ins. good_input i" "StreamDisplay req ins = (r, sent, p')"
  shows "\<exists>gs. sent = concat gs \<and> in_order (map fst ins) gs \<and>
     (r = None \<longrightarrow> length gs = length ins \<and> (\<forall>g \<in> set gs. g \<noteq> []))"
proof (cases rule: StreamDisplay_cases[of req ins])
  case loop
  show ?thesis by (rule display_loop_order[OF dp_inv_New assms(1) assms(2)[unfolded loop]])
next
  case (ticker sent' p)
  have "\<forall>i \<in> set (take 1 ins). good_input i" using assms(1) by (blast dest: in_set_takeD)
  from display_loop_order[OF dp_inv_New this ticker(3)] obtain gs where
    "sent' = concat gs" "in_order (map fst (take 1 ins)) gs" by blast
  moreover have "map fst ins = map fst (take 1 ins) @ map fst (drop 1 ins)" by (simp flip: map_append)
  ultimately show ?thesis using ticker(2) assms(2) in_order_append by (metis option.distinct(1) prod.inject)
qed

lemma emulator_frame_good:
  assumes "f \<in> set (processDisplay sys evs e)"
    and "even (unat (StartEmulatorRequest_LcdWidth (request e)))" "even (unat (StartEmulatorRequest_LcdHeight (request e)))"
    and "StartEmulatorRequest_LcdWidth (request e) \<noteq> 0" "StartEmulatorRequest_LcdHeight (request e) \<noteq> 0"
    and "3 * (unat (StartEmulatorRequest_LcdWidth (request e)) * unat (StartEmulatorRequest_LcdHeight (request e))) < 2 ^ 26"
  shows "good_frame f"
  using processDisplay_size[OF assms(1)] assms(2-) memSize_small[of "FrameWidth f" "FrameHeight f"]
  by (auto simp: good_frame_def Let_def unat_gt_0 mult.commute)

subsection \<open>Properties\<close>

definition vpx_defaults :: CodecEncCfg where
  "vpx_defaults = \<lparr>g_w = 320, g_h = 240, rc_target_bitrate = 256, g_error_resilient = 0, g_timebase = (1, 30)\<rparr>"

definition sample_env :: frame_env where
  "sample_env = \<lparr>now = 40, calloc_errs = (None, None), default_err = CODEC_OK, default_cfg = vpx_defaults, init_err = CODEC_OK, alloc_ok = True, encode_err = CODEC_OK,
     packets = [\<lparr>is_frame = True, frame_buf = Some [1, 2, 3]\<rparr>], send_errs = []\<rparr>"

lemma sample_env_good: "good_env sample_env"
  by (simp add: good_env_def sample_env_def frame_buffer_def)

definition sample_frame :: "u32 \<Rightarrow> u32 \<Rightarrow> Frame" where
  "sample_frame w h = \<lparr>FrameWidth = w, FrameHeight = h, FrameData = replicate (3 * (unat w * unat h)) 0\<rparr>"


definition sample_emulator :: emulator where
  "sample_emulator = \<lparr>request = StartEmulatorRequest_zero\<lparr>StartEmulatorRequest_LcdWidth := 2, StartEmulatorRequest_LcdHeight := 2\<rparr>,
     controller = None, pid = 1, forceExitRequested = False\<rparr>"


text \<open>A client that asks for more than a thousand million frames a second crashes the agent: the
  period of its ticker is rounded down to zero.\<close>

lemma StreamDisplay_rate_panics:
  assumes "good_env env" "good_frame f" "send_errs env = []" "1000000000 < unat (StreamDisplayRequest_MaxFps req)"
  shows "fst (Display.StreamDisplay req ((Ok (Some f), env) # ins)) = Some (Panic NonPositiveTicker)"
proof -
  have "StreamDisplayRequest_MaxFps req \<noteq> 0" "ticker_period req = 0"
    using assms(4) by (auto simp: ticker_period_def)
  moreover obtain kf p' where p': "processFrame req env (Ok (Some f)) NewProcessor =
      (send_packets kf (FrameWidth f) (FrameHeight f) (frame_buffers (packets env)) (send_errs env), p')"
    using process_good[OF dp_inv_New assms(1,2), of req] by blast
  moreover obtain sent where "send_packets kf (FrameWidth f) (FrameHeight f) (frame_buffers (packets env)) (send_errs env) = (Ok (), sent)"
  proof -
    have "fst (send_packets k w h pkts []) = Ok ()" for k w h pkts
      by (induction pkts) (simp_all add: Let_def)
    then show thesis using that assms(3) by (metis prod.collapse)
  qed
  ultimately show ?thesis by simp
qed

lemma sample_frame_good: "good_frame (sample_frame 2 2)"
  by (simp add: good_frame_def sample_frame_def)

lemma StreamDisplay_rate_panics_witness:
  "fst (Display.StreamDisplay (StreamDisplayRequest_zero\<lparr>StreamDisplayRequest_MaxFps := 2000000000\<rparr>)
     [(Ok (Some (sample_frame 2 2)), sample_env)]) = Some (Panic NonPositiveTicker)"
  using StreamDisplay_rate_panics[of sample_env "sample_frame 2 2"
      "StreamDisplayRequest_zero\<lparr>StreamDisplayRequest_MaxFps := 2000000000\<rparr>" "[]"]
  by (simp add: sample_frame_good sample_env_good) (simp add: sample_env_def)

text \<open>C40: A frame with an odd side, of fewer than \<open>2 ^ 24\<close> bytes, crashes the agent in whatever state its stream is.
  A blank frame after a shown one is sent without a crash and frees the image and the encoder, but keeps their
  pointers: a second blank frame, or a frame of any size, then frees the image a second time.\<close>

theorem processFrame_crashes:
  assumes "dp_inv p" "good_env env" "0 < unat (FrameWidth f)" "0 < unat (FrameHeight f)"
    "3 * (unat (FrameWidth f) * unat (FrameHeight f)) < 2 ^ 24"
  shows "(odd (unat (FrameWidth f)) \<or> odd (unat (FrameHeight f)) \<longrightarrow>
      fst (fst (processFrame req env (Ok (Some f)) p)) = Panic IndexOutOfRange) \<and>
    (img p \<noteq> None \<longrightarrow> (case processFrame req env (Ok None) p of ((r, sent), p1) \<Rightarrow>
       \<not> is_panic r \<and> sent = [display_frame True 0 0 []] \<and>
       fst (fst (processFrame req env2 (Ok None) p1)) = Panic DoubleFree \<and>
       fst (fst (processFrame req env2 (Ok (Some f)) p1)) = Panic DoubleFree))"
proof -
  have nz: "FrameWidth f \<noteq> 0" using assms(3) by auto
  have "fst (fst (processFrame req env (Ok (Some f)) p)) = Panic IndexOutOfRange"
    if "odd (unat (FrameWidth f)) \<or> odd (unat (FrameHeight f))"
  proof -
    have yuv: "RgbToYuv (FrameData f) (FrameWidth f) (FrameHeight f) = Panic IndexOutOfRange"
      using that assms(3-5) by (intro RgbToYuv_odd)
    from reconfigure_good[OF assms(1,2) nz] obtain p1 where
      "reconfigure env f p = (Ok (), p1)" "width p1 = FrameWidth f" "height p1 = FrameHeight f" by blast
    with yuv show ?thesis by (auto simp: processFrame_def encode_frame_def)
  qed
  moreover have "case processFrame req env (Ok None) p of ((r, sent), p1) \<Rightarrow>
       \<not> is_panic r \<and> sent = [display_frame True 0 0 []] \<and>
       fst (fst (processFrame req env2 (Ok None) p1)) = Panic DoubleFree \<and>
       fst (fst (processFrame req env2 (Ok (Some f)) p1)) = Panic DoubleFree"
    if shown: "img p \<noteq> None"
  proof -
    obtain im c where ic: "img p = Some im" "codecCtx p = Some c" "handle im \<in> set (allocated p)"
      "c \<in> set (allocated p)" "handle im \<noteq> c"
      using assms(1) shown by (auto simp: dp_inv_def split: option.splits)
    obtain r sent p1 where p1: "processFrame req env (Ok None) p = ((r, sent), p1)" by (metis prod.exhaust)
    then have k: "img p1 = Some im" "handle im \<notin> set (allocated p1)" "width p1 = 0" "\<not> is_panic r" "sent = [display_frame True 0 0 []]"
      using ic by (auto simp: processFrame_def blank_screen_def FreeImage_def free_def Let_def split: list.splits option.splits)
    then show ?thesis
      using p1 nz by (simp add: processFrame_def blank_screen_def reconfigure_def FreeImage_def free_def Let_def on_ok_def)
  qed
  ultimately show ?thesis by blast
qed

definition shown_processor :: displayProcessor where
  "shown_processor = snd (processFrame StreamDisplayRequest_zero sample_env (Ok (Some (sample_frame 2 2))) NewProcessor)"

theorem processFrame_crashes_witness:
  "fst (fst (processFrame StreamDisplayRequest_zero sample_env (Ok (Some (sample_frame 3 2))) shown_processor)) = Panic IndexOutOfRange \<and>
   (case processFrame StreamDisplayRequest_zero sample_env (Ok None) shown_processor of ((r, sent), p1) \<Rightarrow>
     fst (fst (processFrame StreamDisplayRequest_zero sample_env (Ok None) p1)) = Panic DoubleFree)"
proof -
  obtain kf p where p: "processFrame StreamDisplayRequest_zero sample_env (Ok (Some (sample_frame 2 2))) NewProcessor =
      (send_packets kf (FrameWidth (sample_frame 2 2)) (FrameHeight (sample_frame 2 2)) (frame_buffers (packets sample_env))
        (send_errs sample_env), p)" "dp_inv p" "img p \<noteq> None"
    using process_good[OF dp_inv_New sample_env_good sample_frame_good] by blast
  then have "dp_inv shown_processor" "img shown_processor \<noteq> None" by (simp_all add: shown_processor_def)
  then show ?thesis
    using processFrame_crashes[of shown_processor sample_env "sample_frame 3 2" StreamDisplayRequest_zero sample_env]
    by (auto simp: sample_frame_def sample_env_good split: prod.splits)
qed

subsection \<open>The calls to libvpx\<close>

text \<open>The encoder libvpx has, as the stream sees it; before the first one there is no image either.\<close>

definition encoder_of :: "displayProcessor \<Rightarrow> enc_state" where
  "encoder_of p = (case (codecCtx p, img p) of
     (Some c, Some im) \<Rightarrow> Some (c, d_w im, d_h im, frameCount p) | _ \<Rightarrow> None)"

definition follows :: "displayProcessor \<Rightarrow> bool" where
  "follows p \<longleftrightarrow> exec enc_step (vpx_calls p) None = Some (encoder_of p) \<and>
     (img p = None \<longleftrightarrow> codecCtx p = None) \<and>
     (\<forall>im. img p = Some im \<longrightarrow> format im = ImageFormatI420 \<and> d_w im = width p \<and> d_h im = height p)"

lemma ucast_up_down: "ucast (ucast (w :: u32) :: u64) = w"
  by (rule bit_word_eqI) (auto simp: bit_simps)

lemma stream_config_size [simp]: "g_w (stream_config w h cfg) = w" "g_h (stream_config w h cfg) = h"
  by (simp_all add: stream_config_def SetGW_def SetGH_def SetRcTargetBitrate_def SetGErrorResilient_def
      SetGTimebase_def ucast_up_down)

lemma free_calls: "vpx_calls (snd (free x p)) = vpx_calls p"
  by (auto simp: free_def split: option.splits)

lemma free_cases: "free x p = (Ok (), p\<lparr>allocated := removeAll (the x) (allocated p)\<rparr>) \<or>
    free x p = (Ok (), p) \<or> free x p = (Panic DoubleFree, p)"
  by (auto simp: free_def split: option.splits)

lemma reconfigure_follows:
  assumes "exec enc_step (vpx_calls p) None \<noteq> None" "reconfigure env f p = (r, p')"
  shows "exec enc_step (vpx_calls p') None \<noteq> None \<and> (r = Ok () \<longrightarrow> follows p' \<and> frameCount p' = 0)"
proof -
  let ?p = "p\<lparr>width := FrameWidth f, height := FrameHeight f, frameCount := 0, lastKeyframe := now env\<rparr>"
  obtain r1 p1 where f1: "free (map_option handle (img ?p)) ?p = (r1, p1)" by fastforce
  obtain r2 p2 where f2: "free (codecCtx p1) p1 = (r2, p2)" by fastforce
  have c: "vpx_calls p1 = vpx_calls p" "vpx_calls p2 = vpx_calls p"
    using free_calls[of "map_option handle (img ?p)" ?p] free_calls[of "codecCtx p1" p1] f1 f2 by simp_all
  have w: "width p2 = FrameWidth f \<and> height p2 = FrameHeight f \<and> frameCount p2 = 0"
    using free_cases[of "map_option handle (img ?p)" ?p] free_cases[of "codecCtx p1" p1] f1 f2 by auto
  obtain st where st: "exec enc_step (vpx_calls p) None = Some st" using assms(1) by blast
  show ?thesis
  proof (cases "r1 = Ok () \<and> r2 = Ok ()")
    case True
    then show ?thesis
      using assms(2) f1 f2 st w c
      by (auto simp: reconfigure_def vpx_heap Let_def follows_def encoder_of_def exec_append split: option.splits if_splits)
  next
    case False
    then show ?thesis
      using assms f1 f2 c
      by (cases r1; cases r2) (auto simp: reconfigure_def FreeImage_def Let_def)
  qed
qed

lemma encode_follows:
  assumes "follows p" "encode_frame req env f p = ((r, s), p')"
  shows "exec enc_step (vpx_calls p') None \<noteq> None \<and> (r = Ok () \<longrightarrow> follows p')"
proof (cases "vpx_calls p' = vpx_calls p")
  case True
  have "r \<noteq> Ok ()"
    using assms(2) True
    by (auto simp: encode_frame_def vpx_wrappers Let_def split: res.splits option.splits if_splits)
  then show ?thesis using True assms(1) by (auto simp: follows_def)
next
  case False
  then obtain im ctx where im: "img p = Some im" "codecCtx p = Some ctx"
    using assms(2) by (auto simp: encode_frame_def Let_def split: res.splits option.splits if_splits)
  let ?kf = "frameCount p = 0 \<or> wants_keyframe req env p"
  let ?c = "CallEncode ctx im (ucast (frameCount p)) 1 (if ?kf then EFlagForceKF else EFlagNone) DLRealtime"
  have step: "exec enc_step (vpx_calls p @ [?c]) None = Some (Some (ctx, d_w im, d_h im, frameCount p + 1))"
    using assms(1) im by (auto simp: follows_def encoder_of_def exec_snoc_Some)
  have "vpx_calls p' = vpx_calls p @ [?c]" "r = Ok () \<longrightarrow> frameCount p' = frameCount p + 1"
    "img p' = img p \<and> codecCtx p' = codecCtx p \<and> width p' = width p \<and> height p' = height p"
    using assms(2) False im
    by (auto simp: encode_frame_def vpx_wrappers Let_def split: res.splits option.splits if_splits)
  then show ?thesis
    using step assms(1) im by (auto simp: follows_def encoder_of_def)
qed

lemma process_follows:
  assumes "follows p" "waited \<noteq> Ok None" "processFrame req env waited p = ((r, s), p')"
  shows "exec enc_step (vpx_calls p') None \<noteq> None \<and> (r = Ok () \<longrightarrow> follows p')"
proof (cases waited)
  case (Ok fo)
  then obtain f where f: "waited = Ok (Some f)" using assms(2) by (cases fo) auto
  have start: "exec enc_step (vpx_calls p) None \<noteq> None" using assms(1) by (simp add: follows_def)
  show ?thesis
  proof (cases "FrameWidth f \<noteq> width p \<or> FrameHeight f \<noteq> height p")
    case True
    obtain r1 p1 where r1: "reconfigure env f p = (r1, p1)" by fastforce
    note F = reconfigure_follows[OF start r1]
    show ?thesis
    proof (cases r1)
      case (Ok u)
      then have "encode_frame req env f p1 = ((r, s), p')" using assms(3) f True r1 by (simp add: processFrame_def)
      then show ?thesis using F Ok by (intro encode_follows) simp_all
    qed (use assms(3) f True r1 F in \<open>auto simp: processFrame_def\<close>)
  next
    case False
    then have "encode_frame req env f p = ((r, s), p')" using assms(3) f by (simp add: processFrame_def)
    then show ?thesis using assms(1) by (rule encode_follows[rotated])
  qed
qed (use assms in \<open>auto simp: processFrame_def follows_def\<close>)

lemma follows_calls: "follows p \<Longrightarrow> exec enc_step (vpx_calls p) None \<noteq> None"
  by (simp add: follows_def)

lemma display_loop_follows:
  "follows p \<Longrightarrow> \<forall>i \<in> set ins. fst i \<noteq> Ok None \<Longrightarrow>
   exec enc_step (vpx_calls (snd (snd (display_loop req ins p)))) None \<noteq> None"
proof (induction ins arbitrary: p)
  case (Cons i ins)
  obtain waited env where i: "i = (waited, env)" by (cases i)
  obtain r s p' where p': "processFrame req env waited p = ((r, s), p')" by (metis prod.exhaust)
  have "waited \<noteq> Ok None" using Cons.prems(2) i by simp
  note F = process_follows[OF Cons.prems(1) this p']
  show ?case
  proof (cases r)
    case (Ok u)
    then show ?thesis using F Cons.IH[of p'] Cons.prems(2) by (cases "display_loop req ins p'") (simp add: i p')
  qed (use F in \<open>simp_all add: i p'\<close>)
qed (auto dest: follows_calls)

text \<open>The size a call is about: that of the configuration, or of the image.\<close>

fun call_size :: "vpx_call \<Rightarrow> u32 \<times> u32" where
  "call_size (CallEncInit ctx iface cfg flags) = (g_w cfg, g_h cfg)"
| "call_size (CallEncode ctx im pts duration flags deadline) = (d_w im, d_h im)"

fun is_init :: "vpx_call \<Rightarrow> bool" where
  "is_init (CallEncInit ctx iface cfg flags) = True"
| "is_init (CallEncode ctx im pts duration flags deadline) = False"

definition frame_size :: "Frame \<Rightarrow> u32 \<times> u32" where
  "frame_size f = (FrameWidth f, FrameHeight f)"

text \<open>The kinds of calls for a frame: an encoder is made when the size has changed, then the frame is encoded.\<close>

definition kinds_for :: "u32 \<times> u32 \<Rightarrow> Frame \<Rightarrow> bool list" where
  "kinds_for z f = (if z = frame_size f then [False] else [True, False])"

text \<open>
  The calls, in groups, for the frames waited for, the size before them being \<open>z\<close>: every call is about the
  size of its frame. A stream that has ended may have stopped within the last group.
\<close>

fun calls_fit :: "bool \<Rightarrow> u32 \<times> u32 \<Rightarrow> Frame option res list \<Rightarrow> vpx_call list list \<Rightarrow> bool" where
  "calls_fit goes_on z ws [] \<longleftrightarrow> (goes_on \<longrightarrow> ws = [])"
| "calls_fit goes_on z (Ok (Some f) # ws) (g # gs) \<longleftrightarrow>
     (\<forall>c \<in> set g. call_size c = frame_size f) \<and>
     (if goes_on \<or> gs \<noteq> [] then map is_init g = kinds_for z f else prefix (map is_init g) (kinds_for z f)) \<and>
     calls_fit goes_on (frame_size f) ws gs"
| "calls_fit goes_on z ws (g # gs) \<longleftrightarrow> False"

lemma reconfigure_calls:
  assumes "reconfigure env f p = (r, p')"
  shows "\<exists>cs. vpx_calls p' = vpx_calls p @ cs \<and> (\<forall>c \<in> set cs. call_size c = frame_size f) \<and>
    (map is_init cs = [True] \<or> cs = [] \<and> r \<noteq> Ok ()) \<and> (r = Ok () \<longrightarrow> width p' = FrameWidth f \<and> height p' = FrameHeight f)"
proof -
  let ?p = "p\<lparr>width := FrameWidth f, height := FrameHeight f, frameCount := 0, lastKeyframe := now env\<rparr>"
  obtain r1 p1 where f1: "free (map_option handle (img ?p)) ?p = (r1, p1)" by fastforce
  obtain r2 p2 where f2: "free (codecCtx p1) p1 = (r2, p2)" by fastforce
  have c: "vpx_calls p1 = vpx_calls p" "vpx_calls p2 = vpx_calls p"
    using free_calls[of "map_option handle (img ?p)" ?p] free_calls[of "codecCtx p1" p1] f1 f2 by simp_all
  have w: "width p2 = FrameWidth f \<and> height p2 = FrameHeight f"
    using free_cases[of "map_option handle (img ?p)" ?p] free_cases[of "codecCtx p1" p1] f1 f2 by auto
  show ?thesis
  proof (cases "r1 = Ok () \<and> r2 = Ok ()")
    case True
    then show ?thesis
      using assms f1 f2 w c
      by (auto simp: reconfigure_def vpx_heap Let_def frame_size_def split: option.splits if_splits)
  next
    case False
    then show ?thesis
      using assms f1 f2 c by (cases r1; cases r2) (auto simp: reconfigure_def FreeImage_def Let_def)
  qed
qed

lemma encode_calls:
  assumes "follows p" "encode_frame req env f p = ((r, s), p')"
  shows "width p' = width p \<and> height p' = height p \<and> (\<exists>cs. vpx_calls p' = vpx_calls p @ cs \<and>
    (\<forall>c \<in> set cs. call_size c = (width p, height p)) \<and> (map is_init cs = [False] \<or> cs = [] \<and> r \<noteq> Ok ()))"
proof (cases "img p")
  case None
  then show ?thesis using assms(2) by (auto simp: encode_frame_def split: res.splits)
next
  case (Some im)
  then have "d_w im = width p" "d_h im = height p" using assms(1) by (auto simp: follows_def)
  then show ?thesis
    using assms(2) Some
    by (auto simp: encode_frame_def vpx_wrappers Let_def split: res.splits option.splits if_splits)
qed

lemma process_calls:
  assumes "follows p" "processFrame req env (Ok (Some f)) p = ((r, s), p')"
  shows "\<exists>cs. vpx_calls p' = vpx_calls p @ cs \<and> (\<forall>c \<in> set cs. call_size c = frame_size f) \<and>
    prefix (map is_init cs) (kinds_for (width p, height p) f) \<and>
    (r = Ok () \<longrightarrow> map is_init cs = kinds_for (width p, height p) f \<and> (width p', height p') = frame_size f)"
proof (cases "(width p, height p) = frame_size f")
  case True
  then have "encode_frame req env f p = ((r, s), p')" using assms(2) by (simp add: processFrame_def frame_size_def)
  note E = encode_calls[OF assms(1) this]
  then show ?thesis using True by (auto simp: kinds_for_def)
next
  case False
  have start: "exec enc_step (vpx_calls p) None \<noteq> None" using assms(1) by (simp add: follows_def)
  obtain r1 p1 where r1: "reconfigure env f p = (r1, p1)" by fastforce
  obtain cs where cs: "vpx_calls p1 = vpx_calls p @ cs" "\<forall>c \<in> set cs. call_size c = frame_size f"
    "map is_init cs = [True] \<or> cs = [] \<and> r1 \<noteq> Ok ()" "r1 = Ok () \<longrightarrow> width p1 = FrameWidth f \<and> height p1 = FrameHeight f"
    using reconfigure_calls[OF r1] by metis
  show ?thesis
  proof (cases r1)
    case (Ok u)
    then have e: "encode_frame req env f p1 = ((r, s), p')"
      using assms(2) False r1 by (auto simp: processFrame_def frame_size_def)
    have "follows p1" using reconfigure_follows[OF start r1] Ok by simp
    from encode_calls[OF this e] obtain ds where ds: "vpx_calls p' = vpx_calls p1 @ ds"
      "\<forall>c \<in> set ds. call_size c = (width p1, height p1)" "map is_init ds = [False] \<or> ds = [] \<and> r \<noteq> Ok ()"
      "width p' = width p1" "height p' = height p1" by metis
    then show ?thesis
      using cs Ok False by (intro exI[of _ "cs @ ds"]) (auto simp: kinds_for_def frame_size_def)
  qed (use assms(2) False r1 cs in \<open>auto simp: processFrame_def frame_size_def kinds_for_def intro!: exI[of _ cs]\<close>)
qed

lemma display_loop_calls:
  "follows p \<Longrightarrow> \<forall>i \<in> set ins. fst i \<noteq> Ok None \<Longrightarrow> display_loop req ins p = (r, sent, p') \<Longrightarrow>
   \<exists>gs. vpx_calls p' = vpx_calls p @ concat gs \<and> calls_fit (r = None) (width p, height p) (map fst ins) gs"
proof (induction ins arbitrary: p sent)
  case Nil
  then show ?case by (intro exI[of _ "[]"]) simp
next
  case (Cons i ins)
  obtain waited env where i: "i = (waited, env)" by (cases i)
  obtain r1 s1 p1 where p1: "processFrame req env waited p = ((r1, s1), p1)" by (metis prod.exhaust)
  have ne: "waited \<noteq> Ok None" using Cons.prems(2) i by simp
  show ?case
  proof (cases "\<exists>f. waited = Ok (Some f)")
    case True
    then obtain f where f: "waited = Ok (Some f)" by blast
    obtain cs where cs: "vpx_calls p1 = vpx_calls p @ cs" "\<forall>c \<in> set cs. call_size c = frame_size f"
      "prefix (map is_init cs) (kinds_for (width p, height p) f)"
      "r1 = Ok () \<longrightarrow> map is_init cs = kinds_for (width p, height p) f \<and> (width p1, height p1) = frame_size f"
      using process_calls[OF Cons.prems(1) p1[unfolded f]] by metis
    show ?thesis
    proof (cases r1)
      case (Ok u)
      obtain r2 s2 p2 where l: "display_loop req ins p1 = (r2, s2, p2)" by (cases "display_loop req ins p1")
      then have rs: "r2 = r" "p2 = p'" using Cons.prems(3) p1 Ok i by simp_all
      have "follows p1" using process_follows[OF Cons.prems(1) ne p1] Ok by simp
      from Cons.IH[OF this _ l[unfolded rs]] Cons.prems(2) obtain gs where
        "vpx_calls p' = vpx_calls p1 @ concat gs" "calls_fit (r = None) (width p1, height p1) (map fst ins) gs" by auto
      then show ?thesis using cs Ok f i by (intro exI[of _ "cs # gs"]) auto
    qed (use Cons.prems(3) p1 i f cs in \<open>auto intro!: exI[of _ "[cs]"]\<close>)
  next
    case False
    then have "r = Some r1" "p' = p" "r1 \<noteq> Ok ()"
      using Cons.prems(3) p1 i ne by (auto simp: processFrame_def split: res.splits option.splits)
    then show ?thesis by (intro exI[of _ "[]"]) simp
  qed
qed

lemma calls_fit_more: "calls_fit goes_on z ws gs \<Longrightarrow> calls_fit False z (ws @ vs) gs"
  by (induction goes_on z ws gs rule: calls_fit.induct) (auto split: if_splits)

text \<open>C15: Whatever the encoder and the client do, as long as no blank frame comes, the calls a display stream makes keep
  the order libvpx asks for: the encoder in use has been initialised, the images are of its size and format, the
  time stamps count up from zero and the first frame of an encoder is forced to be a keyframe. And they are those
  for the frames waited for, in order: for each frame first a new encoder, configured for the size of that frame,
  if the size has changed, then the encoding of an image of that size, for all of them as long as the stream goes
  on. (What a blank frame does is in \<open>processFrame_crashes\<close>; the server broadcasts none.)\<close>

theorem display_encoder_protocol:
  assumes "\<forall>i \<in> set ins. fst i \<noteq> Ok None" "Display.StreamDisplay req ins = (r, sent, p)"
  shows "exec enc_step (vpx_calls p) None \<noteq> None \<and>
    (\<exists>gs. vpx_calls p = concat gs \<and> calls_fit (r = None) (0, 0) (map fst ins) gs)"
proof -
  have new: "follows NewProcessor" "vpx_calls NewProcessor = []" "width NewProcessor = 0" "height NewProcessor = 0"
    by (simp_all add: follows_def NewProcessor_def encoder_of_def)
  show ?thesis
  proof (cases rule: StreamDisplay_cases[of req ins])
    case loop
    then have l: "display_loop req ins NewProcessor = (r, sent, p)" using assms(2) by simp
    show ?thesis
      using display_loop_follows[OF new(1) assms(1), of req] display_loop_calls[OF new(1) assms(1) l] l new by simp
  next
    case (ticker sent' p')
    then have p: "r = Some (Panic NonPositiveTicker)" "p = p'" using assms(2) by simp_all
    have one: "\<forall>i \<in> set (take 1 ins). fst i \<noteq> Ok None" using assms(1) by (blast dest: in_set_takeD)
    from display_loop_calls[OF new(1) one ticker(3)] obtain gs where
      "vpx_calls p' = concat gs" "calls_fit True (0, 0) (map fst (take 1 ins)) gs"
      by (auto simp: new)
    moreover have "map fst ins = map fst (take 1 ins) @ map fst (drop 1 ins)" by (simp flip: map_append)
    ultimately have "calls_fit False (0, 0) (map fst ins) gs" by (metis calls_fit_more)
    moreover have "exec enc_step (vpx_calls p') None \<noteq> None"
      using display_loop_follows[OF new(1) one, of req] ticker(3) by simp
    ultimately show ?thesis using p \<open>vpx_calls p' = concat gs\<close> by auto
  qed
qed

theorem display_encoder_protocol_witness:
  "case Display.StreamDisplay StreamDisplayRequest_zero [(Ok (Some (sample_frame 2 2)), sample_env), (Err Closed, sample_env)]
    of (r, sent, p) \<Rightarrow> exec enc_step (vpx_calls p) None \<noteq> None \<and>
     (\<exists>gs. vpx_calls p = concat gs \<and> calls_fit (r = None) (0, 0) [Ok (Some (sample_frame 2 2)), Err Closed] gs)"
proof -
  let ?ins = "[(Ok (Some (sample_frame 2 2)), sample_env), (Err Closed, sample_env)]"
  obtain r sent p where p: "Display.StreamDisplay StreamDisplayRequest_zero ?ins = (r, sent, p)" by (metis prod.exhaust)
  have "\<forall>i \<in> set ?ins. fst i \<noteq> Ok None" by simp
  from display_encoder_protocol[OF this p] show ?thesis by (simp only: p prod.case) simp
qed

end
