(* ===== verification/AgentClient.thy ===== *)
theory AgentClient
  imports Handlers SyncClient ShellClient Display
begin

text \<open>
  \<^verbatim>\<open>agent/client/client.go\<close>, \<^verbatim>\<open>state.go\<close>, \<^verbatim>\<open>syslog.go\<close>, \<^verbatim>\<open>display.go\<close> and \<^verbatim>\<open>input.go\<close>: the client library of the agent.
  The gRPC client is a parameter of each call: for a unary call the function from the request to
  the response, for a stream what opening it gives.
\<close>

subsection \<open>client.go\<close>

record Client =
  conn_addr :: string
  conn_open :: bool

text \<open>The dial blocks until the agent answers; its outcome is given.\<close>

definition Connect :: "string \<Rightarrow> goerr option \<Rightarrow> Client res" where
  "Connect addr dial = (case dial of Some e \<Rightarrow> Err e | None \<Rightarrow> Ok \<lparr>conn_addr = addr, conn_open = True\<rparr>)"

definition CloseClient :: "goerr option \<Rightarrow> Client \<Rightarrow> unit res \<times> Client" where
  "CloseClient err c = ((case err of None \<Rightarrow> Ok () | Some e \<Rightarrow> Err e), c\<lparr>conn_open := False\<rparr>)"

record StartRequest =
  RamSize :: u32
  CoreCount :: u32
  LcdDensity :: u32
  LcdWidth :: u32
  LcdHeight :: u32
  RootADB :: bool

definition StartEmulator :: "(StartEmulatorRequest \<Rightarrow> unit res) \<Rightarrow> StartRequest \<Rightarrow> unit res" where
  "StartEmulator client req = client \<lparr>
     StartEmulatorRequest_RamSize = RamSize req,
     StartEmulatorRequest_CoreCount = CoreCount req,
     StartEmulatorRequest_LcdDensity = LcdDensity req,
     StartEmulatorRequest_LcdWidth = LcdWidth req,
     StartEmulatorRequest_LcdHeight = LcdHeight req,
     StartEmulatorRequest_RootAdb = RootADB req\<rparr>"

definition StopEmulator :: "(StopEmulatorRequest \<Rightarrow> unit res) \<Rightarrow> bool \<Rightarrow> unit res" where
  "StopEmulator client force = client \<lparr>StopEmulatorRequest_ForceExit = force\<rparr>"

definition OpenShell :: "goerr + (ShellResponse source \<times> ShellRequest sink) \<Rightarrow> Request \<Rightarrow> Shell res" where
  "OpenShell opened req = ShellClient.Open opened req"

definition ListDirectory ::
  "(ListDirectoryRequest \<Rightarrow> ListDirectoryResponse res) \<Rightarrow> string \<Rightarrow> DirectoryEntry list res" where
  "ListDirectory client path = SyncClient.ListDirectory client path"

definition StatFile ::
  "(StatFileRequest \<Rightarrow> StatFileResponse res) \<Rightarrow> string \<Rightarrow> bool \<Rightarrow> client_FileStat res" where
  "StatFile client path followLinks = SyncClient.StatFile client path followLinks"

definition PullFile :: "(PullFileRequest \<Rightarrow> goerr + PullFileResponse source) \<Rightarrow> string \<Rightarrow> PullStream res" where
  "PullFile client path = SyncClient.PullFile client path"

definition PushFile ::
  "string \<Rightarrow> u32 \<Rightarrow> goerr + PushFileRequest sink \<Rightarrow> unit res \<times> PushFileRequest sink option" where
  "PushFile path mode opened = SyncClient.PushFile path mode opened"

subsection \<open>state.go\<close>

type_synonym EmulatorState = AgentState_EmulatorState

definition EmulatorError :: EmulatorState where "EmulatorError = AgentState_ERROR"
definition EmulatorOff :: EmulatorState where "EmulatorOff = AgentState_OFF"
definition EmulatorStarting :: EmulatorState where "EmulatorStarting = AgentState_STARTING"
definition EmulatorRunning :: EmulatorState where "EmulatorRunning = AgentState_RUNNING"

record client_State =
  sEmulatorState :: EmulatorState
  sEmulatorError :: "string option"

definition stream_open :: "goerr + 'm source \<Rightarrow> 'm source res" where
  "stream_open opened = (case opened of Inl e \<Rightarrow> Err e | Inr src \<Rightarrow> Ok src)"

definition stream_recv :: "('m \<Rightarrow> 'r) \<Rightarrow> 'm source \<Rightarrow> 'r res \<times> 'm source" where
  "stream_recv f src = (case grpc_recv src of
     (Ok m, src) \<Rightarrow> (Ok (f m), src)
   | (Err e, src) \<Rightarrow> (Err e, src)
   | (Panic p, src) \<Rightarrow> (Panic p, src))"

text \<open>A client that receives \<open>n\<close> times.\<close>

fun client_recvs :: "('s \<Rightarrow> 'r res \<times> 's) \<Rightarrow> nat \<Rightarrow> 's \<Rightarrow> 'r list" where
  "client_recvs recv 0 src = []"
| "client_recvs recv (Suc n) src = (case recv src of (Ok x, src) \<Rightarrow> x # client_recvs recv n src | _ \<Rightarrow> [])"

lemma client_recvs_all: "client_recvs (stream_recv f) (length ms) \<lparr>msgs = ms, rend = e\<rparr> = map f ms"
  by (induction ms) (simp_all add: stream_recv_def)

type_synonym client_StateStream = "AgentState source"

definition StreamState :: "goerr + AgentState source \<Rightarrow> client_StateStream res" where
  "StreamState opened = stream_open opened"

definition convert_state :: "AgentState \<Rightarrow> client_State" where
  "convert_state st = \<lparr>sEmulatorState = AgentState_EmulatorState st, sEmulatorError = AgentState_EmulatorError st\<rparr>"

definition StateStream_Recv :: "client_StateStream \<Rightarrow> client_State res \<times> client_StateStream" where
  "StateStream_Recv = stream_recv convert_state"

subsection \<open>syslog.go\<close>

type_synonym client_SysLogStream = "SysLogEntry source"

definition StreamSysLog :: "goerr + SysLogEntry source \<Rightarrow> client_SysLogStream res" where
  "StreamSysLog opened = stream_open opened"

text \<open>An entry of the client is its line.\<close>

definition SysLogStream_Recv :: "client_SysLogStream \<Rightarrow> string res \<times> client_SysLogStream" where
  "SysLogStream_Recv = stream_recv SysLogEntry_Line"

subsection \<open>display.go\<close>

type_synonym FrameFormat = StreamDisplayRequest_FrameFormat

definition RGB888 :: FrameFormat where "RGB888 = StreamDisplayRequest_RGB888"
definition VP8 :: FrameFormat where "VP8 = StreamDisplayRequest_VP8"

record DisplayRequest =
  Format :: FrameFormat
  MaxFPS :: u32
  KeyframeInterval :: u32

record client_Frame =
  cKeyframe :: bool
  cWidth :: u32
  cHeight :: u32
  cData :: "byte list"

type_synonym client_DisplayStream = "DisplayFrame source"

definition StreamDisplay ::
  "(StreamDisplayRequest \<Rightarrow> goerr + DisplayFrame source) \<Rightarrow> DisplayRequest \<Rightarrow> client_DisplayStream res" where
  "StreamDisplay client req = stream_open (client \<lparr>
     StreamDisplayRequest_Format = Format req,
     StreamDisplayRequest_MaxFps = MaxFPS req,
     StreamDisplayRequest_KeyframeInterval = KeyframeInterval req\<rparr>)"

definition DisplayStream_Recv :: "client_DisplayStream \<Rightarrow> client_Frame res \<times> client_DisplayStream" where
  "DisplayStream_Recv = stream_recv (\<lambda>frame. \<lparr>
     cKeyframe = DisplayFrame_Keyframe frame,
     cWidth = DisplayFrame_Width frame,
     cHeight = DisplayFrame_Height frame,
     cData = DisplayFrame_Data frame\<rparr>)"

subsection \<open>input.go\<close>

record client_Touch =
  tIdentifier :: u32
  tX :: u32
  tY :: u32
  tPressure :: u32
  tTouchMajor :: i32
  tTouchMinor :: i32

text \<open>The one implementation of the interface \<^verbatim>\<open>InputEvent\<close>.\<close>

definition ToRequest :: "client_Touch \<Rightarrow> InputRequest" where
  "ToRequest e = \<lparr>InputRequest_Event = Some (InputRequest_Touch (Some \<lparr>
     TouchEvent_Identifier = tIdentifier e,
     TouchEvent_X = tX e,
     TouchEvent_Y = tY e,
     TouchEvent_Pressure = tPressure e,
     TouchEvent_TouchMajor = tTouchMajor e,
     TouchEvent_TouchMinor = tTouchMinor e\<rparr>))\<rparr>"

definition SendInput :: "(InputRequest \<Rightarrow> unit res) \<Rightarrow> client_Touch \<Rightarrow> unit res" where
  "SendInput client event = client (ToRequest event)"

subsection \<open>Both sides together\<close>

text \<open>The touch the emulator's service is to be sent for a touch of the client.\<close>

definition service_touch :: "client_Touch \<Rightarrow> emu_TouchEvent" where
  "service_touch ev = \<lparr>
     emu_TouchEvent_Touches = [Some \<lparr>
       emu_Touch_X = tX ev,
       emu_Touch_Y = tY ev,
       emu_Touch_Identifier = tIdentifier ev,
       emu_Touch_Pressure = tPressure ev,
       emu_Touch_TouchMajor = tTouchMajor ev,
       emu_Touch_TouchMinor = tTouchMinor ev,
       emu_Touch_Expiration = emu_Touch_NEVER_EXPIRE\<rparr>],
     emu_TouchEvent_Display = 0\<rparr>"

text \<open>C34: A touch a client sends while the emulator is up and connected reaches the emulator's service with
  the same coordinates, identifier, pressure and extent, once, and the client gets the service's
  answer.\<close>

theorem touch_end_to_end:
  assumes "state s = StateRunning \<or> state s = StateStarting" "emu s = Some i" "i < length (emus s)"
    and "controller (emus s ! i) \<noteq> None"
  shows "AgentClient.SendInput (\<lambda>req. fst (fst (Server.SendInput svc (Some req) s))) ev =
      (case svc (TouchCall (service_touch ev)) of None \<Rightarrow> Ok () | Some e \<Rightarrow> Err e) \<and>
    snd (fst (Server.SendInput svc (Some (ToRequest ev)) s)) = [TouchCall (service_touch ev)]"
  using assms
  by (auto simp: AgentClient.SendInput_def Server.SendInput_def on_emu_def ProcessInput_def ToRequest_def
      SendTouch_def emu_do_def touch_of_def service_touch_def Let_def)

definition demo_server :: server where
  "demo_server = NewServer\<lparr>state := StateRunning, emu := Some 0, emus := [\<lparr>request = StartEmulatorRequest_zero,
     controller = Some \<lparr>connection = ''c''\<rparr>, pid = 7, forceExitRequested = False\<rparr>]\<rparr>"

theorem touch_end_to_end_witness:
  "snd (fst (Server.SendInput (\<lambda>_. None) (Some (ToRequest \<lparr>tIdentifier = 1, tX = 10, tY = 20, tPressure = 5,
     tTouchMajor = 0, tTouchMinor = 0\<rparr>)) demo_server)) = [TouchCall (service_touch \<lparr>tIdentifier = 1, tX = 10, tY = 20,
       tPressure = 5, tTouchMajor = 0, tTouchMinor = 0\<rparr>)]"
  using touch_end_to_end[of demo_server 0 "\<lambda>_. None" "\<lparr>tIdentifier = 1, tX = 10, tY = 20, tPressure = 5,
     tTouchMajor = 0, tTouchMinor = 0\<rparr>"]
  by (simp add: demo_server_def NewServer_def)

end
