(* ===== verification/Hosting.thy ===== *)
theory Hosting
  imports Broadcaster
begin

text \<open>
  A component that owns a broadcaster, with the broadcaster's listeners around it. The component is a
  transition system of its own (\<open>step\<close>), and \<open>bcast\<close> picks its broadcaster out of its state. The events of
  the whole are those of the component and the critical sections of \<^verbatim>\<open>Wait\<close> of any number of listeners.
  The locale \<open>broadcast_host\<close> is what the component promises: each of its steps leaves its broadcaster
  alone or broadcasts one acceptable value. What it gives is what the listeners get.
\<close>

subsection \<open>The component and its listeners\<close>

text \<open>\<open>told\<close> is what has been broadcast.\<close>

record ('s, 'v) hosted =
  host :: 's
  listening :: "nat \<Rightarrow> 'v lstate"
  told :: "'v list"

datatype 'e hosted_event = HostDo 'e | HostWait nat | HostResume nat

fun h_step ::
  "('e \<Rightarrow> 's \<Rightarrow> 's option) \<Rightarrow> ('s \<Rightarrow> 'v broadcaster) \<Rightarrow> 'e hosted_event \<Rightarrow> ('s, 'v) hosted \<Rightarrow> ('s, 'v) hosted option" where
  "h_step step bcast (HostDo e) w = (case step e (host w) of
     None \<Rightarrow> None
   | Some s \<Rightarrow> Some
       (if bcast s = bcast (host w) then w\<lparr>host := s\<rparr>
        else \<lparr>host = s, listening = wake \<circ> listening w, told = told w @ [bvalue (bcast s)]\<rparr>))"
| "h_step step bcast (HostWait i) w =
     (if lphase (listening w i) \<noteq> Idle then None
      else case wait_enter (bcast (host w)) (lastGeneration (listening w i)) of
        None \<Rightarrow> Some (w\<lparr>listening := (listening w)(i := (listening w i)\<lparr>lphase := Sleeping\<rparr>)\<rparr>)
      | Some r \<Rightarrow> Some (w\<lparr>listening := (listening w)(i := returned r (listening w i))\<rparr>))"
| "h_step step bcast (HostResume i) w =
     (if lphase (listening w i) \<noteq> Woken then None
      else Some (w\<lparr>listening := (listening w)(i :=
             returned (wait_finish (bcast (host w)) (lastGeneration (listening w i))) (listening w i))\<rparr>))"

definition h_start :: "('s \<Rightarrow> 'v broadcaster) \<Rightarrow> 's \<Rightarrow> ('s, 'v) hosted" where
  "h_start bcast s = \<lparr>host = s, listening = (\<lambda>_. Listener),
     told = (if generation (bcast s) = 0 then [] else [bvalue (bcast s)])\<rparr>"

fun host_events :: "'e hosted_event list \<Rightarrow> 'e list" where
  "host_events [] = []"
| "host_events (HostDo e # es) = e # host_events es"
| "host_events (_ # es) = host_events es"

lemma host_events_append [simp]: "host_events (es @ fs) = host_events es @ host_events fs"
  by (induction es rule: host_events.induct) auto

text \<open>The listeners do not disturb the component.\<close>

lemma host_exec:
  "exec (h_step step bcast) es w = Some w' \<Longrightarrow> exec step (host_events es) (host w) = Some (host w')"
proof (induction es arbitrary: w)
  case (Cons e es)
  from Cons.prems obtain w1 where w1: "h_step step bcast e w = Some w1" "exec (h_step step bcast) es w1 = Some w'"
    unfolding exec_Cons_Some by blast
  show ?case
    using Cons.IH[OF w1(2)] w1(1) by (cases e) (auto split: if_splits option.splits)
qed simp

text \<open>A listener whose waits have all returned a value.\<close>

definition all_ok :: "'a lstate \<Rightarrow> bool" where
  "all_ok l \<longleftrightarrow> (\<forall>r \<in> set (results l). \<exists>v. r = Ok v)"

lemma all_ok_returned: "all_ok l \<Longrightarrow> fst r = Ok v \<Longrightarrow> all_ok (returned r l)"
  by (auto simp: all_ok_def returned_def)

lemma map_oks: "\<forall>r \<in> set rs. \<exists>v. r = Ok v \<Longrightarrow> map Ok (oks rs) = rs"
  by (induction rs) auto

lemma Broadcast_changes: "Broadcast v b \<noteq> b"
proof
  assume "Broadcast v b = b"
  then have "generation (Broadcast v b) = generation b" by simp
  then show False by (simp add: Broadcast_def)
qed

text \<open>The whole is one of the worlds of \<open>Broadcaster\<close>: each event is a few of its events.\<close>

definition bworld_of :: "('s \<Rightarrow> 'v broadcaster) \<Rightarrow> ('s, 'v) hosted \<Rightarrow> 'v bworld" where
  "bworld_of bcast w = \<lparr>bc = bcast (host w), lis = listening w\<rparr>"

fun bevents :: "('s \<Rightarrow> 'v broadcaster) \<Rightarrow> 'e hosted_event \<Rightarrow> ('s, 'v) hosted \<Rightarrow> ('s, 'v) hosted \<Rightarrow> 'v bevent list" where
  "bevents bcast (HostDo e) w w' =
     (if bcast (host w') = bcast (host w) then [] else [EvBroadcast (bvalue (bcast (host w')))])"
| "bevents bcast (HostWait i) w w' = [EvWait i]"
| "bevents bcast (HostResume i) w w' = [EvResume i]"

definition h_hist ::
  "('s \<Rightarrow> 'v broadcaster) \<Rightarrow> 'v \<Rightarrow> 'e hosted_event list \<Rightarrow> ('s, 'v) hosted \<Rightarrow> 'v bevent list \<Rightarrow> bool" where
  "h_hist bcast zero h w bes \<longleftrightarrow> exec b_step bes (b_start zero) = Some (bworld_of bcast w) \<and>
     broadcasts bes = told w \<and> EvClose \<notin> set bes \<and> length (told w) \<le> Suc (length h)"

definition h_bound :: "('e \<Rightarrow> bool) \<Rightarrow> 'e hosted_event list \<Rightarrow> bool" where
  "h_bound allowed es \<longleftrightarrow> length es + 1 < 2 ^ 64 \<and> (\<forall>e \<in> set (host_events es). allowed e)"

definition h_inv ::
  "('s \<Rightarrow> 'v broadcaster) \<Rightarrow> 'v \<Rightarrow> ('v \<Rightarrow> bool) \<Rightarrow> 'e hosted_event list \<Rightarrow> ('s, 'v) hosted \<Rightarrow> bool" where
  "h_inv bcast zero good h w \<longleftrightarrow>
     (\<exists>bes. h_hist bcast zero h w bes) \<and> (\<forall>v \<in> set (told w). good v) \<and> (\<forall>i. all_ok (listening w i))"

lemma h_hist_b_inv:
  assumes "h_bound allowed h" "h_hist bcast zero h w bes"
  shows "\<not> bclosed (bcast (host w))" "unat (generation (bcast (host w))) = length (told w)"
    "lis_inv (told w) (bcast (host w)) (listening w i)" "bvalue (bcast (host w)) = last (zero # told w)"
proof -
  have "b_inv zero bes (bworld_of bcast w)"
    using assms by (intro bcast.inv_exec) (auto simp: gen_bound_def h_bound_def h_hist_def)
  then show "\<not> bclosed (bcast (host w))" "unat (generation (bcast (host w))) = length (told w)"
    "lis_inv (told w) (bcast (host w)) (listening w i)" "bvalue (bcast (host w)) = last (zero # told w)"
    using assms(2) by (auto simp: b_inv_def h_hist_def bworld_of_def)
qed

subsection \<open>The contract\<close>

locale broadcast_host =
  fixes step :: "'e \<Rightarrow> 's \<Rightarrow> 's option"
    and start :: 's
    and bcast :: "'s \<Rightarrow> 'v broadcaster"
    and zero :: 'v
    and allowed :: "'e \<Rightarrow> bool"
    and good :: "'v \<Rightarrow> bool"
  assumes start_bcast: "bcast start = Broadcaster.New zero \<or> (\<exists>v. good v \<and> bcast start = Broadcast v (Broadcaster.New zero))"
    and tells: "allowed e \<Longrightarrow> step e s = Some s' \<Longrightarrow> bcast s' = bcast s \<or> (\<exists>v. good v \<and> bcast s' = Broadcast v (bcast s))"
begin

lemma step_bevents:
  assumes "h_step step bcast e w = Some w'" "\<forall>x \<in> set (host_events [e]). allowed x"
  shows "exec b_step (bevents bcast e w w') (bworld_of bcast w) = Some (bworld_of bcast w') \<and>
    told w' = told w @ broadcasts (bevents bcast e w w') \<and> EvClose \<notin> set (bevents bcast e w w') \<and>
    (\<forall>v \<in> set (broadcasts (bevents bcast e w w')). good v)"
proof (cases e)
  case (HostDo x)
  then obtain s where s: "step x (host w) = Some s" using assms by (auto split: option.splits)
  have "allowed x" using assms(2) HostDo by simp
  from tells[OF this s] show ?thesis
  proof (elim disjE exE conjE)
    assume "bcast s = bcast (host w)"
    then show ?thesis using assms HostDo s by (auto simp: bworld_of_def)
  next
    fix v assume v: "good v" "bcast s = Broadcast v (bcast (host w))"
    have "bvalue (bcast s) = v" using v(2) by (simp add: Broadcast_def)
    then show ?thesis
      using assms HostDo s v by (auto simp: bworld_of_def Broadcast_changes)
  qed
qed (use assms in \<open>auto simp: bworld_of_def split: if_splits option.splits\<close>)

lemma inv_start: "h_inv bcast zero good [] (h_start bcast start)"
  using start_bcast
proof (elim disjE exE conjE)
  assume "bcast start = Broadcaster.New zero"
  then have "h_hist bcast zero [] (h_start bcast start) []"
    by (simp add: h_hist_def h_start_def bworld_of_def b_start_def Broadcaster.New_def)
  then have "\<exists>bes. h_hist bcast zero [] (h_start bcast start) bes" by blast
  then show ?thesis
    using \<open>bcast start = Broadcaster.New zero\<close>
    by (simp add: h_inv_def h_start_def all_ok_def Listener_def Broadcaster.New_def)
next
  fix v assume v: "good v" "bcast start = Broadcast v (Broadcaster.New zero)"
  then have "h_hist bcast zero [] (h_start bcast start) [EvBroadcast v]"
    by (simp add: h_hist_def h_start_def bworld_of_def b_start_def Broadcast_def Broadcaster.New_def wake_def
        Listener_def comp_def)
  then have "\<exists>bes. h_hist bcast zero [] (h_start bcast start) bes" by blast
  then show ?thesis
    using v by (simp add: h_inv_def h_start_def all_ok_def Listener_def Broadcaster.New_def Broadcast_def)
qed

lemma step_all_ok:
  assumes "h_bound allowed h" "h_inv bcast zero good h w" "h_step step bcast e w = Some w'"
  shows "all_ok (listening w' i)"
proof -
  obtain bes where bes: "h_hist bcast zero h w bes" using assms(2) by (auto simp: h_inv_def)
  note B = h_hist_b_inv[OF assms(1) bes]
  have ok: "all_ok (listening w j)" for j using assms(2) by (simp add: h_inv_def)
  have fin: "fst (wait_finish (bcast (host w)) (lastGeneration (listening w j))) = Ok (bvalue (bcast (host w)))"
    if "generation (bcast (host w)) > lastGeneration (listening w j)" for j
    using that by (simp add: wait_finish_def)
  show ?thesis
  proof (cases e)
    case (HostDo x)
    then show ?thesis
      using assms(3) ok[of i] by (auto simp: all_ok_def wake_def split: option.splits if_splits)
  next
    case (HostWait j)
    then show ?thesis
      using assms(3) ok B(1) fin[of j]
      by (auto simp: wait_enter_def not_le all_ok_returned split: if_splits option.splits)
         (auto simp: all_ok_def)
  next
    case (HostResume j)
    then have "lphase (listening w j) = Woken" using assms(3) by (auto split: if_splits)
    then have "generation (bcast (host w)) > lastGeneration (listening w j)"
      using B(1,2) B(3)[of j] by (simp add: lis_inv_def word_less_nat_alt)
    from fin[OF this] show ?thesis
      using assms(3) ok HostResume by (auto simp: all_ok_returned split: if_splits)
  qed
qed

lemma inv_step:
  assumes "h_bound allowed (h @ [e])" "h_inv bcast zero good h w" "h_step step bcast e w = Some w'"
  shows "h_inv bcast zero good (h @ [e]) w'"
proof -
  have b: "h_bound allowed h" and al: "\<forall>x \<in> set (host_events [e]). allowed x"
    using assms(1) by (auto simp: h_bound_def)
  obtain bes where bes: "h_hist bcast zero h w bes" using assms(2) by (auto simp: h_inv_def)
  note B = step_bevents[OF assms(3) al]
  have "length (broadcasts (bevents bcast e w w')) \<le> 1" by (cases e) auto
  then have "h_hist bcast zero (h @ [e]) w' (bes @ bevents bcast e w w')"
    using bes B by (auto simp: h_hist_def exec_append)
  moreover have "\<forall>v \<in> set (told w'). good v" using assms(2) B by (auto simp: h_inv_def)
  ultimately show ?thesis
    using step_all_ok[OF b assms(2,3)] unfolding h_inv_def by blast
qed

end

sublocale broadcast_host \<subseteq> hosted_sys: machine "h_step step bcast" "h_start bcast start" "h_bound allowed" "h_inv bcast zero good"
proof
  show "h_bound allowed (h @ [e]) \<Longrightarrow> h_bound allowed h" for h e by (auto simp: h_bound_def)
qed (rule inv_start inv_step; assumption)+

context broadcast_host
begin

text \<open>What a listener gets: values only, acceptable ones, a part of those told, in order.\<close>

lemma received:
  assumes "h_bound allowed es" "exec (h_step step bcast) es (h_start bcast start) = Some w"
  shows "results (listening w i) = map Ok (oks (results (listening w i)))"
    "subseq (oks (results (listening w i))) (told w)" "\<forall>v \<in> set (told w). good v"
    "\<forall>v \<in> set (oks (results (listening w i))). good v"
proof -
  have inv: "h_inv bcast zero good es w" by (rule hosted_sys.inv_exec[OF assms])
  obtain bes where bes: "h_hist bcast zero es w bes" using inv by (auto simp: h_inv_def)
  show "results (listening w i) = map Ok (oks (results (listening w i)))"
    using inv by (simp add: h_inv_def all_ok_def map_oks)
  show sub: "subseq (oks (results (listening w i))) (told w)"
    using h_hist_b_inv(3)[OF assms(1) bes, of i] subseq_order.trans[OF _ prefix_imp_subseq[OF take_is_prefix]]
    by (auto simp: lis_inv_def)
  show "\<forall>v \<in> set (told w). good v" using inv by (simp add: h_inv_def)
  then show "\<forall>v \<in> set (oks (results (listening w i))). good v" using sub by (auto elim: list_emb_set)
qed

text \<open>A new listener of a component that has told something returns at once, with the value last told.\<close>

lemma first_wait:
  assumes "h_bound allowed es" "exec (h_step step bcast) es (h_start bcast start) = Some w"
    and "listening w i = Listener" "told w \<noteq> []"
  shows "\<exists>w'. h_step step bcast (HostWait i) w = Some w' \<and> results (listening w' i) = [Ok (last (told w))]"
    "bvalue (bcast (host w)) = last (told w)"
proof -
  have inv: "h_inv bcast zero good es w" by (rule hosted_sys.inv_exec[OF assms(1,2)])
  obtain bes where bes: "h_hist bcast zero es w bes" using inv by (auto simp: h_inv_def)
  note B = h_hist_b_inv[OF assms(1) bes]
  have "generation (bcast (host w)) \<noteq> 0" using B(2) assms(4) by auto
  then have "generation (bcast (host w)) > 0" by (simp add: word_neq_0_conv)
  moreover show "bvalue (bcast (host w)) = last (told w)" using B(4) assms(4) by simp
  ultimately show "\<exists>w'. h_step step bcast (HostWait i) w = Some w' \<and> results (listening w' i) = [Ok (last (told w))]"
    using assms(3) B(1) by (auto simp: Listener_def wait_enter_def wait_finish_def returned_def)
qed

text \<open>What has been told only grows.\<close>

lemma told_nonempty:
  "generation (bcast start) \<noteq> 0 \<Longrightarrow> exec (h_step step bcast) es (h_start bcast start) = Some w \<Longrightarrow> told w \<noteq> []"
proof (induction es arbitrary: w rule: rev_induct)
  case Nil
  then show ?case by (auto simp: h_start_def)
next
  case (snoc e es)
  from snoc.prems(2) obtain w0 where w0: "exec (h_step step bcast) es (h_start bcast start) = Some w0"
    "h_step step bcast e w0 = Some w" by (auto simp: exec_snoc_Some)
  then show ?case
    using snoc.IH[OF snoc.prems(1) w0(1)] by (cases e) (auto split: if_splits option.splits)
qed

end

end
