(* ===== verification/StateStream.thy ===== *)
theory StateStream
  imports AgentClient Hosting
begin

text \<open>
  The stream of states, end to end: the server of \<open>Server\<close> hosts its state broadcaster, so that the
  listeners wait and wake between its events; what a listener's waits return is what
  \<open>Handlers.StreamState\<close> sends, and what the client's \<open>StateStream_Recv\<close> converts.
\<close>

subsection \<open>The server and the listeners of its state\<close>

definition states_of :: "sworld \<Rightarrow> AgentState option broadcaster" where
  "states_of w = stateBroadcaster (srv w)"

definition told_state :: "AgentState option \<Rightarrow> bool" where
  "told_state v \<longleftrightarrow> (\<exists>m. v = Some m \<and> wf_state_msg m)"

lemma states_of_start: "\<exists>m. wf_state_msg m \<and> states_of s_start = Broadcast (Some m) (Broadcaster.New None)"
  using agent_state_wf[of StateStopped None]
  by (auto simp: states_of_def s_start_def NewServer_def broadcastState_def agent_state_def)

interpretation state_host: broadcast_host s_step s_start states_of None "\<lambda>_. True" told_state
proof
  show "states_of s_start = Broadcaster.New None \<or>
      (\<exists>v. told_state v \<and> states_of s_start = Broadcast v (Broadcaster.New None))"
    using states_of_start by (auto simp: told_state_def)
  show "states_of s' = states_of s \<or> (\<exists>v. told_state v \<and> states_of s' = Broadcast v (states_of s))"
    if "s_step e s = Some s'" for e s s'
    using s_step_tells[OF that] by (auto simp: states_of_def told_state_def)
qed

subsection \<open>The two ends of the stream\<close>

lemma StreamState_all:
  "send_fail out = [] \<Longrightarrow> Handlers.StreamState (map Ok vs) out = (None, out\<lparr>sent := sent out @ vs\<rparr>)"
  by (induction vs arbitrary: out) (simp_all add: grpc_send_ok)

lemma heartbeat_tells:
  assumes "s_inv w" "s_step Heartbeat w = Some w'"
  shows "\<exists>m. agent_state (state (srv w')) (stateError (srv w')) = Ok m \<and> bvalue (states_of w') = Some m"
proof -
  have "state (srv w) = StateError \<longrightarrow> stateError (srv w) \<noteq> None" using assms(1) by (simp add: s_inv_def)
  moreover have "srv w' = snd (broadcastState (srv w))"
    using assms(2) by (auto simp: heartbeat_def split: if_splits)
  ultimately show ?thesis using broadcastState_res[of "srv w"] by (auto simp: states_of_def Broadcast_def)
qed

text \<open>The state of a server that is not in the error state, or has just had a heartbeat, is the one told last.\<close>

definition up_to_date :: "sevent list \<Rightarrow> sworld \<Rightarrow> bool" where
  "up_to_date es w \<longleftrightarrow> state (srv w) \<noteq> StateError \<or> es \<noteq> [] \<and> last es = Heartbeat"

lemma up_to_date_told:
  assumes "exec s_step es s_start = Some w" "up_to_date es w" "bvalue (states_of w) = Some m"
  shows "agent_state (state (srv w)) (stateError (srv w)) = Ok m"
proof (cases "state (srv w) = StateError")
  case True
  then obtain es' where es: "es = es' @ [Heartbeat]" using assms(2) by (cases es rule: rev_cases) (auto simp: up_to_date_def)
  then obtain v where v: "exec s_step es' s_start = Some v" "s_step Heartbeat v = Some w"
    using assms(1) unfolding es exec_snoc_Some by blast
  have "s_inv v" by (rule server_sys.inv_exec[OF TrueI v(1)])
  from heartbeat_tells[OF this v(2)] assms(3) show ?thesis by auto
next
  case False
  have "published (srv w)" using published_sys.inv_exec[OF TrueI assms(1)] by simp
  then show ?thesis using False assms(3) by (auto simp: published_def states_of_def)
qed


text \<open>A start that has failed leaves the server in the error state, and a new subscriber is told that it is off.\<close>

lemma failed_start_untold:
  "\<exists>w m. exec (h_step s_step states_of)
       [HostDo (RpcStart (\<lambda>_. Some (SysError ''disk full'')) ok_prop 7 StartEmulatorRequest_zero), HostWait 0]
       (h_start states_of s_start) = Some w \<and>
     state (srv (host w)) = StateError \<and> results (listening w 0) = [Ok (Some m)] \<and>
     AgentState_EmulatorState m = AgentState_OFF"
  by (simp add: h_start_def states_of_def run_simps Broadcaster.New_def Broadcast_def Listener_def wait_enter_def
      wait_finish_def returned_def wake_def)


end
