(* ===== verification/VideoStream.thy ===== *)
theory VideoStream
  imports StateStream
begin

text \<open>
  The display, end to end: frames an emulator's display produces, the server's frame broadcaster, a
  listener, the display stream and the client. The server hosts the frame broadcaster in the sense
  of \<open>Hosting\<close>; the results of a listener's waits are the inputs of \<open>Display.StreamDisplay\<close>.
\<close>

definition frames_of :: "sworld \<Rightarrow> Frame option broadcaster" where
  "frames_of w = frameBroadcaster (srv w)"

text \<open>Displays whose frames the conversion handles (see \<open>Vpx\<close>), and where frames come from.\<close>

definition good_display :: "StartEmulatorRequest \<Rightarrow> bool" where
  "good_display req \<longleftrightarrow> (let w = unat (StartEmulatorRequest_LcdWidth req); h = unat (StartEmulatorRequest_LcdHeight req)
     in even w \<and> even h \<and> 0 < w \<and> 0 < h \<and> 3 * (w * h) < 2 ^ 26)"

fun from_display :: "sevent \<Rightarrow> bool" where
  "from_display (FrameIn i f) \<longleftrightarrow> (\<exists>sys evs em. f \<in> set (processDisplay sys evs em) \<and> good_display (request em))"
| "from_display _ \<longleftrightarrow> True"

definition told_frame :: "Frame option \<Rightarrow> bool" where
  "told_frame v \<longleftrightarrow> (\<exists>f. v = Some f \<and> good_frame f)"

declare from_display.simps(1) [simp del]

lemma from_display_good: "from_display (FrameIn i f) \<Longrightarrow> good_frame f"
proof -
  assume "from_display (FrameIn i f)"
  then obtain sys evs em where f: "f \<in> set (processDisplay sys evs em)" "good_display (request em)" by (auto simp: from_display.simps(1))
  show ?thesis
    by (rule emulator_frame_good[OF f(1)]) (use f(2) in \<open>auto simp: good_display_def Let_def\<close>)
qed

lemma broadcastState_frames: "frameBroadcaster (snd (broadcastState s)) = frameBroadcaster s"
  by (cases "agent_state (state s) (stateError s)") (auto simp: broadcastState_def)

lemma s_step_frames:
  assumes "s_step e w = Some w'"
  shows "frames_of w' = frames_of w \<or> (\<exists>i f. e = FrameIn i f \<and> frames_of w' = Broadcast (Some f) (frames_of w))"
proof (cases e)
  case (RpcStart os bp p req)
  have "srv w' = snd (Server.StartEmulator os bp p req (srv w))"
    using assms RpcStart by (auto simp: Let_def split: if_splits)
  then show ?thesis
    by (cases rule: StartEmulator_cases[of os bp p req "srv w"]) (auto simp: frames_of_def)
next
  case (RpcStop svc req)
  then have "srv w' = snd (Server.StopEmulator svc req (srv w))"
    using assms by (auto split: prod.splits if_splits)
  then show ?thesis using StopEmulator_state[of "srv w" svc req] by (auto simp: frames_of_def)
next
  case (RpcInput svc req)
  then have "srv w' = srv w"
    using assms SendInput_state[of svc req "srv w"] by (auto split: prod.splits if_splits)
  then show ?thesis by (simp add: frames_of_def)
qed (use assms in \<open>auto simp: frames_of_def heartbeat_def OnEmulatorStarted_def OnEmulatorExit_def OnEmulatorFrame_def
      broadcastState_frames split: if_splits\<close>)

interpretation frame_host: broadcast_host s_step s_start frames_of None from_display told_frame
proof
  show "frames_of s_start = Broadcaster.New None \<or>
      (\<exists>v. told_frame v \<and> frames_of s_start = Broadcast v (Broadcaster.New None))"
    by (simp add: frames_of_def s_start_def broadcastState_frames NewServer_def)
  show "frames_of s' = frames_of s \<or> (\<exists>v. told_frame v \<and> frames_of s' = Broadcast v (frames_of s))"
    if "from_display e" "s_step e s = Some s'" for e s s'
    using s_step_frames[OF that(2)]
  proof (elim disjE exE conjE)
    fix i f assume "e = FrameIn i f" "frames_of s' = Broadcast (Some f) (frames_of s)"
    then show ?thesis using from_display_good[of i f] that(1) by (intro disjI2 exI[of _ "Some f"]) (simp add: told_frame_def)
  qed simp
qed

lemma in_order_sizes:
  "in_order (map (Ok \<circ> Some) fs) gs \<Longrightarrow> length gs \<le> length fs \<and>
     (\<forall>k < length gs. \<forall>d \<in> set (gs ! k). DisplayFrame_Width d = FrameWidth (fs ! k) \<and> DisplayFrame_Height d = FrameHeight (fs ! k))"
proof (induction fs arbitrary: gs)
  case Nil
  then show ?case by (cases gs) simp_all
next
  case (Cons f fs)
  show ?case
  proof (cases gs)
    case gs: (Cons g gs')
    then show ?thesis
      using Cons.prems Cons.IH[of gs'] by (auto simp: shown_def nth_Cons split: nat.splits)
  qed simp
qed

text \<open>What is told are the frames of the events.\<close>

lemma told_frames:
  assumes "exec (h_step s_step frames_of) es (h_start frames_of s_start) = Some w" "v \<in> set (told w)"
  shows "\<exists>i f. v = Some f \<and> FrameIn i f \<in> set (host_events es)"
  using assms
proof (induction es arbitrary: w rule: rev_induct)
  case Nil
  then show ?case
    by (auto simp: h_start_def frames_of_def s_start_def broadcastState_frames NewServer_def Broadcaster.New_def)
next
  case (snoc e es)
  from snoc.prems(1) obtain w0 where w0: "exec (h_step s_step frames_of) es (h_start frames_of s_start) = Some w0"
    "h_step s_step frames_of e w0 = Some w" by (auto simp: exec_snoc_Some)
  show ?case
  proof (cases "v \<in> set (told w0)")
    case True
    then show ?thesis using snoc.IH[OF w0(1)] by auto
  next
    case False
    then obtain se s where e: "e = HostDo se" "s_step se (host w0) = Some s" "frames_of s \<noteq> frames_of (host w0)"
      "v = bvalue (frames_of s)"
      using w0(2) snoc.prems(2) by (cases e) (auto split: option.splits if_splits)
    then obtain i f where "se = FrameIn i f" "frames_of s = Broadcast (Some f) (frames_of (host w0))"
      using s_step_frames[OF e(2)] by auto
    then show ?thesis using e by (auto simp: Broadcast_def)
  qed
qed

lemma told_frame_map: "\<forall>v \<in> set vs. told_frame v \<Longrightarrow> \<exists>fs. vs = map Some fs \<and> (\<forall>f \<in> set fs. good_frame f)"
proof (induction vs)
  case (Cons v vs)
  then obtain f fs where "v = Some f" "good_frame f" "vs = map Some fs" "\<forall>f \<in> set fs. good_frame f"
    by (auto simp: told_frame_def)
  then show ?case by (intro exI[of _ "f # fs"]) simp
qed simp

text \<open>C5: Emulator, server, broadcaster, display stream and client together, in every interleaving: if the displays
  have even sides and at most \<open>2 ^ 26\<close> bytes and the encoder works, nothing crashes the agent in the stream but the
  ticker of a client that asks for more than a thousand million frames a second; the client receives, for
  the frames its listener got (a part of those broadcast, in order), one group of display frames
  each, none left out as long as the stream lasts; each has the size of its frame, and the first and each
  whose size differs from its predecessor's is a keyframe.\<close>

theorem video_end_to_end:
  assumes "length es + 1 < 2 ^ 64" "exec (h_step s_step frames_of) es (h_start frames_of s_start) = Some w"
    and "\<forall>e \<in> set (host_events es). from_display e"
    and "length envs = length (results (listening w i))" "\<forall>env \<in> set envs. good_env env"
    and "Display.StreamDisplay req (zip (results (listening w i)) envs) = (r, out, p)"
  shows "\<exists>fs gs. results (listening w i) = map (Ok \<circ> Some) fs \<and> subseq (map Some fs) (told w) \<and>
    (\<forall>f \<in> set fs. \<exists>k. FrameIn k f \<in> set (host_events es)) \<and>
    (\<forall>q. r = Some (Panic q) \<longrightarrow> q = NonPositiveTicker \<and> 1000000000 < unat (StreamDisplayRequest_MaxFps req)) \<and>
    out = concat gs \<and> kf_chain 0 0 out \<and> length gs \<le> length fs \<and>
    (\<forall>k < length gs. \<forall>d \<in> set (gs ! k). DisplayFrame_Width d = FrameWidth (fs ! k) \<and> DisplayFrame_Height d = FrameHeight (fs ! k)) \<and>
    (r = None \<longrightarrow> length gs = length fs \<and> [] \<notin> set gs) \<and>
    client_recvs DisplayStream_Recv (length out) \<lparr>msgs = out, rend = e\<rparr> = map (\<lambda>d. \<lparr>cKeyframe = DisplayFrame_Keyframe d,
      cWidth = DisplayFrame_Width d, cHeight = DisplayFrame_Height d, cData = DisplayFrame_Data d\<rparr>) out"
proof -
  have b: "h_bound from_display es" using assms(1,3) by (simp add: h_bound_def)
  define rs where "rs = results (listening w i)"
  note R = frame_host.received(1,2,4)[OF b assms(2), of i, folded rs_def]
  obtain fs where vs: "oks rs = map Some fs" and good: "\<forall>f \<in> set fs. good_frame f"
    using told_frame_map[OF R(3)] by blast
  have res: "rs = map (Ok \<circ> Some) fs" using R(1) vs by simp
  note all = assms(4,6)[folded rs_def]
  have ins: "\<forall>x \<in> set (zip rs envs). good_input x"
  proof
    fix x assume "x \<in> set (zip rs envs)"
    then obtain a b where ab: "x = (a, b)" "a \<in> set rs" "b \<in> set envs"
      by (metis set_zip_leftD set_zip_rightD surj_pair)
    then obtain f where "f \<in> set fs" "a = Ok (Some f)" unfolding res by auto
    then show "good_input x" using ab good assms(5) by (simp add: good_input_def)
  qed
  have fst: "map fst (zip rs envs) = map (Ok \<circ> Some) fs" using all(1) res by simp
  obtain gs where gs: "out = concat gs" "in_order (map (Ok \<circ> Some) fs) gs"
    "r = None \<longrightarrow> length gs = length (zip rs envs) \<and> (\<forall>g \<in> set gs. g \<noteq> [])"
    using StreamDisplay_order[OF ins all(2)] unfolding fst by blast
  have ok: "stream_safe req (frames_in (zip rs envs)) (r, out, p)"
    using StreamDisplay_safe_stream[OF ins, of req] all(2) by simp
  have "\<forall>v \<in> set (oks rs). v \<in> set (told w)" using R(2) by (auto elim: list_emb_set)
  then have told: "\<forall>f \<in> set fs. \<exists>k. FrameIn k f \<in> set (host_events es)"
    using told_frames[OF assms(2)] unfolding vs by fastforce
  have "length (zip rs envs) = length fs" using all(1) res by simp
  then have full: "r = None \<longrightarrow> length gs = length fs \<and> [] \<notin> set gs" using gs(3) by auto
  have recv: "client_recvs DisplayStream_Recv (length out) \<lparr>msgs = out, rend = e\<rparr> = map (\<lambda>d. \<lparr>cKeyframe = DisplayFrame_Keyframe d,
      cWidth = DisplayFrame_Width d, cHeight = DisplayFrame_Height d, cData = DisplayFrame_Data d\<rparr>) out"
    unfolding DisplayStream_Recv_def by (rule client_recvs_all)
  show ?thesis
    using res R(2) vs told ok gs(1) in_order_sizes[OF gs(2)] full recv
    by (intro exI[of _ fs] exI[of _ gs]) (simp add: stream_safe_def rs_def)
qed

theorem video_end_to_end_witness:
  "\<exists>f w. f \<in> set (processDisplay (\<lambda>_. None) [Inr (\<lambda>_. 0)] sample_emulator) \<and>
     exec (h_step s_step frames_of) [HostDo (RpcStart (\<lambda>_. None) ok_prop 7 StartEmulatorRequest_zero),
       HostDo (Connected 0 \<lparr>connection = ''c''\<rparr>), HostDo (FrameIn 0 f), HostWait 0] (h_start frames_of s_start) = Some w \<and>
     results (listening w 0) = [Ok (Some f)] \<and>
     (\<forall>q. fst (Display.StreamDisplay StreamDisplayRequest_zero [(Ok (Some f), sample_env)]) \<noteq> Some (Panic q))"
proof -
  obtain f where f: "f \<in> set (processDisplay (\<lambda>_. None) [Inr (\<lambda>_. 0)] sample_emulator)"
    by (auto simp: processDisplay_def Emulator.StreamDisplay_def GetFrame_def shm_do_def on_ok_def Let_def sample_emulator_def)
  let ?es = "[HostDo (RpcStart (\<lambda>_. None) ok_prop 7 StartEmulatorRequest_zero),
       HostDo (Connected 0 \<lparr>connection = ''c''\<rparr>), HostDo (FrameIn 0 f), HostWait 0]"
  obtain w where w: "exec (h_step s_step frames_of) ?es (h_start frames_of s_start) = Some w"
    "results (listening w 0) = [Ok (Some f)]"
    by (simp add: h_start_def frames_of_def run_simps OnEmulatorFrame_def Broadcaster.New_def Broadcast_def Listener_def
        wait_enter_def wait_finish_def returned_def wake_def)
  have "from_display (FrameIn 0 f)"
    unfolding from_display.simps using f
    by (intro exI[of _ "\<lambda>_. None"] exI[of _ "[Inr (\<lambda>_. 0)]"] exI[of _ sample_emulator])
       (simp add: good_display_def sample_emulator_def)
  then have ok: "\<forall>e \<in> set (host_events ?es). from_display e" by simp
  obtain r out p where d: "Display.StreamDisplay StreamDisplayRequest_zero [(Ok (Some f), sample_env)] = (r, out, p)"
    using prod_cases3 by blast
  then have d': "Display.StreamDisplay StreamDisplayRequest_zero (zip (results (listening w 0)) [sample_env]) = (r, out, p)"
    using w(2) by (simp del: Display.StreamDisplay.simps)
  have "\<forall>q. r \<noteq> Some (Panic q)"
    by (rule video_end_to_end[OF _ w(1) ok _ _ d', of EOF, THEN exE])
       (use w(2) in \<open>auto simp: sample_env_good StreamDisplayRequest_zero_def\<close>)
  then show ?thesis using f w d by (metis fst_conv)
qed

end
