(* ===== verification/ShellRun.thy ===== *)
theory ShellRun
  imports ShellServer
begin

text \<open>
  The end of a shell session, \<^verbatim>\<open>agent/server/shell/shell.go\<close> from line 150: when the loop of
  \<open>ShellServer\<close> has ended, the main goroutine closes the two channels and the connection and returns,
  while the receiving goroutines are anywhere: waiting for a message, waiting to hand one over, or
  with an error to print. Handing over on a closed channel panics, and the goroutine recovers and ends.
\<close>

subsection \<open>Model\<close>

datatype 'a routine = Working "'a hand" | Printing goerr | Over

datatype place = Looping | ClosingRequests | ClosingResponses | ClosingConn | Returned | Crashed

text \<open>
  While the loop runs, the connection and what the goroutines hold are those of the session; \<open>link\<close>
  and the two routines take over when it has ended.
\<close>

record shell_run =
  sess :: session
  place :: place
  link :: conn
  req_routine :: "ShellRequest routine"
  resp_routine :: "(byte \<times> byte list) routine"
  printed :: "string list"

definition run_start :: "ShellRequest source \<Rightarrow> conn \<Rightarrow> ShellResponse sink \<Rightarrow> shell_run" where
  "run_start src c out = \<lparr>sess = new_session src c out, place = Looping, link = c,
     req_routine = Working Idle, resp_routine = Working Idle, printed = []\<rparr>"

text \<open>The connection when the loop ends, before the main goroutine closes it.\<close>

definition link_at :: "shell_event \<Rightarrow> session \<Rightarrow> conn" where
  "link_at ev s = (case (ev, req_hand s) of
     (TakeRequest, Holding (Ok m)) \<Rightarrow> snd (handle_request m (emuConn s))
   | _ \<Rightarrow> emuConn s)"

text \<open>A goroutine whose message was taken goes on, or ends if it was an error.\<close>

fun after_send :: "bool \<Rightarrow> 'a hand \<Rightarrow> 'a routine" where
  "after_send taken (Holding (Err e)) = (if taken then Printing e else Working (Holding (Err e)))"
| "after_send taken h = Working (if taken then Idle else h)"

text \<open>What a goroutine prints when it is done: the error it met, or that it has recovered.\<close>

definition failure_line :: "string \<Rightarrow> goerr \<Rightarrow> string list" where
  "failure_line side e = (if e \<noteq> EOF then [side @ '' error''] else [])"

definition recovered_line :: "string \<Rightarrow> bool \<Rightarrow> string list" where
  "recovered_line side ex = (if \<not> ex then [side @ '' recovered''] else [])"

text \<open>
  The events: one of the loop, the next statement of the main goroutine after it, and of either
  goroutine the receipt of a message and the end. What the stream of the client returns after the
  loop is any value.
\<close>

datatype run_event =
    Loop shell_event
  | Advance
  | RequestCatch "goerr + ShellRequest"
  | RequestDone
  | ResponseCatch
  | ResponseDone

definition loop_step :: "shell_event \<Rightarrow> shell_run \<Rightarrow> shell_run option" where
  "loop_step ev w = (if place w \<noteq> Looping then None else
     (case shell_step ev (sess w) of
        None \<Rightarrow> None
      | Some t \<Rightarrow>
         (case outcome t of
            None \<Rightarrow> Some (w\<lparr>sess := t\<rparr>)
          | Some (Panic p) \<Rightarrow> Some (w\<lparr>sess := t, place := Crashed\<rparr>)
          | Some r \<Rightarrow> Some (w\<lparr>sess := t, place := ClosingRequests, link := link_at ev (sess w),
              req_routine := after_send (ev = TakeRequest) (req_hand (sess w)),
              resp_routine := after_send (ev = TakeResponse) (resp_hand (sess w))\<rparr>))))"

definition advance :: "shell_run \<Rightarrow> shell_run option" where
  "advance w = (case place w of
     ClosingRequests \<Rightarrow> Some (w\<lparr>place := ClosingResponses,
        printed := printed w @ (if outcome (sess w) \<noteq> Some (Ok ()) then [''error while processing shell''] else [])\<rparr>)
   | ClosingResponses \<Rightarrow> Some (w\<lparr>place := ClosingConn\<rparr>)
   | ClosingConn \<Rightarrow> (case Close (link w) of (r, c) \<Rightarrow>
       Some (w\<lparr>place := Returned, link := c,
         printed := printed w @ (if r \<noteq> Ok () then [''error while closing adb connection''] else [])\<rparr>))
   | _ \<Rightarrow> None)"

text \<open>\<open>shut\<close> says that the channel of the goroutine is closed.\<close>

fun routine_done :: "string \<Rightarrow> bool \<Rightarrow> bool \<Rightarrow> 'a routine \<Rightarrow> string list option" where
  "routine_done side shut ex (Working Idle) = None"
| "routine_done side shut ex (Working (Holding m)) = (if shut then Some (recovered_line side ex) else None)"
| "routine_done side shut ex (Printing e) = Some (failure_line side e)"
| "routine_done side shut ex Over = None"

fun run_step :: "run_event \<Rightarrow> shell_run \<Rightarrow> shell_run option" where
  "run_step (Loop ev) w = loop_step ev w"
| "run_step Advance w = advance w"
| "run_step (RequestCatch m) w =
     (if place w \<in> {Looping, Crashed} \<or> req_routine w \<noteq> Working Idle then None
      else Some (w\<lparr>req_routine := Working (Holding (case m of Inl e \<Rightarrow> Err e | Inr x \<Rightarrow> Ok x))\<rparr>))"
| "run_step RequestDone w =
     (if place w \<in> {Looping, Crashed} then None
      else (case routine_done ''shell request'' (place w \<noteq> ClosingRequests) (exited (sess w)) (req_routine w) of
        None \<Rightarrow> None
      | Some ls \<Rightarrow> Some (w\<lparr>req_routine := Over, printed := printed w @ ls\<rparr>)))"
| "run_step ResponseCatch w =
     (if place w \<in> {Looping, Crashed} \<or> resp_routine w \<noteq> Working Idle then None
      else (case ReadShellBlob (link w) of (m, c) \<Rightarrow> Some (w\<lparr>resp_routine := Working (Holding m), link := c\<rparr>)))"
| "run_step ResponseDone w =
     (if place w \<in> {Looping, Crashed} then None
      else (case routine_done ''shell response'' (place w \<in> {ClosingConn, Returned}) (exited (sess w)) (resp_routine w) of
        None \<Rightarrow> None
      | Some ls \<Rightarrow> Some (w\<lparr>resp_routine := Over, printed := printed w @ ls\<rparr>)))"

text \<open>The events of the loop among those of a run.\<close>

fun loops :: "run_event list \<Rightarrow> shell_event list" where
  "loops [] = []"
| "loops (Loop ev # es) = ev # loops es"
| "loops (_ # es) = loops es"

lemma loops_append [simp]: "loops (es @ fs) = loops es @ loops fs"
  by (induction es rule: loops.induct) auto

subsection \<open>The loop inside a run\<close>

lemma loop_stepE:
  assumes "loop_step ev w = Some w'"
  obtains (Goes) t where "place w = Looping" "shell_step ev (sess w) = Some t" "outcome t = None" "w' = w\<lparr>sess := t\<rparr>"
  | (Crashes) t p where "place w = Looping" "shell_step ev (sess w) = Some t" "outcome t = Some (Panic p)"
      "w' = w\<lparr>sess := t, place := Crashed\<rparr>"
  | (Ends) t r where "place w = Looping" "shell_step ev (sess w) = Some t" "outcome t = Some r" "\<not> is_panic r"
      "w' = w\<lparr>sess := t, place := ClosingRequests, link := link_at ev (sess w),
         req_routine := after_send (ev = TakeRequest) (req_hand (sess w)),
         resp_routine := after_send (ev = TakeResponse) (resp_hand (sess w))\<rparr>"
  using assms unfolding loop_step_def by (auto split: if_splits option.splits res.splits)

lemma run_step_sess: "run_step e w = Some w' \<Longrightarrow> exec shell_step (loops [e]) (sess w) = Some (sess w')"
proof (cases e)
  case (Loop ev)
  moreover assume "run_step e w = Some w'"
  ultimately show ?thesis by (auto elim!: loop_stepE)
qed (auto simp: advance_def split: if_splits option.splits place.splits prod.splits)

lemma run_exec_sess: "exec run_step es w = Some w' \<Longrightarrow> exec shell_step (loops es) (sess w) = Some (sess w')"
proof (induction es arbitrary: w' rule: rev_induct)
  case (snoc e es)
  then obtain w1 where "exec run_step es w = Some w1" "run_step e w1 = Some w'" by (auto simp: exec_snoc_Some)
  then show ?case using snoc.IH run_step_sess[of e w1 w'] by (simp add: exec_append)
qed simp

subsection \<open>Every run ends\<close>

fun routine_weight :: "'a routine \<Rightarrow> nat" where
  "routine_weight (Working Idle) = 2"
| "routine_weight (Working (Holding m)) = 1"
| "routine_weight (Printing e) = 1"
| "routine_weight Over = 0"

fun place_weight :: "place \<Rightarrow> nat" where
  "place_weight Looping = 3"
| "place_weight ClosingRequests = 3"
| "place_weight ClosingResponses = 2"
| "place_weight ClosingConn = 1"
| "place_weight _ = 0"

definition run_weight :: "shell_run \<Rightarrow> nat" where
  "run_weight w = (if place w = Looping then session_weight (sess w) else 0) + place_weight (place w)
     + (if place w = Looping then 4 else routine_weight (req_routine w) + routine_weight (resp_routine w))"

lemma routine_weight_le: "routine_weight x \<le> 2"
  by (cases x rule: routine_weight.cases) auto

lemma routine_done_weight: "routine_done side shut ex x = Some ls \<Longrightarrow> 0 < routine_weight x"
  by (cases x rule: routine_weight.cases) auto

lemma run_step_weight: "run_step e w = Some w' \<Longrightarrow> run_weight w' < run_weight w"
proof (cases e)
  case (Loop ev)
  assume "run_step e w = Some w'"
  then have "loop_step ev w = Some w'" using Loop by simp
  then show ?thesis
  proof (cases rule: loop_stepE)
    case Goes
    then show ?thesis using shell_step_weight[OF Goes(2)] by (simp add: run_weight_def)
  next
    case (Crashes t p)
    then show ?thesis
      using routine_weight_le[of "req_routine w"] routine_weight_le[of "resp_routine w"] shell_step_weight[OF Crashes(2)]
      by (simp add: run_weight_def)
  next
    case (Ends t r)
    then show ?thesis
      using routine_weight_le[of "req_routine w'"] routine_weight_le[of "resp_routine w'"] shell_step_weight[OF Ends(2)]
      by (simp add: run_weight_def)
  qed
qed (auto simp: run_weight_def advance_def routine_done_weight split: if_splits option.splits place.splits prod.splits)

interpretation run_progress: progress run_step run_weight
  by unfold_locales (rule run_step_weight)

text \<open>A run that is not over can go on.\<close>

definition run_over :: "shell_run \<Rightarrow> bool" where
  "run_over w \<longleftrightarrow> place w = Crashed \<or> place w = Returned \<and> req_routine w = Over \<and> resp_routine w = Over"

lemma routine_goes:
  assumes "x \<noteq> Over"
  shows "x = Working Idle \<or> (\<exists>ls. routine_done side True ex x = Some ls)"
  using assms by (cases x rule: routine_weight.cases) auto

lemma over_stops: "run_over w \<Longrightarrow> run_step e w = None"
  by (cases e) (auto simp: run_over_def loop_step_def advance_def)

subsection \<open>The invariant\<close>

text \<open>A session that ends well has ended with the packet that says so.\<close>

lemma ends_well:
  assumes "shell_step ev s = Some t" "outcome t = Some (Ok ())"
  shows "exited t \<and> (\<exists>f. ev = TakeResponse \<and> resp_hand s = Holding (Ok f))"
proof -
  have o: "outcome s = None" using assms(1) by (simp add: shell_step_def split: if_splits)
  show ?thesis
  proof (cases ev)
    case TakeResponse
    then show ?thesis
      using assms o by (auto simp: shell_step_def take_response_def finish_def handle_response_def Let_def
          split: if_splits hand.splits res.splits option.splits prod.splits)
  qed (use assms o in \<open>auto simp: shell_step_def take_request_def receive_request_def receive_response_def finish_def
      split: if_splits hand.splits res.splits prod.splits\<close>)
qed

definition recovered_lines :: "string set" where
  "recovered_lines = {''shell request recovered'', ''shell response recovered''}"

fun place_ok :: "place \<Rightarrow> unit res option \<Rightarrow> string list \<Rightarrow> bool" where
  "place_ok Looping r ls \<longleftrightarrow> r = None \<and> ls = []"
| "place_ok Crashed r ls \<longleftrightarrow> (\<exists>p. r = Some (Panic p)) \<and> ls = []"
| "place_ok _ r ls \<longleftrightarrow> (\<exists>x. r = Some x \<and> \<not> is_panic x)"

definition run_inv :: "shell_run \<Rightarrow> bool" where
  "run_inv w \<longleftrightarrow>
     place_ok (place w) (outcome (sess w)) (printed w) \<and>
     (place w = Returned \<longrightarrow> closed (link w)) \<and>
     (exited (sess w) \<longrightarrow> set (printed w) \<inter> recovered_lines = {}) \<and>
     (outcome (sess w) = Some (Ok ()) \<longrightarrow> exited (sess w) \<and> set (printed w) \<subseteq> {''error while closing adb connection''} \<and>
        (\<forall>e. req_routine w \<noteq> Printing e \<and> resp_routine w \<noteq> Printing e))"

lemma run_inv_loop:
  assumes "run_inv w" "loop_step ev w = Some w'"
  shows "run_inv w'"
  using assms(2)
proof (cases rule: loop_stepE)
  case (Goes t)
  then show ?thesis using assms(1) by (simp add: run_inv_def)
next
  case (Crashes t p)
  then show ?thesis using assms(1) by (simp add: run_inv_def)
next
  case (Ends t r)
  have p: "printed w = []" using assms(1) Ends(1) by (simp add: run_inv_def)
  have "exited t \<and> (\<forall>e. after_send (ev = TakeRequest) (req_hand (sess w)) \<noteq> Printing e \<and>
      after_send (ev = TakeResponse) (resp_hand (sess w)) \<noteq> Printing e)" if "r = Ok ()"
    using ends_well[OF Ends(2)] Ends(3) that by (auto elim: after_send.elims)
  then show ?thesis using Ends p by (auto simp: run_inv_def)
qed

lemma done_lines:
  assumes "routine_done side shut ex x = Some ls"
  shows "\<forall>l \<in> set ls. l = side @ '' error'' \<and> (\<exists>e. x = Printing e) \<or> l = side @ '' recovered'' \<and> \<not> ex"
  using assms by (cases x rule: routine_weight.cases) (auto simp: recovered_line_def failure_line_def split: if_splits)

lemma run_inv_done:
  assumes "run_inv w" "\<forall>l \<in> set ls. l = side @ '' error'' \<and> (\<exists>e. x e) \<or> l = side @ '' recovered'' \<and> \<not> exited (sess w)"
    and "side \<in> {''shell request'', ''shell response''}" "place w \<notin> {Looping, Crashed}"
    and "(\<forall>e. x e \<longrightarrow> req_routine w = Printing e) \<and> w' = w\<lparr>req_routine := Over, printed := printed w @ ls\<rparr> \<or>
      (\<forall>e. x e \<longrightarrow> resp_routine w = Printing e) \<and> w' = w\<lparr>resp_routine := Over, printed := printed w @ ls\<rparr>"
  shows "run_inv w'"
proof -
  have "exited (sess w) \<Longrightarrow> set ls \<inter> recovered_lines = {}"
    using assms(2,3) by (auto simp: recovered_lines_def)
  moreover have "outcome (sess w) = Some (Ok ()) \<Longrightarrow> ls = []"
    using assms(1,2,5) by (cases ls) (auto simp: run_inv_def)
  moreover have "sess w' = sess w" "place w' = place w" "link w' = link w" "printed w' = printed w @ ls"
    "\<forall>e. req_routine w' = Printing e \<longrightarrow> req_routine w = Printing e"
    "\<forall>e. resp_routine w' = Printing e \<longrightarrow> resp_routine w = Printing e"
    using assms(5) by auto
  ultimately show ?thesis using assms(1,4) unfolding run_inv_def by (cases "place w") auto
qed

lemma run_inv_step:
  assumes "run_inv w" "run_step e w = Some w'"
  shows "run_inv w'"
proof (cases e)
  case (Loop ev)
  then show ?thesis using run_inv_loop[OF assms(1)] assms(2) by simp
next
  case Advance
  show ?thesis
  proof (cases "place w")
    case ClosingConn
    obtain r c where "Close (link w) = (r, c)" by fastforce
    then show ?thesis
      using assms Advance ClosingConn closed_Close[of "link w"]
      by (auto simp: run_inv_def advance_def recovered_lines_def simp del: closed_Close)
  qed (use assms Advance in \<open>auto simp: run_inv_def advance_def recovered_lines_def\<close>)
next
  case (RequestCatch m)
  then have "w' = w\<lparr>req_routine := Working (Holding (case m of Inl e \<Rightarrow> Err e | Inr x \<Rightarrow> Ok x))\<rparr>"
    using assms(2) by (simp split: if_splits)
  then show ?thesis using assms(1) by (simp add: run_inv_def)
next
  case RequestDone
  then obtain ls where ls: "routine_done ''shell request'' (place w \<noteq> ClosingRequests) (exited (sess w)) (req_routine w) = Some ls"
      "place w \<notin> {Looping, Crashed}" "w' = w\<lparr>req_routine := Over, printed := printed w @ ls\<rparr>"
    using assms(2) by (auto split: if_splits option.splits)
  then show ?thesis
    using assms(1) ls by (intro run_inv_done[OF assms(1) done_lines[OF ls(1)]]) simp_all
next
  case ResponseCatch
  obtain m c where r: "ReadShellBlob (link w) = (m, c)" by fastforce
  then have "w' = w\<lparr>resp_routine := Working (Holding m), link := c\<rparr>"
    using assms(2) ResponseCatch by (simp split: if_splits)
  then show ?thesis using assms(1) r read_shell.stays_closed[of "link w"] by (simp add: run_inv_def)
next
  case ResponseDone
  then obtain ls where ls: "routine_done ''shell response'' (place w \<in> {ClosingConn, Returned}) (exited (sess w)) (resp_routine w) = Some ls"
      "place w \<notin> {Looping, Crashed}" "w' = w\<lparr>resp_routine := Over, printed := printed w @ ls\<rparr>"
    using assms(2) by (auto split: if_splits option.splits)
  then show ?thesis
    using assms(1) ls by (intro run_inv_done[OF assms(1) done_lines[OF ls(1)]]) simp_all
qed

interpretation run_sys: machine run_step "run_start src c out" "\<lambda>_. True" "\<lambda>_. run_inv" for src c out
proof
  show "run_inv (run_start src c out)" by (simp add: run_inv_def run_start_def new_session_def)
qed (auto intro: run_inv_step)

lemma not_over_goes:
  assumes "run_inv w" "\<not> run_over w"
  shows "\<exists>e. run_step e w \<noteq> None"
proof (cases "place w")
  case Looping
  then have "outcome (sess w) = None" using assms(1) by (simp add: run_inv_def)
  then obtain ev where "shell_step ev (sess w) \<noteq> None" using shell_live by blast
  then have "run_step (Loop ev) w \<noteq> None" using Looping by (auto simp: loop_step_def split: option.splits res.splits)
  then show ?thesis by blast
next
  case Crashed
  then show ?thesis using assms(2) by (simp add: run_over_def)
next
  case Returned
  then have "req_routine w \<noteq> Over \<or> resp_routine w \<noteq> Over" using assms(2) by (auto simp: run_over_def)
  then show ?thesis
  proof
    assume "req_routine w \<noteq> Over"
    from routine_goes[OF this, of "''shell request''" "exited (sess w)"]
    have "run_step (RequestCatch (Inl EOF)) w \<noteq> None \<or> run_step RequestDone w \<noteq> None" using Returned by auto
    then show ?thesis by blast
  next
    assume "resp_routine w \<noteq> Over"
    from routine_goes[OF this, of "''shell response''" "exited (sess w)"]
    have "run_step ResponseCatch w \<noteq> None \<or> run_step ResponseDone w \<noteq> None" using Returned by (auto split: prod.splits)
    then show ?thesis by blast
  qed
next
  case ClosingConn
  then have "run_step Advance w \<noteq> None" by (simp add: advance_def split: prod.splits)
  then show ?thesis by blast
qed (rule exI[of _ Advance], simp add: advance_def)+

text \<open>C12: Whatever the client sends and the device answers, and however the goroutines are scheduled, a
  shell session makes a bounded number of steps, and unless a panic has ended the agent it stops only when
  the handler has returned, the connection is closed and both receiving goroutines are gone. The loop
  inside is an execution of the session; nothing recovers aloud once the shell has exited, and a session
  that ends well prints nothing but a failure of closing the connection.\<close>

theorem shell_run_ends:
  assumes "exec run_step es (run_start src c out) = Some w"
  shows "length es \<le> 2 * length (msgs src) + 2 * length (incoming c) + 12 \<and>
    ((\<forall>e. run_step e w = None) \<longleftrightarrow>
      place w = Crashed \<or> place w = Returned \<and> req_routine w = Over \<and> resp_routine w = Over) \<and>
    (place w = Returned \<longrightarrow> closed (link w) \<and> (\<exists>r. outcome (sess w) = Some r)) \<and>
    (place w = Crashed \<longrightarrow> (\<exists>p. outcome (sess w) = Some (Panic p))) \<and>
    exec shell_step (loops es) (new_session src c out) = Some (sess w) \<and>
    (exited (sess w) \<longrightarrow> set (printed w) \<inter> recovered_lines = {}) \<and>
    (outcome (sess w) = Some (Ok ()) \<longrightarrow> set (printed w) \<subseteq> {''error while closing adb connection''})"
proof -
  have inv: "run_inv w" by (rule run_sys.inv_exec[OF TrueI assms])
  have len: "length es \<le> 2 * length (msgs src) + 2 * length (incoming c) + 12"
    using run_progress.exec_weight[OF assms]
    by (simp add: run_weight_def run_start_def session_weight_def new_session_def split: if_splits)
  have "(\<forall>e. run_step e w = None) \<longleftrightarrow> run_over w" by (meson over_stops not_over_goes[OF inv])
  moreover have "exec shell_step (loops es) (new_session src c out) = Some (sess w)"
    using run_exec_sess[OF assms] by (simp add: run_start_def)
  ultimately show ?thesis using inv len by (auto simp: run_inv_def run_over_def split: place.splits)
qed

theorem shell_run_ends_witness:
  "\<exists>w. exec run_step [Loop ReceiveResponse, Loop TakeResponse, Advance, RequestCatch (Inl EOF), RequestDone, Advance,
      Advance, ResponseCatch, ResponseDone]
     (run_start \<lparr>msgs = [], rend = EOF\<rparr> (peer_conn (wire [(3, [0])])) new_sink) = Some w \<and>
     outcome (sess w) = Some (Ok ()) \<and> printed w = [] \<and> closed (link w) \<and> (\<forall>e. run_step e w = None)"
proof -
  let ?es = "[Loop ReceiveResponse, Loop TakeResponse, Advance, RequestCatch (Inl EOF), RequestDone, Advance,
      Advance, ResponseCatch, ResponseDone]"
  let ?r = "exec run_step ?es (run_start \<lparr>msgs = [], rend = EOF\<rparr> (peer_conn (wire [(3, [0])])) new_sink)"
  have "?r \<noteq> None" by code_simp
  then have r: "?r = Some (the ?r)" by simp
  moreover have "outcome (sess (the ?r)) = Some (Ok ())" by code_simp
  moreover have "printed (the ?r) = []" by code_simp
  moreover have "place (the ?r) = Returned \<and> req_routine (the ?r) = Over \<and> resp_routine (the ?r) = Over" by code_simp
  ultimately show ?thesis using shell_run_ends[OF r] by blast
qed

end
