(* ===== verification/SyslogStream.thy ===== *)
theory SyslogStream
  imports AgentClient
begin

text \<open>
  The system log, end to end: the text a connection to the log's socket carries, the lines the
  scanner makes of it, the listener of one stream, \<open>Handlers.StreamSysLog\<close> and the client's
  \<open>SysLogStream_Recv\<close>.
\<close>

subsection \<open>Nothing is lost while there is room\<close>

definition never_full :: "nat \<Rightarrow> sys_event list \<Rightarrow> bool" where
  "never_full p es \<longleftrightarrow> (\<forall>k < length es. case exec syslog_step (take k es) new_syslog of
     None \<Rightarrow> True
   | Some s \<Rightarrow> p < length (listeners s) \<longrightarrow> length (channel (listeners s ! p)) < channel_cap)"

lemma never_full_snoc:
  assumes "never_full p (es @ [e])"
  shows "never_full p es"
    "exec syslog_step es new_syslog = Some s \<Longrightarrow> p < length (listeners s) \<Longrightarrow> length (channel (listeners s ! p)) < channel_cap"
  using assms spec[OF assms[unfolded never_full_def], of "length es"] by (auto simp: never_full_def)

definition kept_all :: "nat \<Rightarrow> sys_event list \<Rightarrow> syslog \<Rightarrow> bool" where
  "kept_all p h s \<longleftrightarrow> received p h @ channel (listeners s ! p) @ pending s p = lines_since p h"

lemma pending_listeners: "pending (s\<lparr>listeners := x\<rparr>) p = pending s p"
  by (simp add: pending_def split: option.split)

text \<open>The step of the loop, for a listener that is open and has room.\<close>

lemma kept_all_turn:
  assumes inv: "syslog_inv h s" and cur: "sending s = Some (Suc i, msg)" and t: "t = send_next i msg s"
    and p: "p < length (listeners s)" "\<not> lclosed (listeners s ! p)" "length (channel (listeners s ! p)) < channel_cap"
    and kept: "kept_all p h s"
  shows "kept_all p (h @ [SysNext]) t"
proof -
  note I = syslog_invD[OF inv]
  have i: "i < length (clients s)" using I(4)[OF cur] by simp
  have tk: "take (Suc i) (clients s) = take i (clients s) @ [clients s ! i]" using i by (rule take_Suc_conv_app_nth)
  have "distinct (take (Suc i) (clients s))" using I(2) by simp
  then have new: "clients s ! i \<notin> set (take i (clients s))" unfolding tk by simp
  have st: "sending t = Some (i, msg)" "take i (clients t) = take i (clients s)"
    using t i by (cases rule: send_next_cases[OF refl refl, of s i msg]; simp)+
  have ch: "listeners t ! p = (if p = clients s ! i then snd (send msg (listeners s ! p)) else listeners s ! p)"
    using t p by (cases rule: send_next_cases[OF refl refl, of s i msg]) auto
  show ?thesis
    using kept cur st ch new p tk
    by (auto simp: kept_all_def pending_def send_def)
qed

lemma kept_all_exec:
  "exec syslog_step es new_syslog = Some s \<Longrightarrow> p < length (listeners s) \<Longrightarrow> \<not> lclosed (listeners s ! p) \<Longrightarrow>
   never_full p es \<Longrightarrow> kept_all p es s"
proof (induction es arbitrary: s rule: rev_induct)
  case Nil
  then show ?case by (auto simp: new_syslog_def)
next
  case (snoc e es)
  from snoc.prems(1) obtain s0 where s0: "exec syslog_step es new_syslog = Some s0" "syslog_step e s0 = Some s"
    by (auto simp: exec_snoc_Some)
  have inv: "syslog_inv es s0" using syslog_sys.inv_exec[OF TrueI s0(1)] .
  note I = syslog_invD[OF inv] and N = never_full_snoc[OF snoc.prems(4)]
  note IH = snoc.IH[OF s0(1) _ _ N(1)]
  show ?case
  proof (cases e)
    case (SysLine msg)
    then have step: "syslog_step (SysLine msg) s0 = Some s" using s0(2) by simp
    obtain pr where s: "s = s0\<lparr>processor := pr, sending := Some (length (clients s0), msg)\<rparr>" and no: "sending s0 = None"
      using step by (rule SysLine_cases)
    then have "p \<in> set (clients s0)" using snoc.prems(2,3) I(5) by simp
    then show ?thesis
      using IH snoc.prems(2,3) s no I(1) SysLine by (simp add: kept_all_def pending_def)
  next
    case SysNext
    show ?thesis
    proof (cases "sending s0")
      case (Some im)
      then obtain j msg where cur: "sending s0 = Some (j, msg)" by (cases im) auto
      show ?thesis
      proof (cases j)
        case 0
        then have "s = s0\<lparr>sending := None\<rparr>" using s0(2) cur SysNext by simp
        then show ?thesis using IH snoc.prems(2,3) cur 0 SysNext by (simp add: kept_all_def pending_def)
      next
        case (Suc i)
        then have s: "s = send_next i msg s0" using s0(2) cur SysNext by simp
        then have "p < length (listeners s0)" "\<not> lclosed (listeners s0 ! p)"
          using snoc.prems(2,3) syslog_step_closed[OF s0(2), of p] SysNext
          by (cases rule: send_next_cases[OF refl refl, of s0 i msg]; simp)+
        then show ?thesis
          using kept_all_turn[OF inv _ s _ _ N(2)[OF s0(1)]] cur Suc IH SysNext by simp
      qed
    qed (use s0(2) SysNext in simp)
  next
    case SysListen
    then have s: "s = snd (Listen s0)" and no: "sending s0 = None"
      using s0(2) by (cases "sending s0"; auto)+
    show ?thesis
    proof (cases "p < length (listeners s0)")
      case True
      then show ?thesis
        using IH snoc.prems(2,3) s no SysListen by (simp add: kept_all_def pending_def Listen_def nth_append)
    next
      case False
      then have "p = length (listeners s0)" using snoc.prems(2) s by (simp add: Listen_def)
      then show ?thesis
        using s no I(1,7) lines_since_none[of es p] SysListen
        by (simp add: kept_all_def pending_def Listen_def nth_append)
    qed
  next
    case (SysRecv q m)
    then obtain l where l: "q < length (listeners s0)" "Syslog.Recv (listeners s0 ! q) = Some (m, l)"
      "s = s0\<lparr>listeners := (listeners s0)[q := l]\<rparr>"
      using s0(2) by (auto split: if_splits option.splits)
    then have lc: "channel (listeners s0 ! q) = m # channel l" "lclosed l = lclosed (listeners s0 ! q)"
      by (auto simp: Syslog.Recv_def split: list.splits)
    then have "p < length (listeners s0)" "\<not> lclosed (listeners s0 ! p)"
      using snoc.prems(2,3) l by (cases "p = q"; simp)+
    then show ?thesis
      using IH lc l SysRecv by (cases "p = q") (auto simp: kept_all_def pending_listeners)
  next
    case (SysClose q)
    then have q: "q < length (listeners s0)" "s = s0\<lparr>listeners := (listeners s0)[q := CloseListener (listeners s0 ! q)]\<rparr>"
      using s0(2) by (auto split: if_splits)
    then have "p \<noteq> q" using snoc.prems(3) by (auto simp: CloseListener_def)
    then show ?thesis
      using IH q snoc.prems(2,3) SysClose by (simp add: kept_all_def pending_listeners)
  qed (use IH snoc.prems(2,3) socket_event_keeps[OF _ s0(2)] in \<open>auto simp: kept_all_def\<close>)
qed

subsection \<open>From the socket to the client\<close>

text \<open>What the processor makes of connections that carry whole lines.\<close>

definition log_text :: "string list \<Rightarrow> byte list" where
  "log_text ls = unlines (map of_str ls)"

lemma connection_lines_text: "\<forall>l \<in> set ls. plain_line (of_str l) \<Longrightarrow> connection_lines (log_text ls) = ls"
  by (simp add: connection_lines_def log_text_def scan_lines_unlines comp_def)

lemma processor_lines_text:
  assumes "\<forall>ls \<in> set lss. \<forall>l \<in> set ls. plain_line (of_str l)"
  shows "processor_lines (map log_text lss) = concat lss"
  using assms by (induction lss) (simp_all add: processor_lines_def connection_lines_text)

lemma StreamSysLog_all:
  "send_fail out = [] \<Longrightarrow> Handlers.StreamSysLog ls out = (None, out\<lparr>sent := sent out @ map (\<lambda>l. \<lparr>SysLogEntry_Line = l\<rparr>) ls\<rparr>)"
  by (induction ls arbitrary: out) (simp_all add: grpc_send_ok)

lemma lines_since_suffix: "suffix (lines_since p es) (all_lines es)"
proof (induction es arbitrary: p)
  case (Cons e es)
  then show ?case by (cases e) (auto split: nat.splits intro: suffix_ConsI)
qed simp

text \<open>C19: A log stream from the socket to the client: what the client receives, with what still waits for it,
  is a part of the lines written to the log since the stream began, in order and unchanged, at most 100
  of them waiting; and it is all of them as long as the listener is open and its channel is never found full.\<close>

theorem syslog_end_to_end:
  assumes "exec syslog_step es new_syslog = Some s" "p < length (listeners s)"
    and "accepted es = map log_text lss"
    and "\<forall>ls \<in> set lss. \<forall>l \<in> set ls. plain_line (of_str l)"
  shows "\<exists>out lines. Handlers.StreamSysLog (received p es) new_sink = (None, out) \<and>
    client_recvs SysLogStream_Recv (length (received p es)) \<lparr>msgs = sent out, rend = e\<rparr> = received p es \<and>
    sublist lines (concat lss) \<and> lines = lines_since p es \<and>
    subseq (received p es @ channel (listeners s ! p)) lines \<and> length (channel (listeners s ! p)) \<le> 100 \<and>
    (\<not> lclosed (listeners s ! p) \<and> never_full p es \<and> sending s = None \<longrightarrow>
      received p es @ channel (listeners s ! p) = lines)"
proof -
  let ?ms = "map (\<lambda>l. \<lparr>SysLogEntry_Line = l\<rparr>) (received p es)"
  have "Handlers.StreamSysLog (received p es) new_sink = (None, new_sink\<lparr>sent := ?ms\<rparr>)"
    using StreamSysLog_all[of new_sink "received p es"] by (simp add: new_sink_def)
  moreover have "client_recvs SysLogStream_Recv (length ?ms) \<lparr>msgs = ?ms, rend = e\<rparr> = received p es"
    unfolding SysLogStream_Recv_def client_recvs_all by (simp add: comp_def)
  moreover have "prefix (all_lines es) (concat lss)"
    using scanned_lines[OF assms(1)] unfolding assms(3) processor_lines_text[OF assms(4)]
    by (rule prefixI[OF sym])
  then have "sublist (all_lines es) (concat lss)" by (rule prefix_imp_sublist)
  with suffix_imp_sublist[OF lines_since_suffix[of p es]] have "sublist (lines_since p es) (concat lss)"
    by (rule sublist_order.order.trans)
  moreover note syslog_delivery[OF assms(1,2)]
  moreover have "received p es @ channel (listeners s ! p) = lines_since p es"
    if "\<not> lclosed (listeners s ! p)" "never_full p es" "sending s = None"
    using kept_all_exec[OF assms(1,2) that(1,2)] that(3) by (simp add: kept_all_def pending_def)
  ultimately show ?thesis by auto
qed

theorem syslog_end_to_end_witness:
  "\<exists>out. Handlers.StreamSysLog [''a''] new_sink = (None, out) \<and>
     client_recvs SysLogStream_Recv 1 \<lparr>msgs = sent out, rend = EOF\<rparr> = [''a''] \<and>
     [''a''] @ [''b''] = lines_since 0 [SysAccept (log_text [''a'', ''b'', ''c'']), SysListen, SysLine ''a'', SysNext, SysNext,
       SysRecv 0 ''a'', SysLine ''b'', SysNext, SysNext]"
proof -
  let ?ls = "[''a'', ''b'', ''c'']"
  let ?es = "[SysAccept (log_text ?ls), SysListen, SysLine ''a'', SysNext, SysNext, SysRecv 0 ''a'', SysLine ''b'', SysNext, SysNext]"
  let ?s = "\<lparr>listeners = [\<lparr>channel = [''b''], lclosed = False\<rparr>], clients = [0], sending = None, socket_open = True,
    processor = Scanning [''c'']\<rparr>"
  have ok: "\<forall>l \<in> set ?ls. plain_line (of_str l)"
    by (simp add: plain_line_def newline_def carriage_def maxTokenSize_def of_str_def)
  note run = connection_lines_text[OF ok] new_syslog_def Listen_def send_next_def send_def Syslog.Recv_def channel_cap_def
  have "exec syslog_step ?es new_syslog = Some ?s" by (simp add: run)
  moreover have "never_full 0 ?es" by (simp add: never_full_def All_less_Suc run)
  ultimately show ?thesis
    using syslog_end_to_end[of ?es ?s 0 "[?ls]" EOF] ok by simp
qed

end
