(* ===== verification/Control.thy ===== *)
theory Control
  imports AgentClient
begin

text \<open>
  Starting the emulator, end to end: the client's call, the message it sends, the agent's handler, the
  emulator's start with the files and the process it makes, and the connection to it.
\<close>

subsection \<open>The start\<close>

definition start_calls :: "(string \<times> string) list \<Rightarrow> oscall list" where
  "start_calls cfg = [MkdirAll ''/android/home/Custom.avd'' 420,
     WriteFile ''/android/home/Custom.ini'' (of_str ''path=/android/home/Custom.avd'') 420,
     SaveIni ''/android/home/Custom.avd/config.ini'' cfg, Spawn emulator_command emulator_env]"

text \<open>A configuration asks for what the request asks for, on a processor it knows.\<close>

definition asks_for :: "StartRequest \<Rightarrow> (string \<times> string) list \<Rightarrow> bool" where
  "asks_for req cfg \<longleftrightarrow> distinct (map fst cfg) \<and>
     (map_of cfg ''abi.type'', map_of cfg ''hw.cpu.arch'') \<in> {(Some X8664, Some X8664), (Some ARM64V8A, Some ARM64)} \<and>
     map_option of_decimal (map_of cfg ''hw.ramSize'') = Some (unat (RamSize req)) \<and>
     map_option of_decimal (map_of cfg ''hw.cpu.ncore'') = Some (unat (CoreCount req)) \<and>
     map_option of_decimal (map_of cfg ''hw.lcd.density'') = Some (unat (LcdDensity req)) \<and>
     map_option of_decimal (map_of cfg ''hw.lcd.width'') = Some (unat (LcdWidth req)) \<and>
     map_option of_decimal (map_of cfg ''hw.lcd.height'') = Some (unat (LcdHeight req))"

text \<open>The handler and the start, for the message \<open>m\<close>.\<close>

lemma server_start:
  assumes asks: "\<And>cfg. createConfig bp (Some m) = Ok cfg \<Longrightarrow> asks_for req cfg"
  shows "case (Server.StartEmulator sys bp p m s, Emulator.Start sys bp p m []) of
       ((r, s'), (st, tr)) \<Rightarrow>
         if state s = StateStarting \<or> state s = StateRunning
         then r = Err (GrpcStatus FailedPrecondition ''emulator already running'') \<and> s' = s
         else r = Ok () \<and> (case st of
           Ok em \<Rightarrow> (\<exists>cfg. tr = start_calls cfg \<and> asks_for req cfg) \<and> (\<forall>call \<in> set tr. sys call = None) \<and>
             request em = m \<and> pid em = p \<and> controller em = None \<and>
             s' = s\<lparr>state := StateStarting, emu := Some (length (emus s)), emus := emus s @ [em], stateError := None,
               stateBroadcaster := Broadcast (Some (AgentState_zero\<lparr>AgentState_EmulatorState := AgentState_STARTING\<rparr>)) (stateBroadcaster s)\<rparr>
         | Err e \<Rightarrow> (tr \<noteq> [] \<and> sys (last tr) = Some e \<or> createConfig bp (Some m) = Err e) \<and>
             (\<forall>call \<in> set (butlast tr). \<forall>a v. call \<noteq> Spawn a v) \<and>
             s' = s\<lparr>state := StateError, emu := None, stateError := Some e\<rparr>
         | Panic q \<Rightarrow> False)"
proof (cases rule: StartEmulator_cases[of sys bp p m s])
  case (refused e)
  then show ?thesis
    by (auto simp: Server.StartEmulator_def split: prod.splits)
next
  case (failed e)
  obtain tr where tr: "Emulator.Start sys bp p m [] = (Err e, tr)" using failed(3) by (metis prod.collapse)
  note order = Start_order[where os = sys and build_prop = bp and p = p and req = m, unfolded tr prod.case res.case]
  have "tr \<noteq> [] \<and> sys (last tr) = Some e \<or> createConfig bp (Some m) = Err e"
    using order by (metis (full_types))
  moreover have "state s \<noteq> StateStarting \<and> state s \<noteq> StateRunning" using failed(2) by auto
  ultimately show ?thesis using order[THEN conjunct2] unfolding failed(1) tr by simp
next
  case (made em x)
  obtain tr where tr: "Emulator.Start sys bp p m [] = (Ok em, tr)" using made(5) by (metis prod.collapse)
  then obtain c where c: "createConfig bp (Some m) = Ok c" "tr = start_calls c" "\<forall>call \<in> set tr. sys call = None"
      "em = \<lparr>request = m, controller = None, pid = p, forceExitRequested = False\<rparr>"
    using Start_order[where os = sys and build_prop = bp and p = p and req = m] by (auto simp: start_calls_def)
  have "x = AgentState_zero\<lparr>AgentState_EmulatorState := AgentState_STARTING\<rparr>"
    using made(4) by (simp add: agent_state_def)
  moreover have "state s \<noteq> StateStarting \<and> state s \<noteq> StateRunning" using made(3) by auto
  ultimately show ?thesis using asks[OF c(1)] c(2-4) unfolding made(1) tr by auto
qed

text \<open>C23: A client's start: the agent refuses it, changing nothing, while an emulator is starting or running.
  Otherwise it answers without error, and either the directories, the configuration and the process are
  made in this order, the configuration carrying the client's numbers, and the server is starting with
  this emulator and has told so; or a step failed, nothing was spawned after it, and the server is in the
  error state with the error of that step and without an emulator.\<close>

theorem start_end_to_end:
  "\<exists>m. (\<forall>client. AgentClient.StartEmulator client req = client m) \<and>
    (case (Server.StartEmulator sys bp p m s, Emulator.Start sys bp p m []) of
       ((r, s'), (st, tr)) \<Rightarrow>
         if state s = StateStarting \<or> state s = StateRunning
         then r = Err (GrpcStatus FailedPrecondition ''emulator already running'') \<and> s' = s
         else r = Ok () \<and> (case st of
           Ok em \<Rightarrow> (\<exists>cfg. tr = start_calls cfg \<and> asks_for req cfg) \<and> (\<forall>call \<in> set tr. sys call = None) \<and>
             request em = m \<and> pid em = p \<and> controller em = None \<and>
             s' = s\<lparr>state := StateStarting, emu := Some (length (emus s)), emus := emus s @ [em], stateError := None,
               stateBroadcaster := Broadcast (Some (AgentState_zero\<lparr>AgentState_EmulatorState := AgentState_STARTING\<rparr>)) (stateBroadcaster s)\<rparr>
         | Err e \<Rightarrow> (tr \<noteq> [] \<and> sys (last tr) = Some e \<or> createConfig bp (Some m) = Err e) \<and>
             (\<forall>call \<in> set (butlast tr). \<forall>a v. call \<noteq> Spawn a v) \<and>
             s' = s\<lparr>state := StateError, emu := None, stateError := Some e\<rparr>
         | Panic q \<Rightarrow> False))"
proof -
  let ?m = "\<lparr>StartEmulatorRequest_RamSize = RamSize req, StartEmulatorRequest_CoreCount = CoreCount req,
     StartEmulatorRequest_LcdDensity = LcdDensity req, StartEmulatorRequest_LcdWidth = LcdWidth req,
     StartEmulatorRequest_LcdHeight = LcdHeight req, StartEmulatorRequest_RootAdb = RootADB req\<rparr>"
  have msg: "\<forall>client. AgentClient.StartEmulator client req = client ?m" by (simp add: AgentClient.StartEmulator_def)
  have "asks_for req cfg" if "createConfig bp (Some ?m) = Ok cfg" for cfg
    using createConfig_faithful[where build_prop = bp and r = ?m] unfolding that asks_for_def by (simp only: res.case StartEmulatorRequest.simps)
  from server_start[OF this, where sys = sys and p = p and s = s]
  show ?thesis by (intro exI[of _ ?m] conjI msg)
qed

definition sample_start :: StartRequest where
  "sample_start = \<lparr>RamSize = 2048, CoreCount = 1, LcdDensity = 320, LcdWidth = 720, LcdHeight = 1280, RootADB = True\<rparr>"

theorem start_end_to_end_witness:
  "\<exists>m cfg. (\<forall>client. AgentClient.StartEmulator client sample_start = client m) \<and>
     snd (Emulator.Start (\<lambda>_. None) ok_prop 7 m []) = start_calls cfg \<and> asks_for sample_start cfg \<and>
     state (snd (Server.StartEmulator (\<lambda>_. None) ok_prop 7 m NewServer)) = StateStarting"
proof -
  obtain m where m: "\<forall>client. AgentClient.StartEmulator client sample_start = client m"
    and c: "case (Server.StartEmulator (\<lambda>_. None) ok_prop 7 m NewServer, Emulator.Start (\<lambda>_. None) ok_prop 7 m []) of
       ((r, s'), (Ok em, tr)) \<Rightarrow> (\<exists>cfg. tr = start_calls cfg \<and> asks_for sample_start cfg) \<and> state s' = StateStarting
     | _ \<Rightarrow> True"
    using start_end_to_end[where req = sample_start and sys = "\<lambda>_. None" and bp = ok_prop and p = 7 and s = NewServer]
    by (elim exE conjE) (fastforce simp: NewServer_def split: prod.splits res.splits)
  have "fst (Emulator.Start (\<lambda>_. None) ok_prop 7 m []) =
      Ok \<lparr>request = m, controller = None, pid = 7, forceExitRequested = False\<rparr>"
    by (rule Start_sample)
  then have "\<exists>cfg. snd (Emulator.Start (\<lambda>_. None) ok_prop 7 m []) = start_calls cfg \<and> asks_for sample_start cfg \<and>
      state (snd (Server.StartEmulator (\<lambda>_. None) ok_prop 7 m NewServer)) = StateStarting"
    using c by (auto split: prod.splits)
  then show ?thesis using m by blast
qed

subsection \<open>From the start to a running emulator\<close>

lemma root_session_exact:
  assumes "healthy d" "incoming d = of_str ''OKAY'' @ of_str ''OKAY'' @ rest"
  shows "fst (NewRawConnection (Inr d) root_session) = (case first_token (inend d) rest of ScanErr e \<Rightarrow> Err e | _ \<Rightarrow> Ok ())"
proof -
  let ?d1 = "consume 4 (emit (message_packet (of_str ''host:transport-local'')) d)"
  let ?d2 = "consume 4 (emit (message_packet (of_str ''root:'')) ?d1)"
  have "open_emulator d = (Ok (), ?d1)" using assms by (rule open_emulator_okay)
  moreover have "SendCommand (of_str ''root:'') ?d1 = (Ok (), ?d2)" using assms by (intro SendCommand_okay) simp_all
  moreover have "\<not> closed ?d2" "incoming ?d2 = rest" "inend ?d2 = inend d" using assms by (simp_all add: healthy_def)
  ultimately show ?thesis
    using ReadLine_token[of ?d2]
    by (cases "ReadLine ?d2" rule: res_pair_cases) (auto simp: NewRawConnection_def root_session_def split: scan_result.splits)
qed

text \<open>What the connection to an emulator fails of: the dial, the status call, the wait for a ready device, or where
  it was asked for the root command; \<open>ms\<close> are the reports of the adb server and \<open>rest\<close> its answer to the command.\<close>

definition boot_error ::
  "goerr option \<Rightarrow> goerr + emu_EmulatorStatus \<Rightarrow> goerr + conn \<Rightarrow> goerr + conn \<Rightarrow> byte list list \<Rightarrow> bool \<Rightarrow> byte list \<Rightarrow>
   goerr option" where
  "boot_error dial st adb1 adb2 ms root rest = (case (dial, st, adb1) of
     (Some x, _, _) \<Rightarrow> Some x
   | (None, Inl x, _) \<Rightarrow> Some x
   | (None, Inr _, Inl x) \<Rightarrow> Some x
   | (None, Inr _, Inr c) \<Rightarrow>
       if \<not> (\<exists>m \<in> set ms. report_ready m) then Some (inend c)
       else if \<not> root then None
       else (case adb2 of Inl x \<Rightarrow> Some x
         | Inr d \<Rightarrow> (case first_token (inend d) rest of ScanErr x \<Rightarrow> Some x | _ \<Rightarrow> None)))"

definition reports_on :: "goerr + conn \<Rightarrow> byte list list \<Rightarrow> bool" where
  "reports_on adb ms \<longleftrightarrow> (\<forall>m \<in> set ms. report_ok m) \<and>
     (\<forall>c. adb = Inr c \<longrightarrow> healthy c \<and> incoming c = of_str ''OKAY'' @ concat (map message_packet ms))"

definition answer_on :: "goerr + conn \<Rightarrow> byte list \<Rightarrow> bool" where
  "answer_on adb rest \<longleftrightarrow> (\<forall>d. adb = Inr d \<longrightarrow> healthy d \<and> incoming d = of_str ''OKAY'' @ of_str ''OKAY'' @ rest)"

lemma wait_exact:
  assumes "reports_on adb ms"
  shows "fst (WaitForEmulator adb) = (case adb of Inl x \<Rightarrow> Err x
    | Inr c \<Rightarrow> if \<exists>m \<in> set ms. report_ready m then Ok () else Err (inend c))"
proof (cases adb)
  case (Inr c)
  then show ?thesis using WaitForEmulator_reports[of c ms] assms by (auto simp: reports_on_def)
qed (simp add: WaitForEmulator_def NewRawConnection_def)

lemma root_exact:
  assumes "answer_on adb rest"
  shows "fst (NewRawConnection adb root_session) = (case adb of Inl x \<Rightarrow> Err x
    | Inr d \<Rightarrow> (case first_token (inend d) rest of ScanErr x \<Rightarrow> Err x | _ \<Rightarrow> Ok ()))"
proof (cases adb)
  case (Inr d)
  then show ?thesis using root_session_exact[of d rest] assms by (simp add: answer_on_def)
qed (simp add: NewRawConnection_def)

lemma connect_exact:
  assumes "reports_on adb1 ms" "answer_on adb2 rest"
  shows "fst (connect dial st adb1 adb2 e) =
    (case boot_error dial st adb1 adb2 ms (StartEmulatorRequest_RootAdb (request e)) rest of
       None \<Rightarrow> Ok () | Some x \<Rightarrow> Panic (LogFatal x))"
  using wait_exact[OF assms(1)] root_exact[OF assms(2)]
  by (auto simp: connect_def Emulator.Connect_def boot_error_def fatal_def
      split: option.splits sum.splits scan_result.splits)

text \<open>The events a connection's goroutine is for the server.\<close>

definition connect_events :: "nat \<Rightarrow> unit res \<times> emulator \<Rightarrow> sevent list" where
  "connect_events i r =
     (case controller (snd r) of None \<Rightarrow> [] | Some con \<Rightarrow> [Connected i con]) @
     (case fst r of Ok _ \<Rightarrow> [Started i] | Err _ \<Rightarrow> [] | Panic q \<Rightarrow> [ConnectDies i q])"

lemma fatal_no_err: "fatal r \<noteq> Err e"
  by (simp add: fatal_def split: res.split)

lemma connect_shape:
  assumes "controller em = None"
  obtains (refused) q where "connect_events i (connect dial st adb1 adb2 em) = [ConnectDies i q]"
      "fst (connect dial st adb1 adb2 em) = Panic q"
  | (died) q where "connect_events i (connect dial st adb1 adb2 em) =
        [Connected i \<lparr>connection = '':8554''\<rparr>, ConnectDies i q]"
      "fst (connect dial st adb1 adb2 em) = Panic q"
  | (up) "connect_events i (connect dial st adb1 adb2 em) = [Connected i \<lparr>connection = '':8554''\<rparr>, Started i]"
      "fst (connect dial st adb1 adb2 em) = Ok ()"
proof (cases "Emulator.Connect '':8554'' dial st")
  case (Ok con)
  then have con: "con = \<lparr>connection = '':8554''\<rparr>" by (auto simp: Emulator.Connect_def split: option.splits sum.splits)
  have c: "controller (snd (connect dial st adb1 adb2 em)) = Some \<lparr>connection = '':8554''\<rparr>"
    using Ok con by (simp add: connect_def Let_def)
  have "fst (connect dial st adb1 adb2 em) \<noteq> Err e" for e
    using Ok fatal_no_err by (cases "fatal (fst (WaitForEmulator adb1))") (auto simp: connect_def Let_def)
  then show ?thesis
    using c died up by (cases "fst (connect dial st adb1 adb2 em)") (auto simp: connect_events_def)
next
  case (Err x)
  then have "connect dial st adb1 adb2 em = (Panic (LogFatal x), em)" by (simp add: connect_def)
  then show ?thesis using assms refused[of "LogFatal x"] by (simp add: connect_events_def)
next
  case (Panic q)
  then show ?thesis by (auto simp: Emulator.Connect_def split: option.splits sum.splits)
qed

subsection \<open>The goroutine between the other calls\<close>

text \<open>What may happen while emulator \<open>i\<close> comes up: heartbeats, further starts, input with its payload, frames, and
  the late connections of earlier emulators; not a stop, an exit or another start report.\<close>

fun bystander :: "nat \<Rightarrow> sevent \<Rightarrow> bool" where
  "bystander i Heartbeat = True"
| "bystander i (RpcStart sys bp p req) = True"
| "bystander i (RpcInput svc req) = (\<forall>r. req = Some r \<longrightarrow> InputRequest_Event r \<noteq> Some (InputRequest_Touch None))"
| "bystander i (Connected j con) = (j \<noteq> i)"
| "bystander i (FrameIn j f) = True"
| "bystander i _ = False"

text \<open>Emulator \<open>i\<close>, started with \<open>m\<close>, connected as \<open>con\<close> says, and reported as started or not.\<close>

definition booting :: "nat \<Rightarrow> StartEmulatorRequest \<Rightarrow> Controller option \<Rightarrow> bool \<Rightarrow> sworld \<Rightarrow> bool" where
  "booting i m con up w \<longleftrightarrow> crash w = None \<and> emu (srv w) = Some i \<and> i < length (emus (srv w)) \<and>
     length (lives w) = length (emus (srv w)) \<and>
     request (emus (srv w) ! i) = m \<and> controller (emus (srv w) ! i) = con \<and>
     (connected (lives w ! i) \<longleftrightarrow> con \<noteq> None) \<and> (started (lives w ! i) \<longleftrightarrow> up) \<and>
     state (srv w) = (if up then StateRunning else StateStarting) \<and>
     (up \<longrightarrow> bvalue (stateBroadcaster (srv w)) = Some (AgentState_zero\<lparr>AgentState_EmulatorState := AgentState_RUNNING\<rparr>))"

lemma booting_bystander:
  assumes "booting i m con up w" "bystander i e" "s_step e w = Some w'"
  shows "booting i m con up w'"
proof (cases e)
  case (RpcStart sys bp p req)
  have "Server.StartEmulator sys bp p req (srv w) = (Err (GrpcStatus FailedPrecondition ''emulator already running''), srv w)"
    using assms(1) by (auto simp: booting_def Server.StartEmulator_def split: if_splits)
  then show ?thesis using assms RpcStart by (auto simp: booting_def finish_def Let_def)
next
  case (RpcInput svc req)
  have "\<not> is_panic (fst (fst (Server.SendInput svc req (srv w))))"
    using assms(1,2) RpcInput by (intro SendInput_no_panic[where i = i]) (auto simp: booting_def)
  then show ?thesis
    using assms RpcInput SendInput_state[of svc req "srv w"]
    by (cases "fst (fst (Server.SendInput svc req (srv w)))") (auto simp: booting_def finish_def split: prod.splits)
next
  case (FrameIn j f)
  then show ?thesis using assms by (auto simp: booting_def OnEmulatorFrame_def split: if_splits)
qed (use assms in \<open>auto simp: booting_def heartbeat_def broadcastState_def agent_state_def finish_def Broadcast_def
    split: if_splits\<close>)

lemma booting_bystanders:
  "exec s_step es w = Some w' \<Longrightarrow> booting i m con up w \<Longrightarrow> \<forall>e \<in> set es. bystander i e \<Longrightarrow> booting i m con up w'"
proof (induction es arbitrary: w)
  case (Cons e es)
  then obtain v where "s_step e w = Some v" "exec s_step es v = Some w'" unfolding exec_Cons_Some by blast
  then show ?case using Cons booting_bystander by (metis list.set_intros)
qed simp

text \<open>The next event of the goroutine, after the bystanders before it.\<close>

lemma booting_next:
  assumes "exec s_step es w = Some w'" "booting i m con up w" "filter (\<lambda>e. \<not> bystander i e) es = x # xs"
  obtains v v' fs where "booting i m con up v" "s_step x v = Some v'" "exec s_step fs v' = Some w'"
    "filter (\<lambda>e. \<not> bystander i e) fs = xs"
proof -
  obtain us fs where es: "es = us @ x # fs" "\<forall>u \<in> set us. bystander i u" "filter (\<lambda>e. \<not> bystander i e) fs = xs"
    using assms(3) by (auto dest!: filter_eq_ConsD)
  then obtain v v' where v: "exec s_step us w = Some v" "s_step x v = Some v'" "exec s_step fs v' = Some w'"
    using assms(1) by (auto simp: exec_append exec_Cons_Some simp del: exec.simps(2) split: option.splits)
  then show ?thesis using that es booting_bystanders[OF v(1) assms(2)] by blast
qed

lemma booting_last:
  assumes "exec s_step es w = Some w'" "booting i m con up w" "filter (\<lambda>e. \<not> bystander i e) es = []"
  shows "booting i m con up w'"
  using assms booting_bystanders by (auto simp: filter_empty_conv)

lemma exec_dead: "exec s_step es w = Some w' \<Longrightarrow> crash w \<noteq> None \<Longrightarrow> w' = w"
  using s_step_crash by (cases es) (auto simp: exec_Cons_Some simp del: exec.simps(2))

lemma booting_connects:
  "booting i m None False w \<Longrightarrow> \<exists>w'. s_step (Connected i con) w = Some w' \<and> booting i m (Some con) False w'"
  by (auto simp: booting_def)

lemma booting_starts:
  "booting i m (Some con) False w \<Longrightarrow> \<exists>w'. s_step (Started i) w = Some w' \<and> booting i m (Some con) True w'"
  by (auto simp: booting_def finish_def OnEmulatorStarted_def broadcastState_def agent_state_def Broadcast_def)

lemma booting_dies:
  "booting i m con False w \<Longrightarrow> \<exists>w'. s_step (ConnectDies i q) w = Some w' \<and> crash w' = Some q"
  by (auto simp: booting_def)

lemma booting_begins:
  assumes "s_inv w" "crash w = None" "state (srv w) = StateStopped \<or> state (srv w) = StateError"
    and "fst (Emulator.Start sys bp p m []) = Ok em"
  shows "\<exists>w'. s_step (RpcStart sys bp p m) w = Some w' \<and> booting (length (emus (srv w))) m None False w'"
proof (cases rule: StartEmulator_cases[of sys bp p m "srv w"])
  case (made em' x)
  have "request em = m" "controller em = None"
    using Start_order[where os = sys and build_prop = bp and p = p and req = m] assms(4)
    by (cases "Emulator.Start sys bp p m []"; auto)+
  then show ?thesis
    using made assms(1,2,4) by (simp add: booting_def finish_def Let_def s_inv_def new_life_def nth_append)
qed (use assms(3,4) in auto)

text \<open>The goroutine's events, alone or between bystanders.\<close>

lemma boot_run:
  assumes "booting i m None False w" "controller em = None" "filter (\<lambda>e. \<not> bystander i e) es = connect_events i r"
    and "exec s_step es w = Some w'" "r = connect dial st adb1 adb2 em"
  shows "case fst r of Ok _ \<Rightarrow> booting i m (Some \<lparr>connection = '':8554''\<rparr>) True w'
    | Err _ \<Rightarrow> False | Panic q \<Rightarrow> crash w' = Some q"
  using assms(2)
proof (cases rule: connect_shape[where i = i and dial = dial and st = st and ?adb1.0 = adb1 and ?adb2.0 = adb2])
  case (refused q)
  obtain v v' fs where v: "booting i m None False v" "s_step (ConnectDies i q) v = Some v'" "exec s_step fs v' = Some w'"
    using booting_next[OF assms(4,1)] assms(3,5) refused(1) by metis
  then have "crash v' = Some q" using booting_dies[OF v(1), of q] by auto
  then show ?thesis using exec_dead[OF v(3)] refused(2) assms(5) by simp
next
  case (died q)
  let ?con = "\<lparr>connection = '':8554''\<rparr>"
  obtain v v' fs where v: "booting i m None False v" "s_step (Connected i ?con) v = Some v'" "exec s_step fs v' = Some w'"
    "filter (\<lambda>e. \<not> bystander i e) fs = [ConnectDies i q]"
    using booting_next[OF assms(4,1)] assms(3,5) died(1) by metis
  have "booting i m (Some ?con) False v'" using booting_connects[OF v(1)] v(2) by (metis option.inject)
  then obtain u u' gs where u: "booting i m (Some ?con) False u" "s_step (ConnectDies i q) u = Some u'" "exec s_step gs u' = Some w'"
    using booting_next[OF v(3) _ v(4)] by metis
  then have "crash u' = Some q" using booting_dies[OF u(1), of q] by auto
  then show ?thesis using exec_dead[OF u(3)] died(2) assms(5) by simp
next
  case up
  let ?con = "\<lparr>connection = '':8554''\<rparr>"
  obtain v v' fs where v: "booting i m None False v" "s_step (Connected i ?con) v = Some v'" "exec s_step fs v' = Some w'"
    "filter (\<lambda>e. \<not> bystander i e) fs = [Started i]"
    using booting_next[OF assms(4,1)] assms(3,5) up(1) by metis
  have "booting i m (Some ?con) False v'" using booting_connects[OF v(1)] v(2) by (metis option.inject)
  then obtain u u' gs where u: "booting i m (Some ?con) False u" "s_step (Started i) u = Some u'" "exec s_step gs u' = Some w'"
    "filter (\<lambda>e. \<not> bystander i e) gs = []"
    using booting_next[OF v(3) _ v(4)] by metis
  have "booting i m (Some ?con) True u'" using booting_starts[OF u(1)] u(2) by (metis option.inject)
  then show ?thesis using booting_last[OF u(3) _ u(4)] up(2) assms(5) by simp
qed

lemma boot_enabled:
  assumes "booting i m None False w" "controller em = None"
  shows "\<exists>w'. exec s_step (connect_events i (connect dial st adb1 adb2 em)) w = Some w'"
  using assms(2)
proof (cases rule: connect_shape[where i = i and dial = dial and st = st and ?adb1.0 = adb1 and ?adb2.0 = adb2])
  case (refused q)
  then show ?thesis using booting_dies[OF assms(1), of q] 
    by (auto simp: exec_Cons_Some simp del: exec.simps(2) s_step.simps)
next
  case (died q)
  then show ?thesis using booting_connects[OF assms(1)] booting_dies
    by (simp add: exec_Cons_Some del: exec.simps(2) s_step.simps) (metis exec.simps(1))
next
  case up
  then show ?thesis using booting_connects[OF assms(1)] booting_starts
    by (simp add: exec_Cons_Some del: exec.simps(2) s_step.simps) (metis exec.simps(1))
qed

text \<open>C6: In any state the server can reach without an emulator, a start that has spawned its process is followed by
  the steps of the goroutine that connects to it, which are possible; and in every execution from that start in which
  these steps happen, with any heartbeats, frames, input with its payload, refused starts and late connections of earlier
  emulators between them, but no stop, exit or other start report, the server ends running with this emulator,
  connected to it, and the subscribers have been told; or the agent has died of what the goroutine died of. If the
  adb server sends well-formed reports (and accepts the root command, where it was asked for), the goroutine dies only
  of a refused dial, a failing status call, a stream of reports that ends before a device is ready, or a broken answer
  to the root command, and of exactly that error.\<close>

theorem boot_end_to_end:
  assumes "exec s_step es s_start = Some w" "crash w = None" "state (srv w) = StateStopped \<or> state (srv w) = StateError"
    and "fst (Emulator.Start sys bp p m []) = Ok em"
    and "r = connect dial st adb1 adb2 em" "i = length (emus (srv w))"
  shows "(\<exists>w'. exec s_step (RpcStart sys bp p m # connect_events i r) w = Some w') \<and>
    (\<forall>es' w'. filter (\<lambda>e. \<not> bystander i e) es' = connect_events i r \<and>
        exec s_step (RpcStart sys bp p m # es') w = Some w' \<longrightarrow>
      (case fst r of
         Ok _ \<Rightarrow> crash w' = None \<and> state (srv w') = StateRunning \<and> emu (srv w') = Some i \<and>
           controller (emus (srv w') ! i) = Some \<lparr>connection = '':8554''\<rparr> \<and> request (emus (srv w') ! i) = m \<and>
           bvalue (stateBroadcaster (srv w')) = Some (AgentState_zero\<lparr>AgentState_EmulatorState := AgentState_RUNNING\<rparr>)
       | Err _ \<Rightarrow> False
       | Panic q \<Rightarrow> crash w' = Some q)) \<and>
    (reports_on adb1 ms \<and> answer_on adb2 rest \<longrightarrow>
       fst r = (case boot_error dial st adb1 adb2 ms (StartEmulatorRequest_RootAdb m) rest of
         None \<Rightarrow> Ok () | Some x \<Rightarrow> Panic (LogFatal x)))"
proof -
  have "s_inv w" by (rule server_sys.inv_exec[OF TrueI assms(1)])
  then obtain w1 where w1: "s_step (RpcStart sys bp p m) w = Some w1" "booting i m None False w1"
    using booting_begins assms(2-4,6) by blast
  have em: "request em = m" "controller em = None"
    using Start_order[where os = sys and build_prop = bp and p = p and req = m] assms(4)
    by (cases "Emulator.Start sys bp p m []"; auto)+
  have "exec s_step (RpcStart sys bp p m # es') w = exec s_step es' w1" for es' using w1(1) by simp
  then show ?thesis
    using boot_enabled[OF w1(2) em(2)] boot_run[OF w1(2) em(2) _ _ assms(5)] connect_exact[of adb1 ms adb2 rest] em(1) assms(5)
    by (auto simp: booting_def simp del: exec.simps split: res.splits)
qed

theorem boot_end_to_end_witness:
  "\<exists>w' w'' em. fst (Emulator.Start (\<lambda>_. None) ok_prop 7 (StartEmulatorRequest_zero\<lparr>StartEmulatorRequest_RootAdb := True\<rparr>) []) = Ok em \<and>
     exec s_step (RpcStart (\<lambda>_. None) ok_prop 7 (StartEmulatorRequest_zero\<lparr>StartEmulatorRequest_RootAdb := True\<rparr>) #
       Heartbeat # connect_events 0 (connect None (Inr emu_EmulatorStatus_zero)
         (Inr (peer_conn (of_str ''OKAY'' @ message_packet (of_str ''emulator-5556 offline'') @ message_packet (of_str ''emulator-5556 device''))))
         (Inr (peer_conn (of_str ''OKAY'' @ of_str ''OKAY''))) em)) s_start = Some w' \<and>
     crash w' = None \<and> state (srv w') = StateRunning \<and>
     exec s_step (RpcStart (\<lambda>_. None) ok_prop 7 StartEmulatorRequest_zero #
       connect_events 0 (connect None (Inr emu_EmulatorStatus_zero)
         (Inr (peer_conn (of_str ''OKAY'' @ message_packet (of_str ''emulator-5556 offline''))))
         (Inl EOF) (em\<lparr>request := StartEmulatorRequest_zero\<rparr>))) s_start = Some w'' \<and>
     crash w'' = Some (LogFatal EOF)"
proof -
  let ?ms = "[of_str ''emulator-5556 offline'', of_str ''emulator-5556 device'']"
  let ?m = "StartEmulatorRequest_zero\<lparr>StartEmulatorRequest_RootAdb := True\<rparr>"
  let ?c = "Inr (peer_conn (of_str ''OKAY'' @ message_packet (of_str ''emulator-5556 offline'') @ message_packet (of_str ''emulator-5556 device''))) :: goerr + conn"
  let ?c' = "Inr (peer_conn (of_str ''OKAY'' @ message_packet (of_str ''emulator-5556 offline''))) :: goerr + conn"
  let ?d = "Inr (peer_conn (of_str ''OKAY'' @ of_str ''OKAY'')) :: goerr + conn"
  let ?em = "\<lambda>m. \<lparr>request = m, controller = None, pid = 7, forceExitRequested = False\<rparr>"
  let ?r = "connect None (Inr emu_EmulatorStatus_zero) ?c ?d (?em ?m)"
  let ?r' = "connect None (Inr emu_EmulatorStatus_zero) ?c' (Inl EOF) (?em StartEmulatorRequest_zero)"
  have s: "exec s_step [] s_start = Some s_start" "crash s_start = None"
      "state (srv s_start) = StateStopped \<or> state (srv s_start) = StateError" "0 = length (emus (srv s_start))"
    by (simp_all add: run_simps)
  have on: "reports_on ?c ?ms" "reports_on ?c' [hd ?ms]" "answer_on ?d []" "answer_on (Inl EOF) []"
    using sample_reports(1) by (simp_all add: reports_on_def answer_on_def)
  have e: "boot_error None (Inr emu_EmulatorStatus_zero) ?c ?d ?ms True [] = None"
      "boot_error None (Inr emu_EmulatorStatus_zero) ?c' (Inl EOF) [hd ?ms] (StartEmulatorRequest_RootAdb StartEmulatorRequest_zero) [] = Some EOF"
    using sample_reports(2) by (simp_all add: boot_error_def first_token_def peer_conn_def)
  note B = boot_end_to_end[OF s(1-3) Start_sample refl s(4)]
  have r: "fst ?r = Ok ()" "fst ?r' = Panic (LogFatal EOF)"
    using B[of 7 ?m None "Inr emu_EmulatorStatus_zero" ?c ?d ?ms "[]"] B[of 7 StartEmulatorRequest_zero None "Inr emu_EmulatorStatus_zero" ?c' "Inl EOF" "[hd ?ms]" "[]"] on e
    by (simp_all del: exec.simps)
  let ?con = "\<lparr>connection = '':8554''\<rparr>"
  have ev: "connect_events 0 ?r = [Connected 0 ?con, Started 0]"
    using r(1) connect_shape[of "?em ?m" 0 None "Inr emu_EmulatorStatus_zero" ?c ?d] by fastforce
  then have f: "filter (\<lambda>e. \<not> bystander 0 e) (Heartbeat # connect_events 0 ?r) = connect_events 0 ?r" by simp
  have "\<exists>w'. exec s_step (RpcStart (\<lambda>_. None) ok_prop 7 ?m # Heartbeat # connect_events 0 ?r) s_start = Some w'"
    unfolding ev by (simp add: run_simps)
  then obtain w' where w': "exec s_step (RpcStart (\<lambda>_. None) ok_prop 7 ?m # Heartbeat # connect_events 0 ?r) s_start = Some w'" ..
  have up: "crash w' = None \<and> state (srv w') = StateRunning"
    using B[of 7 ?m None "Inr emu_EmulatorStatus_zero" ?c ?d] f w' r(1) by (simp del: exec.simps filter.simps)
  obtain w'' where w'': "exec s_step (RpcStart (\<lambda>_. None) ok_prop 7 StartEmulatorRequest_zero # connect_events 0 ?r') s_start = Some w''"
    using B[of 7 StartEmulatorRequest_zero None "Inr emu_EmulatorStatus_zero" ?c' "Inl EOF"] by blast
  have "connect_events 0 ?r' = [Connected 0 ?con, ConnectDies 0 (LogFatal EOF)]"
    using r(2) by (simp add: connect_events_def) (simp add: connect_def Emulator.Connect_def)
  then have "filter (\<lambda>e. \<not> bystander 0 e) (connect_events 0 ?r') = connect_events 0 ?r'" by simp
  then have "crash w'' = Some (LogFatal EOF)"
    using B[of 7 StartEmulatorRequest_zero None "Inr emu_EmulatorStatus_zero" ?c' "Inl EOF"] w'' r(2) by (simp del: exec.simps)
  then show ?thesis
    using Start_sample[of 7 ?m] w' up w'' by (intro exI[of _ w'] exI[of _ w''] exI[of _ "?em ?m"]) simp
qed

end
