(* ===== verification/EmulatorExit.thy ===== *)
theory EmulatorExit
  imports Emulator Machine
begin

text \<open>
  The end of the emulator process as its goroutines see it, \<^verbatim>\<open>agent/server/emulator/emulator.go\<close>: two scanners
  hand the lines of the two pipes over unbuffered channels, \<^verbatim>\<open>processLogs\<close> takes them, and
  \<^verbatim>\<open>watchEmulatorExit\<close> waits for the process, closes the pipes and then waits for the last error. Here the
  four are interleaved; \<open>Emulator.watchEmulatorExit\<close> is what they compute.
\<close>

subsection \<open>Model\<close>

text \<open>A scanner waits for its pipe, has a line to hand over, or has closed its channel.\<close>

datatype scanner = Reading | Offering string | ClosedChan

datatype log_phase = Selecting | DrainingOut | DrainingErr | SendingError | LogsOver

datatype watch_phase = Waiting | AwaitingError | Reported "goerr option"

text \<open>
  \<open>todo\<close> are the lines a scanner will still find; \<open>cut\<close> says that a line too long for it ends them
  before the end of the pipe, which comes when the writers are closed.
\<close>

record pipe =
  todo :: "string list"
  cut :: bool
  scanner :: scanner

record exit_run =
  out_pipe :: pipe
  err_pipe :: pipe
  log_phase :: log_phase
  last_error :: log_state
  watch :: watch_phase

definition pipe_start :: "byte list \<Rightarrow> pipe" where
  "pipe_start written = \<lparr>todo = processChannel written, cut = snd (scan_lines written), scanner = Reading\<rparr>"

definition exit_start :: "byte list \<Rightarrow> byte list \<Rightarrow> exit_run" where
  "exit_start out err = \<lparr>out_pipe = pipe_start out, err_pipe = pipe_start err, log_phase = Selecting,
     last_error = ('''', False), watch = Waiting\<rparr>"

text \<open>The next step of a scanner: \<open>ended\<close> says that the writer of its pipe is closed.\<close>

fun scan_step :: "bool \<Rightarrow> pipe \<Rightarrow> pipe option" where
  "scan_step ended p = (case scanner p of
     Reading \<Rightarrow> (case todo p of
         l # ls \<Rightarrow> Some (p\<lparr>todo := ls, scanner := Offering l\<rparr>)
       | [] \<Rightarrow> if ended \<or> cut p then Some (p\<lparr>scanner := ClosedChan\<rparr>) else None)
   | _ \<Rightarrow> None)"

datatype exit_event = ScanOut | ScanErr | TakeOut | TakeErr | WaitReturns | HandOver

text \<open>
  \<open>e\<close>, \<open>killed\<close> and \<open>werr\<close> are as for \<open>watchEmulatorExit\<close>. The wait for the process may return at any time; it
  also waits for what the process has written to be read, which the scanners do without waiting for it.
\<close>

fun exit_step :: "emulator \<Rightarrow> bool \<Rightarrow> goerr option \<Rightarrow> exit_event \<Rightarrow> exit_run \<Rightarrow> exit_run option" where
  "exit_step e killed werr ScanOut w =
     map_option (\<lambda>p. w\<lparr>out_pipe := p\<rparr>) (scan_step (watch w \<noteq> Waiting) (out_pipe w))"
| "exit_step e killed werr ScanErr w =
     map_option (\<lambda>p. w\<lparr>err_pipe := p\<rparr>) (scan_step (watch w \<noteq> Waiting) (err_pipe w))"
| "exit_step e killed werr TakeOut w =
     (if log_phase w \<noteq> Selecting \<and> log_phase w \<noteq> DrainingOut then None
      else case scanner (out_pipe w) of
        Reading \<Rightarrow> None
      | Offering l \<Rightarrow> Some (w\<lparr>out_pipe := (out_pipe w)\<lparr>scanner := Reading\<rparr>\<rparr>)
      | ClosedChan \<Rightarrow> Some (w\<lparr>log_phase := (if log_phase w = Selecting then DrainingOut else DrainingErr)\<rparr>))"
| "exit_step e killed werr TakeErr w =
     (if log_phase w \<noteq> Selecting \<and> log_phase w \<noteq> DrainingErr then None
      else case scanner (err_pipe w) of
        Reading \<Rightarrow> None
      | Offering l \<Rightarrow> Some (w\<lparr>err_pipe := (err_pipe w)\<lparr>scanner := Reading\<rparr>, last_error := error_line l (last_error w)\<rparr>)
      | ClosedChan \<Rightarrow> Some (w\<lparr>log_phase := (if log_phase w = Selecting then DrainingOut else SendingError)\<rparr>))"
| "exit_step e killed werr WaitReturns w = (if watch w = Waiting then Some (w\<lparr>watch := AwaitingError\<rparr>) else None)"
| "exit_step e killed werr HandOver w =
     (if log_phase w = SendingError \<and> watch w = AwaitingError
      then Some (w\<lparr>log_phase := LogsOver, watch := Reported (final_error e killed werr (TrimSpace (fst (last_error w))))\<rparr>)
      else None)"

declare scan_step.simps [simp del]

subsection \<open>Every run ends\<close>

definition pipe_weight :: "pipe \<Rightarrow> nat" where
  "pipe_weight p = 2 * length (todo p) + (case scanner p of Reading \<Rightarrow> 1 | Offering _ \<Rightarrow> 2 | ClosedChan \<Rightarrow> 0)"

definition exit_weight :: "exit_run \<Rightarrow> nat" where
  "exit_weight w = pipe_weight (out_pipe w) + pipe_weight (err_pipe w) +
     (case log_phase w of Selecting \<Rightarrow> 4 | DrainingOut \<Rightarrow> 3 | DrainingErr \<Rightarrow> 2 | SendingError \<Rightarrow> 1 | LogsOver \<Rightarrow> 0) +
     (case watch w of Waiting \<Rightarrow> 2 | AwaitingError \<Rightarrow> 1 | Reported _ \<Rightarrow> 0)"

lemma scan_step_weight: "scan_step ended p = Some q \<Longrightarrow> pipe_weight q < pipe_weight p"
  by (auto simp: scan_step.simps pipe_weight_def split: scanner.splits list.splits if_splits)

interpretation exit_progress: progress "exit_step e killed werr" exit_weight for e killed werr
proof
  fix ev w w' assume s: "exit_step e killed werr ev w = Some w'"
  show "exit_weight w' < exit_weight w"
  proof (cases ev)
    case ScanOut
    then show ?thesis using s by (auto simp: exit_weight_def dest: scan_step_weight)
  next
    case ScanErr
    then show ?thesis using s by (auto simp: exit_weight_def dest: scan_step_weight)
  qed (use s in \<open>auto simp: exit_weight_def pipe_weight_def split: if_splits scanner.splits\<close>)
qed

subsection \<open>What is reported\<close>

fun offered :: "scanner \<Rightarrow> string list" where
  "offered (Offering l) = [l]"
| "offered _ = []"

definition exit_inv :: "goerr option \<Rightarrow> emulator \<Rightarrow> bool \<Rightarrow> log_state \<Rightarrow> exit_run \<Rightarrow> bool" where
  "exit_inv werr e killed final w \<longleftrightarrow>
     fold error_line (offered (scanner (err_pipe w)) @ todo (err_pipe w)) (last_error w) = final \<and>
     (scanner (out_pipe w) = ClosedChan \<longrightarrow> todo (out_pipe w) = []) \<and>
     (scanner (err_pipe w) = ClosedChan \<longrightarrow> todo (err_pipe w) = []) \<and>
     (log_phase w \<in> {DrainingErr, SendingError, LogsOver} \<longrightarrow> scanner (out_pipe w) = ClosedChan) \<and>
     (log_phase w \<in> {SendingError, LogsOver} \<longrightarrow> scanner (err_pipe w) = ClosedChan) \<and>
     (log_phase w = LogsOver \<longleftrightarrow> (\<exists>r. watch w = Reported r)) \<and>
     (\<forall>r. watch w = Reported r \<longrightarrow> r = final_error e killed werr (TrimSpace (fst final)))"

lemma scan_step_cases:
  assumes "scan_step ended p = Some q"
  obtains (Line) l ls where "scanner p = Reading" "todo p = l # ls" "q = p\<lparr>todo := ls, scanner := Offering l\<rparr>"
  | (End) "scanner p = Reading" "todo p = []" "q = p\<lparr>scanner := ClosedChan\<rparr>"
  using assms by (auto simp: scan_step.simps split: scanner.splits list.splits if_splits)

lemma exit_inv_step:
  assumes "exit_inv werr e killed final w" "exit_step e killed werr ev w = Some w'"
  shows "exit_inv werr e killed final w'"
proof (cases ev)
  case ScanOut
  then obtain p where p: "scan_step (watch w \<noteq> Waiting) (out_pipe w) = Some p" "w' = w\<lparr>out_pipe := p\<rparr>" using assms(2) by auto
  from p(1) show ?thesis using assms(1) p(2) by (cases rule: scan_step_cases) (auto simp: exit_inv_def)
next
  case ScanErr
  then obtain p where p: "scan_step (watch w \<noteq> Waiting) (err_pipe w) = Some p" "w' = w\<lparr>err_pipe := p\<rparr>" using assms(2) by auto
  from p(1) show ?thesis using assms(1) p(2) by (cases rule: scan_step_cases) (auto simp: exit_inv_def)
qed (use assms in \<open>auto simp: exit_inv_def split: if_splits scanner.splits\<close>)

interpretation exit_sys: machine "exit_step e killed werr" "exit_start out err" "\<lambda>_. True"
    "\<lambda>_. exit_inv werr e killed (fold error_line (processChannel err) ('''', False))" for e killed werr out err
proof
  show "exit_inv werr e killed (fold error_line (processChannel err) ('''', False)) (exit_start out err)"
    by (simp add: exit_inv_def exit_start_def pipe_start_def)
qed (auto intro: exit_inv_step)

lemma scan_goes: "scanner p = Reading \<Longrightarrow> scan_step True p \<noteq> None"
  by (simp add: scan_step.simps split: list.splits)

lemma exit_goes:
  assumes "exit_inv werr e killed final w" "\<nexists>r. watch w = Reported r"
  shows "\<exists>ev. exit_step e killed werr ev w \<noteq> None"
proof (cases "watch w")
  case Waiting
  then have "exit_step e killed werr WaitReturns w \<noteq> None" by simp
  then show ?thesis by blast
next
  case AwaitingError
  have out: "exit_step e killed werr (if scanner (out_pipe w) = Reading then ScanOut else TakeOut) w \<noteq> None"
    if "log_phase w = Selecting \<or> log_phase w = DrainingOut"
    using that AwaitingError scan_goes[of "out_pipe w"] by (auto split: scanner.splits)
  have err: "exit_step e killed werr (if scanner (err_pipe w) = Reading then ScanErr else TakeErr) w \<noteq> None"
    if "log_phase w = DrainingErr"
    using that AwaitingError scan_goes[of "err_pipe w"] by (auto split: scanner.splits)
  have "exit_step e killed werr HandOver w \<noteq> None" if "log_phase w = SendingError" using that AwaitingError by simp
  moreover have "log_phase w \<noteq> LogsOver" using assms by (auto simp: exit_inv_def)
  ultimately show ?thesis using out err by (cases "log_phase w") blast+
qed (use assms(2) in blast)

lemma reported_stops: "exit_inv werr e killed final w \<Longrightarrow> watch w = Reported r \<Longrightarrow> exit_step e killed werr ev w = None"
  by (cases ev) (auto simp: exit_inv_def scan_step.simps)

text \<open>C13: However the goroutines at the end of an emulator process are scheduled, they make a bounded number of
  steps and stop only when the exit has been reported: none of them waits for ever. The report is the
  one the functional \<open>watchEmulatorExit\<close> gives: clean exactly when the wait has no error or when the agent had
  asked to kill the process and it died of that, and otherwise the wait's error with the last error of
  the log.\<close>

theorem exit_always_reported:
  assumes "exec (exit_step e killed werr) es (exit_start out err) = Some w"
  shows "length es \<le> 2 * length (processChannel out) + 2 * length (processChannel err) + 8 \<and>
    ((\<forall>ev. exit_step e killed werr ev w = None) \<longleftrightarrow> (\<exists>r. watch w = Reported r)) \<and>
    (\<forall>r. watch w = Reported r \<longrightarrow>
       (\<exists>ch. watchEmulatorExit ch out err killed werr e = Some r) \<and>
       (r = None \<longleftrightarrow> werr = None \<or> forceExitRequested e \<and> killed) \<and>
       (\<forall>x. r = Some x \<longrightarrow> (\<exists>y. werr = Some y \<and> err_string x = ''emulator exited with: '' @ err_string y @ '', last error: '' @
          TrimSpace (fst (fold error_line (processChannel err) ('''', False))))))"
proof -
  let ?final = "fold error_line (processChannel err) ('''', False)"
  have inv: "exit_inv werr e killed ?final w" by (rule exit_sys.inv_exec[OF TrueI assms])
  have "length es \<le> 2 * length (processChannel out) + 2 * length (processChannel err) + 8"
    using exit_progress.exec_weight[OF assms] by (simp add: exit_weight_def exit_start_def pipe_weight_def pipe_start_def)
  moreover have "(\<forall>ev. exit_step e killed werr ev w = None) \<longleftrightarrow> (\<exists>r. watch w = Reported r)"
    by (meson exit_goes[OF inv] reported_stops[OF inv])
  moreover have "(\<exists>ch. watchEmulatorExit ch out err killed werr e = Some r) \<and>
       (r = None \<longleftrightarrow> werr = None \<or> forceExitRequested e \<and> killed) \<and>
       (\<forall>x. r = Some x \<longrightarrow> (\<exists>y. werr = Some y \<and> err_string x = ''emulator exited with: '' @ err_string y @ '', last error: '' @
          TrimSpace (fst ?final)))" if "watch w = Reported r" for r
  proof -
    have r: "r = final_error e killed werr (TrimSpace (fst ?final))" using inv that by (simp add: exit_inv_def)
    let ?ch = "replicate (Suc (length (processChannel out) + length (processChannel err))) True"
    have "select_loop ?ch (processChannel out) (processChannel err) ('''', False) \<noteq> None"
      by (rule select_loop_ends) simp
    then have "watchEmulatorExit ?ch out err killed werr e = Some r"
      by (simp add: watchEmulatorExit_def processLogs_eq r del: replicate_Suc)
    then show ?thesis by (auto simp: r final_error_def split: option.splits)
  qed
  ultimately show ?thesis by blast
qed

theorem exit_always_reported_witness:
  "\<exists>w. exec (exit_step \<lparr>request = StartEmulatorRequest_zero, controller = None, pid = 1, forceExitRequested = True\<rparr> True (Some EOF))
      [WaitReturns, ScanErr, TakeErr, ScanOut, TakeOut, TakeErr, HandOver] (exit_start [] []) = Some w \<and> watch w = Reported None"
proof -
  let ?e = "\<lparr>request = StartEmulatorRequest_zero, controller = None, pid = 1, forceExitRequested = True\<rparr>"
  obtain w r where w: "exec (exit_step ?e True (Some EOF)) [WaitReturns, ScanErr, TakeErr, ScanOut, TakeOut, TakeErr, HandOver]
      (exit_start [] []) = Some w" "watch w = Reported r"
    by (simp add: exit_start_def pipe_start_def processChannel_def scan_step.simps)
  then show ?thesis using exit_always_reported[OF w(1)] by auto
qed

end
