(* ===== verification/Demo.thy ===== *)
theory Demo
  imports AgentClient
begin

text \<open>
  \<^verbatim>\<open>demo/backend\<close>: the backend of the demo, which shows the agent's display, log and shell to web clients
  (\<^verbatim>\<open>client/client.go\<close>) and spreads the agent's streams over them (\<^verbatim>\<open>server/server.go\<close>). A websocket is
  the sink of the messages written to it. The translation of messages to and from JSON is a parameter;
  what a client asks of the agent is recorded and answered by \<open>svc\<close>.
\<close>

subsection \<open>client.go: a web client\<close>

datatype ws_msg = TextMessage "byte list" | BinaryMessage "byte list"

record ClientOutMsg =
  OutType :: string
  OutLine :: "string option"

record DemoTouch =
  dId :: u32
  dX :: u32
  dY :: u32
  dPressure :: u32

record ClientInMsg =
  InType :: string
  InLine :: "string option"
  InTouch :: "DemoTouch option"
  InPower :: "string option"

datatype agent_call = CallOpenShell Request | CallTouch client_Touch | CallStart StartRequest | CallStop bool

text \<open>
  The goroutine of a shell: about to look at the field \<^verbatim>\<open>shell\<close>, receiving from the shell it found there,
  holding an output that is still to be sent on, or over.
\<close>

datatype pump = AtHead | Receiving nat | Forwarding Output | PumpOver

text \<open>
  Shells are shared by pointer, so those a client has opened are kept in a list, and the field \<^verbatim>\<open>shell\<close> is an
  index of it. \<open>reading\<close> says that the loop over the messages goes on, \<open>web_calls\<close> is what has been asked of
  the agent.
\<close>

record WebClient =
  ws :: "ws_msg sink"
  videoStarted :: bool
  web_shells :: "Shell list"
  web_shell :: "nat option"
  pumps :: "pump list"
  reading :: bool
  web_calls :: "agent_call list"

definition ws_write :: "ws_msg \<Rightarrow> WebClient \<Rightarrow> unit res \<times> WebClient" where
  "ws_write m c = map_prod id (\<lambda>s. c\<lparr>ws := s\<rparr>) (grpc_send m (ws c))"

definition SendMsg :: "(ClientOutMsg \<Rightarrow> goerr + byte list) \<Rightarrow> ClientOutMsg \<Rightarrow> WebClient \<Rightarrow> unit res \<times> WebClient" where
  "SendMsg marshal msg c = (case marshal msg of
     Inl e \<Rightarrow> (Err e, c)
   | Inr encoded \<Rightarrow> ws_write (TextMessage encoded) c)"

definition NewClient :: "(ClientOutMsg \<Rightarrow> goerr + byte list) \<Rightarrow> ws_msg sink \<Rightarrow> WebClient" where
  "NewClient marshal s =
     snd (SendMsg marshal \<lparr>OutType = ''log'', OutLine = Some ''Connected''\<rparr>
       \<lparr>ws = s, videoStarted = False, web_shells = [], web_shell = None, pumps = [], reading = True, web_calls = []\<rparr>)"

text \<open>The marker before a keyframe, and a frame behind its two bytes of header.\<close>

definition ProcessFrame :: "client_Frame \<Rightarrow> WebClient \<Rightarrow> unit res \<times> WebClient" where
  "ProcessFrame frame c =
     on_ok (if cKeyframe frame then ws_write (BinaryMessage [1]) (c\<lparr>videoStarted := True\<rparr>) else (Ok (), c))
       (\<lambda>c. c) (\<lambda>_ c.
         if videoStarted c
         then ws_write (BinaryMessage ([2, if cKeyframe frame then 1 else 0] @ cData frame)) c
         else (Ok (), c))"

definition ProcessSysLog :: "(ClientOutMsg \<Rightarrow> goerr + byte list) \<Rightarrow> string \<Rightarrow> WebClient \<Rightarrow> unit res \<times> WebClient" where
  "ProcessSysLog marshal line c = SendMsg marshal \<lparr>OutType = ''kernlog'', OutLine = Some line\<rparr> c"

subsection \<open>client.go: its messages\<close>

definition demo_shell_request :: Request where
  "demo_shell_request = \<lparr>RequestType = TypePTY, RequestCommand = None, RequestTermType = Some ''xterm-256color''\<rparr>"

definition demo_start_request :: StartRequest where
  "demo_start_request = \<lparr>RamSize = 3500, CoreCount = 4, LcdDensity = 320, LcdWidth = 720, LcdHeight = 1280, RootADB = True\<rparr>"

text \<open>One call of the agent, with its outcome.\<close>

definition ask :: "(agent_call \<Rightarrow> goerr option) \<Rightarrow> agent_call \<Rightarrow> WebClient \<Rightarrow> unit res \<times> WebClient" where
  "ask svc call c = ((case svc call of None \<Rightarrow> Ok () | Some e \<Rightarrow> Err e), c\<lparr>web_calls := web_calls c @ [call]\<rparr>)"

text \<open>
  One message; an error ends the loop. \<open>opened\<close> is the stream the agent's client opens for a shell; a
  goroutine is then started for its output.
\<close>

definition handle_message ::
  "(agent_call \<Rightarrow> goerr option) \<Rightarrow> (ShellResponse source \<times> ShellRequest sink) \<Rightarrow> ClientInMsg \<Rightarrow>
   WebClient \<Rightarrow> unit res \<times> WebClient" where
  "handle_message svc opened msg c =
     (if InType msg = ''open-shell'' then
        (case ask svc (CallOpenShell demo_shell_request) c of
           (Ok _, c) \<Rightarrow>
             (case AgentClient.OpenShell (Inr opened) demo_shell_request of
                Ok sh \<Rightarrow> (Ok (), c\<lparr>web_shells := web_shells c @ [sh], web_shell := Some (length (web_shells c)),
                                  pumps := pumps c @ [AtHead]\<rparr>)
              | Err e \<Rightarrow> (Err e, c\<lparr>web_shell := None\<rparr>)
              | Panic p \<Rightarrow> (Panic p, c))
         | (r, c) \<Rightarrow> (r, c\<lparr>web_shell := None\<rparr>))
      else if InType msg = ''shell-data'' then
        (case (web_shell c, InLine msg) of
           (Some p, Some line) \<Rightarrow>
             (case ShellClient.SendInput (of_str line) (web_shells c ! p) of
                (r, sh) \<Rightarrow> (r, c\<lparr>web_shells := (web_shells c)[p := sh]\<rparr>))
         | _ \<Rightarrow> (Panic NilDereference, c))
      else if InType msg = ''touch-event'' then
        (case InTouch msg of
           None \<Rightarrow> (Panic NilDereference, c)
         | Some evt \<Rightarrow> ask svc (CallTouch \<lparr>tIdentifier = dId evt, tX = dX evt, tY = dY evt,
             tPressure = dPressure evt, tTouchMajor = 0, tTouchMinor = 0\<rparr>) c)
      else if InType msg = ''power-event'' then
        (case InPower msg of
           None \<Rightarrow> (Panic NilDereference, c)
         | Some ev \<Rightarrow>
             (if ev = ''start'' then ask svc (CallStart demo_start_request) c
              else if ev = ''stop'' then ask svc (CallStop False) c
              else if ev = ''force-stop'' then ask svc (CallStop True) c
              else (Ok (), c)))
      else (Ok (), c))"

text \<open>
  What a read of the websocket meets. The handler of a close frame returns no error, and the read then
  fails with the frame's code and text.
\<close>

datatype ws_input = WsData "byte list" | WsClose int string | WsError goerr

definition handleClose :: "int \<Rightarrow> string \<Rightarrow> goerr option" where
  "handleClose code text = None"

definition ReadMessage :: "ws_input \<Rightarrow> byte list res" where
  "ReadMessage inp = (case inp of
     WsData data \<Rightarrow> Ok data
   | WsClose code text \<Rightarrow> Err (case handleClose code text of Some e \<Rightarrow> e | None \<Rightarrow> SysError (''websocket: close '' @ text))
   | WsError e \<Rightarrow> Err e)"

text \<open>One turn of the loop over the messages, and the loop; it ends with the first error.\<close>

definition message_turn ::
  "(byte list \<Rightarrow> goerr + ClientInMsg) \<Rightarrow> (agent_call \<Rightarrow> goerr option) \<Rightarrow> (ShellResponse source \<times> ShellRequest sink) \<Rightarrow>
   ws_input \<Rightarrow> WebClient \<Rightarrow> unit res \<times> WebClient" where
  "message_turn unmarshal svc opened inp c =
     on_ok (ReadMessage inp, c) (\<lambda>c. c) (\<lambda>data c. case unmarshal data of
         Inl e \<Rightarrow> (Err e, c)
       | Inr msg \<Rightarrow> handle_message svc opened msg c)"

fun processMessages ::
  "(byte list \<Rightarrow> goerr + ClientInMsg) \<Rightarrow> (agent_call \<Rightarrow> goerr option) \<Rightarrow> (ShellResponse source \<times> ShellRequest sink) \<Rightarrow>
   ws_input list \<Rightarrow> WebClient \<Rightarrow> unit res \<times> WebClient" where
  "processMessages unmarshal svc opened [] c = (Ok (), c)"
| "processMessages unmarshal svc opened (inp # inps) c =
     on_ok (message_turn unmarshal svc opened inp c) (\<lambda>c. c\<lparr>reading := False\<rparr>)
       (\<lambda>_ c. processMessages unmarshal svc opened inps c)"

text \<open>
  One step of a shell's goroutine. It reads the field \<^verbatim>\<open>shell\<close> again for every output; \<^verbatim>\<open>Recv\<close> on a nil
  shell is a nil dereference.
\<close>

definition pump_step :: "(ClientOutMsg \<Rightarrow> goerr + byte list) \<Rightarrow> nat \<Rightarrow> WebClient \<Rightarrow> unit res \<times> WebClient" where
  "pump_step marshal g c = (case pumps c ! g of
     AtHead \<Rightarrow> (case web_shell c of
         None \<Rightarrow> (Panic NilDereference, c)
       | Some p \<Rightarrow> (Ok (), c\<lparr>pumps := (pumps c)[g := Receiving p]\<rparr>))
   | Receiving p \<Rightarrow> (case ShellClient.Recv (web_shells c ! p) of
         (Ok (Some out), sh) \<Rightarrow> (Ok (), c\<lparr>web_shells := (web_shells c)[p := sh], pumps := (pumps c)[g := Forwarding out]\<rparr>)
       | (Panic q, sh) \<Rightarrow> (Panic q, c\<lparr>web_shells := (web_shells c)[p := sh]\<rparr>)
       | (_, sh) \<Rightarrow> (Ok (), c\<lparr>web_shells := (web_shells c)[p := sh], pumps := (pumps c)[g := PumpOver]\<rparr>))
   | Forwarding out \<Rightarrow>
       (case SendMsg marshal \<lparr>OutType = ''shell-data'', OutLine = Some (to_str (OutputData out))\<rparr> c of
          (Ok _, c) \<Rightarrow> (Ok (), c\<lparr>pumps := (pumps c)[g := AtHead]\<rparr>)
        | (Err e, c) \<Rightarrow> (Ok (), c\<lparr>pumps := (pumps c)[g := PumpOver]\<rparr>)
        | (Panic q, c) \<Rightarrow> (Panic q, c))
   | PumpOver \<Rightarrow> (Ok (), c))"

subsection \<open>server.go\<close>

definition demo_display_request :: DisplayRequest where
  "demo_display_request = \<lparr>Format = VP8, MaxFPS = 20, KeyframeInterval = 3000\<rparr>"

text \<open>The backend's clients, which are never removed, and its connection to the agent.\<close>

record DemoServer =
  demo_clients :: "WebClient list"
  ac :: "Client option"
  syslogStream :: "client_SysLogStream option"
  displayStream :: "client_DisplayStream option"

definition NewBackend :: DemoServer where
  "NewBackend = \<lparr>demo_clients = [], ac = None, syslogStream = None, displayStream = None\<rparr>"

text \<open>Requests of any origin are upgraded; \<open>upgrade\<close> is the package's upgrader, given the check.\<close>

definition CheckOrigin :: "'r \<Rightarrow> bool" where
  "CheckOrigin r = True"

definition wsEndpoint ::
  "(ClientOutMsg \<Rightarrow> goerr + byte list) \<Rightarrow> (('r \<Rightarrow> bool) \<Rightarrow> 'r \<Rightarrow> goerr + ws_msg sink) \<Rightarrow> 'r \<Rightarrow> WebClient list \<Rightarrow> WebClient list" where
  "wsEndpoint marshal upgrade r cs = (case upgrade CheckOrigin r of
     Inl e \<Rightarrow> cs
   | Inr s \<Rightarrow> cs @ [NewClient marshal s])"

text \<open>What a frame and a line do to every client; errors are only logged.\<close>

definition show_frame :: "client_Frame \<Rightarrow> WebClient list \<Rightarrow> WebClient list" where
  "show_frame frame = map (\<lambda>c. snd (ProcessFrame frame c))"

definition show_line :: "(ClientOutMsg \<Rightarrow> goerr + byte list) \<Rightarrow> string \<Rightarrow> WebClient list \<Rightarrow> WebClient list" where
  "show_line marshal line = map (\<lambda>c. snd (ProcessSysLog marshal line c))"

text \<open>The two loops over the agent's streams; the end of either ends the backend.\<close>

function processDisplay :: "DisplayFrame source \<Rightarrow> WebClient list \<Rightarrow> gopanic \<times> WebClient list" where
  "processDisplay stream cs = (case DisplayStream_Recv stream of
     (Ok frame, stream') \<Rightarrow> processDisplay stream' (show_frame frame cs)
   | (Err e, stream') \<Rightarrow> (LogFatal e, cs)
   | (Panic p, stream') \<Rightarrow> (p, cs))"
  by pat_completeness auto

lemma stream_recv_shrinks:
  "stream_recv f src = (Ok x, src') \<Longrightarrow> length (msgs src') < length (msgs src)"
  by (auto simp: stream_recv_def grpc_recv_def split: list.splits)

termination processDisplay
  by (relation "measure (\<lambda>(stream, c). length (msgs stream))")
    (auto simp: DisplayStream_Recv_def dest: stream_recv_shrinks[OF sym])

function processSysLog ::
  "(ClientOutMsg \<Rightarrow> goerr + byte list) \<Rightarrow> SysLogEntry source \<Rightarrow> WebClient list \<Rightarrow> gopanic \<times> WebClient list" where
  "processSysLog marshal stream cs = (case SysLogStream_Recv stream of
     (Ok line, stream') \<Rightarrow> processSysLog marshal stream' (show_line marshal line cs)
   | (Err e, stream') \<Rightarrow> (LogFatal e, cs)
   | (Panic p, stream') \<Rightarrow> (p, cs))"
  by pat_completeness auto
termination
  by (relation "measure (\<lambda>(m, stream, c). length (msgs stream))")
    (auto simp: SysLogStream_Recv_def dest: stream_recv_shrinks[OF sym])

declare processDisplay.simps [simp del] processSysLog.simps [simp del]

text \<open>
  The start, by the outcomes of its calls: a display stream that is refused ends it quietly,
  everything else with a fatal error.
\<close>

definition DemoStart ::
  "goerr option \<Rightarrow> (StreamDisplayRequest \<Rightarrow> goerr + DisplayFrame source) \<Rightarrow> goerr + SysLogEntry source \<Rightarrow> goerr \<Rightarrow>
   DemoServer \<Rightarrow> unit res \<times> DemoServer" where
  "DemoStart dial display syslog serve_err s = (case Connect ''127.0.0.1:8080'' dial of
     Err e \<Rightarrow> (Panic (LogFatal e), s)
   | Panic p \<Rightarrow> (Panic p, s)
   | Ok c \<Rightarrow>
      (case AgentClient.StreamDisplay display demo_display_request of
         Err e \<Rightarrow> (Ok (), s)
       | Panic p \<Rightarrow> (Panic p, s)
       | Ok ds \<Rightarrow>
          (let s = s\<lparr>displayStream := Some ds\<rparr> in
           case AgentClient.StreamSysLog syslog of
             Err e \<Rightarrow> (Panic (LogFatal e), s)
           | Panic p \<Rightarrow> (Panic p, s)
           | Ok ls \<Rightarrow> (Panic (LogFatal serve_err), s\<lparr>syslogStream := Some ls, ac := Some c\<rparr>))))"

text \<open>\<^verbatim>\<open>demo/backend/main.go\<close>.\<close>

definition demo_main ::
  "goerr option \<Rightarrow> (StreamDisplayRequest \<Rightarrow> goerr + DisplayFrame source) \<Rightarrow> goerr + SysLogEntry source \<Rightarrow> goerr \<Rightarrow>
   unit res \<times> DemoServer" where
  "demo_main dial display syslog serve_err = DemoStart dial display syslog serve_err NewBackend"

subsection \<open>What the messages can do\<close>

text \<open>Any web client can end the backend, with a message that lacks what its type needs.\<close>

lemma web_client_crashes:
  assumes "InType msg = ''shell-data''" "web_shell c = None \<or> InLine msg = None"
  shows "fst (handle_message svc opened msg c) = Panic NilDereference"
  using assms by (auto simp: handle_message_def split: option.splits)

text \<open>A request the agent refuses ends the control of the agent by this client: nothing later is read.\<close>

lemma refusal_ends_control:
  assumes "InType msg = ''power-event''" "InPower msg = Some ''start''" "unmarshal data = Inr msg"
    and "svc (CallStart demo_start_request) = Some e"
  shows "processMessages unmarshal svc opened (WsData data # inps) c =
    (Err e, c\<lparr>reading := False, web_calls := web_calls c @ [CallStart demo_start_request]\<rparr>)"
  using assms by (simp add: message_turn_def ReadMessage_def handle_message_def ask_def)

text \<open>A shell that is refused while another one is open ends the backend with the next output of that one.\<close>

lemma refused_reopen_crashes:
  assumes "InType msg = ''open-shell''" "svc (CallOpenShell demo_shell_request) = Some e" "pumps c ! g = AtHead"
  shows "\<exists>c'. handle_message svc opened msg c = (Err e, c') \<and> fst (pump_step marshal g c') = Panic NilDereference"
  using assms by (simp add: handle_message_def ask_def pump_step_def)

end
