(* ===== verification/DemoRun.thy ===== *)
theory DemoRun
  imports Demo Machine "HOL-Library.Sublist"
begin

text \<open>
  The backend of the demo as it runs: \<open>Demo\<close>'s web clients join, write and are shown frames, lines and
  the output of their shells, by goroutines that run interleaved. The loops over the agent's streams hold
  the mutex of the clients while they go over them, and a client's sends have a mutex of their own.
\<close>

subsection \<open>Model\<close>

record backend =
  demo :: DemoServer
  demo_crash :: "gopanic option"

text \<open>
  A websocket that is upgraded, a frame or a line from the agent, the end of one of these streams, a
  message of client \<open>i\<close> with the agent's answers, and a step of its goroutine \<open>g\<close>.
\<close>

datatype demo_event =
    Join "goerr + ws_msg sink"
  | FrameEv client_Frame
  | LineEv string
  | StreamEnd goerr
  | MessageEv nat ws_input "agent_call \<Rightarrow> goerr option" "ShellResponse source \<times> ShellRequest sink"
  | PumpEv nat nat

text \<open>What a goroutine of client \<open>i\<close> does to the backend: a panic ends it, with the clients as they were.\<close>

definition on_client :: "nat \<Rightarrow> unit res \<times> WebClient \<Rightarrow> backend \<Rightarrow> backend" where
  "on_client i r w = (case fst r of
     Panic q \<Rightarrow> w\<lparr>demo_crash := Some q\<rparr>
   | _ \<Rightarrow> w\<lparr>demo := (demo w)\<lparr>demo_clients := (demo_clients (demo w))[i := snd r]\<rparr>\<rparr>)"

definition on_clients :: "(WebClient list \<Rightarrow> WebClient list) \<Rightarrow> backend \<Rightarrow> backend" where
  "on_clients f w = w\<lparr>demo := (demo w)\<lparr>demo_clients := f (demo_clients (demo w))\<rparr>\<rparr>"

text \<open>The first output of a stream, if it still has one.\<close>

definition stream_next :: "('s \<Rightarrow> 'r res \<times> 's) \<Rightarrow> 's option \<Rightarrow> 'r res \<Rightarrow> 's option" where
  "stream_next recv stream r = (case stream of
     None \<Rightarrow> None
   | Some s \<Rightarrow> (case recv s of (r', s') \<Rightarrow> if r' = r then Some s' else None))"

fun demo_step ::
  "(ClientOutMsg \<Rightarrow> goerr + byte list) \<Rightarrow> (byte list \<Rightarrow> goerr + ClientInMsg) \<Rightarrow> demo_event \<Rightarrow> backend \<Rightarrow> backend option" where
  "demo_step marshal unmarshal (Join up) w =
     (if demo_crash w \<noteq> None then None else Some (on_clients (wsEndpoint marshal (\<lambda>_ _. up) ()) w))"
| "demo_step marshal unmarshal (FrameEv f) w =
     (if demo_crash w \<noteq> None then None
      else (case stream_next DisplayStream_Recv (displayStream (demo w)) (Ok f) of
         None \<Rightarrow> None
       | Some s \<Rightarrow> Some (on_clients (show_frame f) (w\<lparr>demo := (demo w)\<lparr>displayStream := Some s\<rparr>\<rparr>))))"
| "demo_step marshal unmarshal (LineEv l) w =
     (if demo_crash w \<noteq> None then None
      else (case stream_next SysLogStream_Recv (syslogStream (demo w)) (Ok l) of
         None \<Rightarrow> None
       | Some s \<Rightarrow> Some (on_clients (show_line marshal l) (w\<lparr>demo := (demo w)\<lparr>syslogStream := Some s\<rparr>\<rparr>))))"
| "demo_step marshal unmarshal (StreamEnd e) w =
     (if demo_crash w = None \<and>
         (stream_next DisplayStream_Recv (displayStream (demo w)) (Err e) \<noteq> None \<or>
          stream_next SysLogStream_Recv (syslogStream (demo w)) (Err e) \<noteq> None)
      then Some (w\<lparr>demo_crash := Some (LogFatal e)\<rparr>) else None)"
| "demo_step marshal unmarshal (MessageEv i inp svc opened) w =
     (if demo_crash w \<noteq> None \<or> \<not> i < length (demo_clients (demo w)) \<or> \<not> reading (demo_clients (demo w) ! i) then None
      else Some (on_client i
        (case message_turn unmarshal svc opened inp (demo_clients (demo w) ! i) of
           (Err e, c) \<Rightarrow> (Err e, c\<lparr>reading := False\<rparr>)
         | r \<Rightarrow> r) w))"
| "demo_step marshal unmarshal (PumpEv i g) w =
     (if demo_crash w \<noteq> None \<or> \<not> i < length (demo_clients (demo w)) \<or>
         \<not> g < length (pumps (demo_clients (demo w) ! i)) \<or> pumps (demo_clients (demo w) ! i) ! g = PumpOver then None
      else Some (on_client i (pump_step marshal g (demo_clients (demo w) ! i)) w))"

text \<open>The backend when it begins to serve: it has its streams and no client.\<close>

definition demo_begin :: "Client \<Rightarrow> DisplayFrame source \<Rightarrow> SysLogEntry source \<Rightarrow> backend" where
  "demo_begin c ds ls = \<lparr>demo = NewBackend\<lparr>ac := Some c, displayStream := Some ds, syslogStream := Some ls\<rparr>, demo_crash = None\<rparr>"

subsection \<open>What has happened\<close>

fun joined :: "demo_event list \<Rightarrow> ws_msg sink list" where
  "joined [] = []" | "joined (Join (Inr s) # es) = s # joined es" | "joined (_ # es) = joined es"

text \<open>The events since client \<open>i\<close> joined.\<close>

fun since :: "nat \<Rightarrow> demo_event list \<Rightarrow> demo_event list" where
  "since i [] = []"
| "since i (Join (Inr s) # es) = (case i of 0 \<Rightarrow> es | Suc j \<Rightarrow> since j es)"
| "since i (_ # es) = since i es"

fun frames :: "demo_event list \<Rightarrow> client_Frame list" where
  "frames [] = []" | "frames (FrameEv f # es) = f # frames es" | "frames (_ # es) = frames es"

fun log_lines :: "demo_event list \<Rightarrow> string list" where
  "log_lines [] = []" | "log_lines (LineEv l # es) = l # log_lines es" | "log_lines (_ # es) = log_lines es"

text \<open>The shells client \<open>i\<close> has opened: what the agent's client made of an accepted message.\<close>

definition opens_shell :: "(byte list \<Rightarrow> goerr + ClientInMsg) \<Rightarrow> ws_input \<Rightarrow> (agent_call \<Rightarrow> goerr option) \<Rightarrow>
    ShellResponse source \<times> ShellRequest sink \<Rightarrow> Shell list" where
  "opens_shell unmarshal inp svc opened = (case ReadMessage inp of
     Ok data \<Rightarrow> (case unmarshal data of
         Inr msg \<Rightarrow> (if InType msg = ''open-shell'' \<and> svc (CallOpenShell demo_shell_request) = None then
             (case AgentClient.OpenShell (Inr opened) demo_shell_request of Ok sh \<Rightarrow> [sh] | _ \<Rightarrow> [])
           else [])
       | _ \<Rightarrow> [])
   | _ \<Rightarrow> [])"

fun shells_of :: "(byte list \<Rightarrow> goerr + ClientInMsg) \<Rightarrow> nat \<Rightarrow> demo_event list \<Rightarrow> Shell list" where
  "shells_of unmarshal i [] = []"
| "shells_of unmarshal i (MessageEv j inp svc opened # es) =
     (if i = j then opens_shell unmarshal inp svc opened else []) @ shells_of unmarshal i es"
| "shells_of unmarshal i (_ # es) = shells_of unmarshal i es"

text \<open>The output a shell still has to give, up to its end.\<close>

fun outputs :: "ShellResponse list \<Rightarrow> string list" where
  "outputs [] = []"
| "outputs (m # ms) = (case ShellResponse_Message m of
     Some (ShellResponse_Output (Some out)) \<Rightarrow> to_str (ShellOutputResponse_Data out) # outputs ms
   | _ \<Rightarrow> [])"

lemma joined_snoc [simp]: "joined (es @ [e]) = joined es @ joined [e]"
  by (induction es rule: joined.induct) auto

lemma frames_snoc [simp]: "frames (es @ [e]) = frames es @ frames [e]"
  by (induction es rule: frames.induct) auto

lemma log_lines_snoc [simp]: "log_lines (es @ [e]) = log_lines es @ log_lines [e]"
  by (induction es rule: log_lines.induct) auto

lemma shells_of_snoc [simp]: "shells_of u i (es @ [e]) = shells_of u i es @ shells_of u i [e]"
  by (induction u i es rule: shells_of.induct) auto

lemma since_snoc: "since i (es @ [e]) = (if i < length (joined es) then since i es @ [e] else [])"
proof (induction i es rule: since.induct)
  case (1 i)
  show ?case
  proof (cases e)
    case (Join up)
    then show ?thesis by (cases up) (auto split: nat.split)
  qed auto
qed (auto split: nat.split)

subsection \<open>What a web client is shown\<close>

fun is_binary :: "ws_msg \<Rightarrow> bool" where
  "is_binary (BinaryMessage _) = True" | "is_binary (TextMessage _) = False"

fun text_of :: "ws_msg \<Rightarrow> byte list list" where
  "text_of (BinaryMessage _) = []" | "text_of (TextMessage b) = [b]"

definition video :: "ws_msg sink \<Rightarrow> ws_msg list" where
  "video s = filter is_binary (sent s)"

definition texts :: "ws_msg sink \<Rightarrow> byte list list" where
  "texts s = concat (map text_of (sent s))"

definition frame_messages :: "client_Frame \<Rightarrow> ws_msg list" where
  "frame_messages f =
     (if cKeyframe f then [BinaryMessage [1], BinaryMessage ([2, 1] @ cData f)]
      else [BinaryMessage ([2, 0] @ cData f)])"

text \<open>The video begins with the first keyframe.\<close>

definition from_keyframe :: "client_Frame list \<Rightarrow> client_Frame list" where
  "from_keyframe fs = dropWhile (\<lambda>f. \<not> cKeyframe f) fs"

lemma from_keyframe_snoc:
  "from_keyframe (fs @ [f]) = (if (\<exists>f \<in> set fs. cKeyframe f) then from_keyframe fs @ [f] else if cKeyframe f then [f] else [])"
  "\<not> (\<exists>f \<in> set fs. cKeyframe f) \<Longrightarrow> from_keyframe fs = []"
  by (auto simp: from_keyframe_def dropWhile_append)

text \<open>The lines of the messages of one type.\<close>

fun lines_of :: "string \<Rightarrow> ClientOutMsg list \<Rightarrow> string list" where
  "lines_of ty [] = []"
| "lines_of ty (m # ms) = (if OutType m = ty then (case OutLine m of Some l \<Rightarrow> [l] | None \<Rightarrow> []) else []) @ lines_of ty ms"

lemma lines_of_append [simp]: "lines_of ty (xs @ ys) = lines_of ty xs @ lines_of ty ys"
  by (induction xs) auto

text \<open>On a connection that works, each operation adds its messages and changes nothing else.\<close>

abbreviation add_sent :: "ws_msg list \<Rightarrow> WebClient \<Rightarrow> WebClient" where
  "add_sent ms c \<equiv> c\<lparr>ws := (ws c)\<lparr>sent := sent (ws c) @ ms\<rparr>\<rparr>"

lemma ws_write_ok: "no_fail (ws c) \<Longrightarrow> ws_write m c = (Ok (), add_sent [m] c)"
  by (simp add: ws_write_def no_fail_def grpc_send_ok)

lemma ProcessFrame_ok:
  "no_fail (ws c) \<Longrightarrow> ProcessFrame f c =
     (Ok (), add_sent (if cKeyframe f \<or> videoStarted c then frame_messages f else []) (c\<lparr>videoStarted := cKeyframe f \<or> videoStarted c\<rparr>))"
  by (cases c) (auto simp: ProcessFrame_def ws_write_def no_fail_def grpc_send_ok frame_messages_def)

lemma SendMsg_ok: "no_fail (ws c) \<Longrightarrow> SendMsg (\<lambda>m. Inr (enc m)) m c = (Ok (), add_sent [TextMessage (enc m)] c)"
  by (simp add: SendMsg_def ws_write_ok)

lemma ProcessSysLog_ok:
  "no_fail (ws c) \<Longrightarrow> ProcessSysLog (\<lambda>m. Inr (enc m)) l c =
     (Ok (), add_sent [TextMessage (enc \<lparr>OutType = ''kernlog'', OutLine = Some l\<rparr>)] c)"
  by (simp add: ProcessSysLog_def SendMsg_ok)

lemma texts_add [simp]: "texts (s\<lparr>sent := sent s @ ms\<rparr>) = texts s @ concat (map text_of ms)"
  by (simp add: texts_def)

lemma video_add [simp]: "video (s\<lparr>sent := sent s @ ms\<rparr>) = video s @ filter is_binary ms"
  by (simp add: video_def)

lemma frame_messages_kinds [simp]:
  "concat (map text_of (frame_messages f)) = []" "filter is_binary (frame_messages f) = frame_messages f"
  by (simp_all add: frame_messages_def)

text \<open>
  The goroutine of the only shell a client has opened: what has been shown, what it holds and what the shell
  still has to give are together all its output.
\<close>

fun pump_ok :: "string list \<Rightarrow> string list \<Rightarrow> pump \<Rightarrow> Shell \<Rightarrow> bool" where
  "pump_ok out seen (Forwarding d) sh \<longleftrightarrow>
     \<not> shell_exited sh \<and> out = seen @ to_str (OutputData d) # outputs (msgs (shell_in sh))"
| "pump_ok out seen PumpOver sh \<longleftrightarrow> seen = out"
| "pump_ok out seen AtHead sh \<longleftrightarrow> \<not> shell_exited sh \<and> out = seen @ outputs (msgs (shell_in sh))"
| "pump_ok out seen (Receiving p) sh \<longleftrightarrow> \<not> shell_exited sh \<and> out = seen @ outputs (msgs (shell_in sh))"

fun seen_ok :: "Shell list \<Rightarrow> string list \<Rightarrow> pump list \<Rightarrow> Shell list \<Rightarrow> bool" where
  "seen_ok [] seen gs shs \<longleftrightarrow> seen = []"
| "seen_ok [sh0] seen gs shs \<longleftrightarrow> pump_ok (outputs (msgs (shell_in sh0))) seen (gs ! 0) (shs ! 0)"
| "seen_ok _ seen gs shs \<longleftrightarrow> True"

definition client_inv :: "(ClientOutMsg \<Rightarrow> byte list) \<Rightarrow> demo_event list \<Rightarrow> Shell list \<Rightarrow> WebClient \<Rightarrow> bool" where
  "client_inv enc es shs c \<longleftrightarrow> no_fail (ws c) \<and>
     video (ws c) = concat (map frame_messages (from_keyframe (frames es))) \<and>
     (videoStarted c \<longleftrightarrow> (\<exists>f \<in> set (frames es). cKeyframe f)) \<and>
     length (web_shells c) = length shs \<and> length (pumps c) = length shs \<and>
     (\<forall>p. web_shell c = Some p \<or> Receiving p \<in> set (pumps c) \<longrightarrow> p < length shs) \<and>
     (\<exists>ms. texts (ws c) = map enc ms \<and> lines_of ''kernlog'' ms = log_lines es \<and>
       seen_ok shs (lines_of ''shell-data'' ms) (pumps c) (web_shells c))"

lemma client_inv_new: "client_inv enc [] [] (NewClient (\<lambda>m. Inr (enc m)) new_sink)"
proof -
  have "no_fail (new_sink :: ws_msg sink)" by (simp add: no_fail_def new_sink_def)
  then show ?thesis
    by (simp add: NewClient_def SendMsg_ok client_inv_def video_def texts_def no_fail_def new_sink_def from_keyframe_def)
      (rule exI[of _ "[\<lparr>OutType = ''log'', OutLine = Some ''Connected''\<rparr>]"], simp)
qed

lemma client_inv_frame:
  assumes "client_inv enc es shs c"
  shows "client_inv enc (es @ [FrameEv f]) shs (snd (ProcessFrame f c))"
  using assms unfolding client_inv_def
  by (cases "\<exists>f \<in> set (frames es). cKeyframe f") (auto simp: ProcessFrame_ok no_fail_def from_keyframe_snoc)

lemma client_inv_line:
  assumes "client_inv enc es shs c"
  shows "client_inv enc (es @ [LineEv l]) shs (snd (ProcessSysLog (\<lambda>m. Inr (enc m)) l c))"
proof -
  let ?m = "\<lparr>OutType = ''kernlog'', OutLine = Some l\<rparr>"
  obtain ms where ms: "texts (ws c) = map enc ms" "lines_of ''kernlog'' ms = log_lines es"
    "seen_ok shs (lines_of ''shell-data'' ms) (pumps c) (web_shells c)"
    using assms by (auto simp: client_inv_def)
  have "snd (ProcessSysLog (\<lambda>m. Inr (enc m)) l c) = add_sent [TextMessage (enc ?m)] c"
    using assms by (simp add: client_inv_def ProcessSysLog_ok)
  then show ?thesis
    using assms ms unfolding client_inv_def
    by (auto simp: no_fail_def intro!: exI[of _ "ms @ [?m]"])
qed

text \<open>A shell is opened for a message, or the client's shells stay as they are but for what is sent on.\<close>

lemma Open_shell:
  "AgentClient.OpenShell (Inr opened) req = Ok sh \<Longrightarrow> \<not> shell_exited sh"
  by (auto simp: AgentClient.OpenShell_def ShellClient.Open_def split: prod.splits res.splits)

lemma seen_ok_open:
  assumes "seen_ok shs seen gs cur" "length gs = length shs" "length cur = length shs" "\<not> shell_exited sh"
  shows "seen_ok (shs @ [sh]) seen (gs @ [AtHead]) (cur @ [sh])"
proof (cases shs)
  case Nil
  then show ?thesis using assms by simp
next
  case (Cons a rest)
  then show ?thesis by (cases rest) simp_all
qed

lemma seen_ok_input:
  assumes "seen_ok shs seen gs cur" "p < length cur" "length cur = length shs"
    "shell_in sh = shell_in (cur ! p)" "shell_exited sh = shell_exited (cur ! p)"
  shows "seen_ok shs seen gs (cur[p := sh])"
proof (cases shs)
  case (Cons a rest)
  show ?thesis
  proof (cases rest)
    case Nil
    then have "p = 0" using assms(2,3) Cons by simp
    then show ?thesis using assms Cons Nil by (cases "gs ! 0") auto
  qed (use Cons in simp)
qed (use assms in simp)

lemma client_inv_same:
  assumes "client_inv enc es shs c" "ws c' = ws c" "videoStarted c' = videoStarted c" "web_shells c' = web_shells c"
    "pumps c' = pumps c" "web_shell c' = web_shell c \<or> web_shell c' = None"
  shows "client_inv enc es shs c'"
  using assms unfolding client_inv_def by (elim disjE) simp_all

lemma client_inv_shells:
  assumes "client_inv enc es shs c" "ws c' = ws c" "videoStarted c' = videoStarted c"
    "length (web_shells c') = length shs'" "length (pumps c') = length shs'"
    "\<And>p. web_shell c' = Some p \<or> Receiving p \<in> set (pumps c') \<Longrightarrow> p < length shs'"
    "\<And>seen. seen_ok shs seen (pumps c) (web_shells c) \<Longrightarrow> seen_ok shs' seen (pumps c') (web_shells c')"
  shows "client_inv enc es shs' c'"
  using assms unfolding client_inv_def by auto

lemma client_invD:
  assumes "client_inv enc es shs c"
  shows "length (web_shells c) = length shs" "length (pumps c) = length shs" "no_fail (ws c)"
    "web_shell c = Some p \<Longrightarrow> p < length shs" "Receiving p \<in> set (pumps c) \<Longrightarrow> p < length shs"
  using assms by (auto simp: client_inv_def)

lemma client_inv_ask: "client_inv enc es shs c \<Longrightarrow> client_inv enc es shs (snd (ask svc call c))"
  by (rule client_inv_same[of enc es shs c]) (simp_all add: ask_def)

lemma client_inv_handle:
  assumes inv: "client_inv enc es shs c"
    and new: "new = (if InType msg = ''open-shell'' \<and> svc (CallOpenShell demo_shell_request) = None then
             (case AgentClient.OpenShell (Inr opened) demo_shell_request of Ok sh \<Rightarrow> [sh] | _ \<Rightarrow> []) else [])"
  shows "client_inv enc es (shs @ new) (snd (handle_message svc opened msg c))"
proof -
  note D = client_invD[OF inv]
  have quiet: "client_inv enc es shs ((snd (ask svc call c))\<lparr>web_shell := None\<rparr>)" for call
    by (rule client_inv_same[OF client_inv_ask[OF inv, of svc call]]) simp_all
  consider (open_shell) "InType msg = ''open-shell''" | (data) "InType msg = ''shell-data''"
    | (other) "InType msg \<noteq> ''open-shell''" "InType msg \<noteq> ''shell-data''" by blast
  then show ?thesis
  proof cases
    case open_shell
    show ?thesis
    proof (cases "svc (CallOpenShell demo_shell_request)")
      case None
      show ?thesis
      proof (cases "AgentClient.OpenShell (Inr opened) demo_shell_request")
        case (Ok sh)
        let ?c = "snd (handle_message svc opened msg c)"
        have c: "ws ?c = ws c" "videoStarted ?c = videoStarted c" "web_shells ?c = web_shells c @ [sh]"
          "web_shell ?c = Some (length (web_shells c))" "pumps ?c = pumps c @ [AtHead]"
          using open_shell None Ok by (simp_all add: handle_message_def ask_def)
        have "client_inv enc es (shs @ [sh]) ?c"
        proof (rule client_inv_shells[OF inv c(1,2)])
          show "seen_ok (shs @ [sh]) seen (pumps ?c) (web_shells ?c)" if "seen_ok shs seen (pumps c) (web_shells c)" for seen
            unfolding c by (rule seen_ok_open[OF that D(2,1) Open_shell[OF Ok]])
          show "p < length (shs @ [sh])" if "web_shell ?c = Some p \<or> Receiving p \<in> set (pumps ?c)" for p
            using that D(1) D(5)[of p] by (auto simp: c)
        qed (simp_all add: c D)
        then show ?thesis using open_shell None Ok new by simp
      next
        case (Err e)
        then have "snd (handle_message svc opened msg c) = (snd (ask svc (CallOpenShell demo_shell_request) c))\<lparr>web_shell := None\<rparr>" "new = []"
          using open_shell None new by (simp_all add: handle_message_def ask_def)
        then show ?thesis using quiet by simp
      next
        case (Panic q)
        then have "snd (handle_message svc opened msg c) = snd (ask svc (CallOpenShell demo_shell_request) c)" "new = []"
          using open_shell None new by (simp_all add: handle_message_def ask_def)
        then show ?thesis using client_inv_ask[OF inv] by simp
      qed
    next
      case (Some e)
      then have "snd (handle_message svc opened msg c) = (snd (ask svc (CallOpenShell demo_shell_request) c))\<lparr>web_shell := None\<rparr>" "new = []"
        using open_shell new by (simp_all add: handle_message_def ask_def)
      then show ?thesis using quiet by simp
    qed
  next
    case data
    show ?thesis
    proof (cases "\<exists>p line. web_shell c = Some p \<and> InLine msg = Some line")
      case True
      then obtain p line where p: "web_shell c = Some p" "InLine msg = Some line" by blast
      obtain r sh where s: "ShellClient.SendInput (of_str line) (web_shells c ! p) = (r, sh)" by fastforce
      then have sh: "shell_in sh = shell_in (web_shells c ! p)" "shell_exited sh = shell_exited (web_shells c ! p)"
        by (auto simp: ShellClient.SendInput_def shell_send_def map_prod_def split: prod.splits)
      have c: "snd (handle_message svc opened msg c) = c\<lparr>web_shells := (web_shells c)[p := sh]\<rparr>"
        using data p s by (simp add: handle_message_def)
      have "client_inv enc es shs (c\<lparr>web_shells := (web_shells c)[p := sh]\<rparr>)"
        using D p(1) sh by (intro client_inv_shells[OF inv]) (auto intro: seen_ok_input)
      then show ?thesis using data new c by simp
    next
      case False
      then have "snd (handle_message svc opened msg c) = c" using data by (auto simp: handle_message_def split: option.splits)
      then show ?thesis using data new inv by simp
    qed
  next
    case other
    then have "snd (handle_message svc opened msg c) = c \<or> (\<exists>call. snd (handle_message svc opened msg c) = snd (ask svc call c))"
      by (auto simp: handle_message_def split: option.splits)
    then show ?thesis using other new inv client_inv_ask[OF inv] by auto
  qed
qed

lemma client_inv_message:
  assumes "client_inv enc es shs c"
  shows "client_inv enc es (shs @ opens_shell unmarshal inp svc opened) (snd (message_turn unmarshal svc opened inp c))"
proof (cases "ReadMessage inp")
  case (Ok data)
  then show ?thesis
    using assms client_inv_handle[OF assms refl, of _ svc opened]
    by (cases "unmarshal data") (auto simp: message_turn_def opens_shell_def)
qed (use assms in \<open>simp_all add: message_turn_def opens_shell_def\<close>)

text \<open>A step of a goroutine.\<close>

lemma Recv_outputs:
  assumes "ShellClient.Recv sh = (r, sh')" "\<not> shell_exited sh"
  shows "case r of Ok (Some out) \<Rightarrow> outputs (msgs (shell_in sh)) = to_str (OutputData out) # outputs (msgs (shell_in sh')) \<and> \<not> shell_exited sh'
    | Panic q \<Rightarrow> True | _ \<Rightarrow> outputs (msgs (shell_in sh)) = []"
  using assms
  by (auto simp: ShellClient.Recv_def grpc_recv_def ShellResponse_GetMessage_def Let_def
      split: list.splits option.splits ShellResponse_Message.splits)

lemma seen_ok_pump:
  assumes "seen_ok shs seen gs cur" "g < length gs" "length gs = length shs"
    and "\<And>sh0. shs = [sh0] \<Longrightarrow> pump_ok (outputs (msgs (shell_in sh0))) seen (gs ! 0) (cur ! 0) \<Longrightarrow>
      pump_ok (outputs (msgs (shell_in sh0))) seen' x (cur' ! 0)"
  shows "seen_ok shs seen' (gs[g := x]) cur'"
proof (cases shs)
  case (Cons a rest)
  then show ?thesis using assms by (cases rest) auto
qed (use assms in simp)

lemma client_inv_pump:
  assumes inv: "client_inv enc es shs c" and g: "g < length (pumps c)"
    and alive: "\<not> is_panic (fst (pump_step (\<lambda>m. Inr (enc m)) g c))"
  shows "client_inv enc es shs (snd (pump_step (\<lambda>m. Inr (enc m)) g c))"
proof -
  note D = client_invD[OF inv]
  have gs: "Receiving p \<in> set ((pumps c)[g := x]) \<Longrightarrow> x = Receiving p \<or> Receiving p \<in> set (pumps c)" for p x
    using set_update_subset_insert[of "pumps c" g x] by auto
  have one: "g = 0" if "shs = [sh0]" for sh0 using g D(2) that by simp
  show ?thesis
  proof (cases "pumps c ! g")
    case AtHead
    show ?thesis
    proof (cases "web_shell c")
      case (Some p)
      have "client_inv enc es shs (c\<lparr>pumps := (pumps c)[g := Receiving p]\<rparr>)"
      proof (rule client_inv_shells[OF inv])
        show "seen_ok shs seen (pumps (c\<lparr>pumps := (pumps c)[g := Receiving p]\<rparr>)) (web_shells (c\<lparr>pumps := (pumps c)[g := Receiving p]\<rparr>))"
          if "seen_ok shs seen (pumps c) (web_shells c)" for seen
          using seen_ok_pump[OF that g D(2), of seen "Receiving p" "web_shells c"] AtHead one by fastforce
      qed (use D Some in \<open>auto dest!: gs\<close>)
      then show ?thesis using AtHead Some by (simp add: pump_step_def)
    qed (use AtHead inv in \<open>simp add: pump_step_def\<close>)
  next
    case (Receiving p)
    then have p: "p < length shs" using D(5) g nth_mem by metis
    obtain r sh where R: "ShellClient.Recv (web_shells c ! p) = (r, sh)" by fastforce
    have np: "\<not> is_panic r" using alive Receiving R by (auto simp: pump_step_def split: res.splits)
    let ?x = "case r of Ok (Some out) \<Rightarrow> Forwarding out | _ \<Rightarrow> PumpOver"
    let ?c = "c\<lparr>web_shells := (web_shells c)[p := sh], pumps := (pumps c)[g := ?x]\<rparr>"
    have "client_inv enc es shs ?c"
    proof (rule client_inv_shells[OF inv])
      show "seen_ok shs seen (pumps ?c) (web_shells ?c)" if s: "seen_ok shs seen (pumps c) (web_shells c)" for seen
      proof -
        have "pump_ok out seen ?x sh" if "pump_ok out seen (Receiving p) (web_shells c ! p)" for out
          using that Recv_outputs[OF R] np by (auto split: res.splits option.splits)
        then show ?thesis
          using seen_ok_pump[OF s g D(2), of seen ?x "(web_shells c)[p := sh]"] one p D(1) Receiving by force
      qed
    qed (use D in \<open>auto dest!: gs split: res.splits option.splits\<close>)
    moreover have "snd (pump_step (\<lambda>m. Inr (enc m)) g c) = ?c"
      using Receiving R np by (auto simp: pump_step_def split: res.splits option.splits)
    ultimately show ?thesis by simp
  next
    case (Forwarding out)
    let ?m = "\<lparr>OutType = ''shell-data'', OutLine = Some (to_str (OutputData out))\<rparr>"
    let ?c = "(add_sent [TextMessage (enc ?m)] c)\<lparr>pumps := (pumps c)[g := AtHead]\<rparr>"
    obtain ms where ms: "texts (ws c) = map enc ms" "lines_of ''kernlog'' ms = log_lines es"
      "seen_ok shs (lines_of ''shell-data'' ms) (pumps c) (web_shells c)"
      using inv by (auto simp: client_inv_def)
    have "seen_ok shs (lines_of ''shell-data'' (ms @ [?m])) (pumps ?c) (web_shells ?c)"
      using seen_ok_pump[OF ms(3) g D(2), of "lines_of ''shell-data'' (ms @ [?m])" AtHead "web_shells c"] one Forwarding by force
    then have "client_inv enc es shs ?c"
      using inv ms(1,2) unfolding client_inv_def
      by (auto simp: no_fail_def dest!: gs intro!: exI[of _ "ms @ [?m]"])
    then show ?thesis using Forwarding D(3) by (simp add: pump_step_def SendMsg_ok)
  next
    case PumpOver
    then show ?thesis using inv by (simp add: pump_step_def)
  qed
qed

subsection \<open>Every execution\<close>

lemma client_inv_events:
  "client_inv enc es shs c \<Longrightarrow> frames es' = frames es \<Longrightarrow> log_lines es' = log_lines es \<Longrightarrow> client_inv enc es' shs c"
  by (simp add: client_inv_def)

lemma opens_shell_panic: "is_panic (fst (message_turn unmarshal svc opened inp c)) \<Longrightarrow> opens_shell unmarshal inp svc opened = []"
  by (auto simp: message_turn_def opens_shell_def handle_message_def ask_def
      split: res.splits sum.splits option.splits if_splits)

definition demo_inv :: "(ClientOutMsg \<Rightarrow> byte list) \<Rightarrow> (byte list \<Rightarrow> goerr + ClientInMsg) \<Rightarrow> demo_event list \<Rightarrow> backend \<Rightarrow> bool" where
  "demo_inv enc unmarshal h w \<longleftrightarrow>
     length (demo_clients (demo w)) = length (joined h) \<and>
     (\<forall>i \<ge> length (joined h). shells_of unmarshal i h = []) \<and>
     (\<forall>i < length (joined h). joined h ! i = new_sink \<longrightarrow>
        client_inv enc (since i h) (shells_of unmarshal i h) (demo_clients (demo w) ! i))"

text \<open>An event that is neither a frame nor a line and adds no client leaves the history of the clients alone.\<close>

lemma demo_inv_quiet:
  assumes inv: "demo_inv enc u h w" and e: "joined [e] = []" "frames [e] = []" "log_lines [e] = []"
    and len: "length (demo_clients (demo w')) = length (demo_clients (demo w))"
    and new: "\<And>i. \<not> i < length (demo_clients (demo w)) \<Longrightarrow> shells_of u i [e] = []"
    and step: "\<And>i. i < length (demo_clients (demo w)) \<Longrightarrow> client_inv enc (since i h) (shells_of u i h) (demo_clients (demo w) ! i) \<Longrightarrow>
      client_inv enc (since i h) (shells_of u i h @ shells_of u i [e]) (demo_clients (demo w') ! i)"
  shows "demo_inv enc u (h @ [e]) w'"
proof -
  have ev: "client_inv enc es shs c \<Longrightarrow> client_inv enc (es @ [e]) shs c" for es shs c
    by (erule client_inv_events) (simp_all add: e)
  show ?thesis using inv e(1) len new step unfolding demo_inv_def by (auto simp: since_snoc intro: ev)
qed

lemma demo_inv_show:
  assumes inv: "demo_inv enc u h w" and e: "joined [e] = []" "\<And>i. shells_of u i [e] = []"
    and cs: "demo_clients (demo w') = map (\<lambda>c. snd (f c)) (demo_clients (demo w))"
    and step: "\<And>es shs c. client_inv enc es shs c \<Longrightarrow> client_inv enc (es @ [e]) shs (snd (f c))"
  shows "demo_inv enc u (h @ [e]) w'"
  using assms unfolding demo_inv_def by (auto simp: since_snoc)

lemma demo_inv_step:
  assumes inv: "demo_inv enc unmarshal h w" and step: "demo_step (\<lambda>m. Inr (enc m)) unmarshal e w = Some w'"
  shows "demo_inv enc unmarshal (h @ [e]) w'"
proof (cases e)
  case (Join up)
  show ?thesis
  proof (cases up)
    case (Inl x)
    then have "w' = w" using step Join by (auto simp: on_clients_def wsEndpoint_def split: if_splits)
    then show ?thesis using demo_inv_quiet[OF inv, of e w'] Join Inl by simp
  next
    case (Inr s)
    have cs: "demo_clients (demo w') = demo_clients (demo w) @ [NewClient (\<lambda>m. Inr (enc m)) s]"
      using step Join Inr by (auto simp: on_clients_def wsEndpoint_def split: if_splits)
    have old: "client_inv enc (since i h @ [e]) (shells_of unmarshal i h) (demo_clients (demo w) ! i)"
      if "i < length (joined h)" "joined h ! i = new_sink" for i
      using inv that Join unfolding demo_inv_def by (auto intro: client_inv_events)
    show ?thesis
      using inv cs old client_inv_new[of enc] Join Inr
      unfolding demo_inv_def by (auto simp: nth_append since_snoc less_Suc_eq)
  qed
next
  case (FrameEv f)
  show ?thesis
    by (rule demo_inv_show[OF inv, of _ _ "ProcessFrame f"])
      (use step FrameEv client_inv_frame in \<open>auto simp: on_clients_def show_frame_def split: if_splits option.splits\<close>)
next
  case (LineEv l)
  show ?thesis
    by (rule demo_inv_show[OF inv, of _ _ "ProcessSysLog (\<lambda>m. Inr (enc m)) l"])
      (use step LineEv client_inv_line in \<open>auto simp: on_clients_def show_line_def split: if_splits option.splits\<close>)
next
  case (StreamEnd x)
  then have "demo w' = demo w" using step by (auto split: if_splits)
  then show ?thesis using demo_inv_quiet[OF inv, of e w'] StreamEnd by simp
next
  case (PumpEv i g)
  let ?c = "demo_clients (demo w) ! i" and ?p = "pump_step (\<lambda>m. Inr (enc m)) g (demo_clients (demo w) ! i)"
  have i: "i < length (demo_clients (demo w))" and g: "g < length (pumps ?c)"
    using step PumpEv by (auto split: if_splits)
  have w': "demo_clients (demo w') = (if is_panic (fst ?p) then demo_clients (demo w) else (demo_clients (demo w))[i := snd ?p])"
    using step PumpEv by (auto simp: on_client_def split: if_splits res.splits)
  show ?thesis
    by (rule demo_inv_quiet[OF inv])
      (use PumpEv i w' client_inv_pump[OF _ g, of enc] in \<open>auto simp: nth_list_update\<close>)
next
  case (MessageEv i inp svc opened)
  let ?c = "demo_clients (demo w) ! i" and ?p = "message_turn unmarshal svc opened inp (demo_clients (demo w) ! i)"
  let ?new = "opens_shell unmarshal inp svc opened"
  have i: "i < length (demo_clients (demo w))" using step MessageEv by (auto split: if_splits)
  obtain r c' where p: "?p = (r, c')" by fastforce
  have w': "demo_clients (demo w') = (if is_panic r then demo_clients (demo w)
      else (demo_clients (demo w))[i := (if is_ok r then c' else c'\<lparr>reading := False\<rparr>)])"
    using step MessageEv p by (auto simp: on_client_def split: if_splits res.splits)
  have turn: "client_inv enc es (shs @ ?new) (if is_ok r then c' else c'\<lparr>reading := False\<rparr>)" if "client_inv enc es shs ?c" for es shs
    using client_inv_message[OF that, of unmarshal inp svc opened] p
    by (auto intro: client_inv_same[of enc es "shs @ ?new" c'])
  have none: "is_panic r \<Longrightarrow> ?new = []" using opens_shell_panic[of unmarshal svc opened inp ?c] p by simp
  show ?thesis
    by (rule demo_inv_quiet[OF inv]) (use MessageEv i w' turn none in \<open>auto simp: nth_list_update\<close>)
qed

interpretation demo_sys: machine "demo_step (\<lambda>m. Inr (enc m)) unmarshal" "demo_begin c ds ls" "\<lambda>_. True" "demo_inv enc unmarshal"
  for enc unmarshal c ds ls
proof
  show "demo_inv enc unmarshal [] (demo_begin c ds ls)"
    by (simp add: demo_inv_def demo_begin_def NewBackend_def)
qed (auto intro: demo_inv_step)

text \<open>The frames and lines shown are those the client library receives.\<close>

definition got :: "('s \<Rightarrow> 'r res \<times> 's) \<Rightarrow> 's \<Rightarrow> 'r list \<Rightarrow> 's \<Rightarrow> bool" where
  "got recv s0 xs s \<longleftrightarrow> (\<forall>n. client_recvs recv (length xs + n) s0 = xs @ client_recvs recv n s)"

lemma got_nil: "got recv s [] s"
  by (simp add: got_def)

lemma got_snoc:
  assumes "got recv s0 xs s" "stream_next recv (Some s) (Ok x) = Some s'"
  shows "got recv s0 (xs @ [x]) s'"
proof -
  have "recv s = (Ok x, s')" using assms(2) by (auto simp: stream_next_def split: if_splits prod.splits)
  then have "client_recvs recv (Suc n) s = x # client_recvs recv n s'" for n by simp
  moreover have "client_recvs recv (length xs + Suc n) s0 = xs @ client_recvs recv (Suc n) s" for n
    using assms(1) unfolding got_def by blast
  ultimately show ?thesis by (simp add: got_def)
qed

lemma demo_streams:
  "exec (demo_step marshal unmarshal) es (demo_begin a ds ls) = Some w \<Longrightarrow>
   \<exists>s t. displayStream (demo w) = Some s \<and> got DisplayStream_Recv ds (frames es) s \<and>
     syslogStream (demo w) = Some t \<and> got SysLogStream_Recv ls (log_lines es) t"
proof (induction es arbitrary: w rule: rev_induct)
  case Nil
  then show ?case by (auto simp: demo_begin_def got_nil)
next
  case (snoc e es)
  then obtain w0 where w0: "exec (demo_step marshal unmarshal) es (demo_begin a ds ls) = Some w0"
    "demo_step marshal unmarshal e w0 = Some w"
    by (auto simp: exec_snoc_Some)
  from snoc.IH[OF w0(1)] obtain s t where st: "displayStream (demo w0) = Some s" "got DisplayStream_Recv ds (frames es) s"
    "syslogStream (demo w0) = Some t" "got SysLogStream_Recv ls (log_lines es) t" by blast
  show ?case
  proof (cases e)
    case (FrameEv f)
    then obtain s' where "stream_next DisplayStream_Recv (Some s) (Ok f) = Some s'" "displayStream (demo w) = Some s'"
      "syslogStream (demo w) = Some t"
      using w0(2) st by (auto simp: on_clients_def split: if_splits option.splits)
    with got_snoc[OF st(2)] st(4) FrameEv show ?thesis by simp
  next
    case (LineEv l)
    then obtain t' where "stream_next SysLogStream_Recv (Some t) (Ok l) = Some t'" "syslogStream (demo w) = Some t'"
      "displayStream (demo w) = Some s"
      using w0(2) st by (auto simp: on_clients_def split: if_splits option.splits)
    with got_snoc[OF st(4)] st(2) LineEv show ?thesis by simp
  qed (use w0(2) st in \<open>auto simp: on_clients_def on_client_def split: if_splits res.splits\<close>)
qed

lemma gotD: "got recv s0 xs s \<Longrightarrow> client_recvs recv (length xs) s0 = xs"
  unfolding got_def by (drule spec[of _ 0]) simp

subsection \<open>Properties\<close>

text \<open>C39: In every execution of the backend a web client whose connection works is shown the video from the first
  keyframe after it joined, every frame from there on, in order and unchanged, and every line of the log since it
  joined; of the one shell it has opened it is shown the output in order and, once the shell's goroutine is
  over, all of it. The frames and lines are those the client library receives from the agent. Encoding a message,
  which holds only strings, as JSON cannot fail.\<close>

theorem demo_view:
  assumes "exec (demo_step (\<lambda>m. Inr (enc m)) unmarshal) es (demo_begin a ds ls) = Some w"
    and "i < length (joined es)" "joined es ! i = new_sink"
  shows "client_recvs DisplayStream_Recv (length (frames es)) ds = frames es \<and>
    client_recvs SysLogStream_Recv (length (log_lines es)) ls = log_lines es \<and>
    video (ws (demo_clients (demo w) ! i)) = concat (map frame_messages (from_keyframe (frames (since i es)))) \<and>
    (\<exists>ms. texts (ws (demo_clients (demo w) ! i)) = map enc ms \<and> lines_of ''kernlog'' ms = log_lines (since i es) \<and>
      (shells_of unmarshal i es = [] \<longrightarrow> lines_of ''shell-data'' ms = []) \<and>
      (\<forall>sh. shells_of unmarshal i es = [sh] \<longrightarrow>
        prefix (lines_of ''shell-data'' ms) (outputs (msgs (shell_in sh))) \<and>
        (pumps (demo_clients (demo w) ! i) = [PumpOver] \<longrightarrow> lines_of ''shell-data'' ms = outputs (msgs (shell_in sh)))))"
proof -
  have "demo_inv enc unmarshal es w" by (rule demo_sys.inv_exec[OF TrueI assms(1)])
  then have C: "client_inv enc (since i es) (shells_of unmarshal i es) (demo_clients (demo w) ! i)"
    using assms(2,3) by (simp add: demo_inv_def)
  then obtain ms where ms: "texts (ws (demo_clients (demo w) ! i)) = map enc ms" "lines_of ''kernlog'' ms = log_lines (since i es)"
    "seen_ok (shells_of unmarshal i es) (lines_of ''shell-data'' ms) (pumps (demo_clients (demo w) ! i)) (web_shells (demo_clients (demo w) ! i))"
    by (auto simp: client_inv_def)
  have "prefix seen out" if "pump_ok out seen g sh" for out seen g sh
    using that by (cases g) auto
  then have shell: "prefix (lines_of ''shell-data'' ms) (outputs (msgs (shell_in sh))) \<and>
      (pumps (demo_clients (demo w) ! i) = [PumpOver] \<longrightarrow> lines_of ''shell-data'' ms = outputs (msgs (shell_in sh)))"
    if "shells_of unmarshal i es = [sh]" for sh
    using ms(3) that by auto
  obtain s t where "got DisplayStream_Recv ds (frames es) s" "got SysLogStream_Recv ls (log_lines es) t"
    using demo_streams[OF assms(1)] by blast
  then have streams: "client_recvs DisplayStream_Recv (length (frames es)) ds = frames es"
    "client_recvs SysLogStream_Recv (length (log_lines es)) ls = log_lines es"
    by (simp_all add: gotD)
  have "video (ws (demo_clients (demo w) ! i)) = concat (map frame_messages (from_keyframe (frames (since i es))))"
    using C by (simp add: client_inv_def)
  moreover have "lines_of ''shell-data'' ms = []" if "shells_of unmarshal i es = []"
    using ms(3) that by simp
  ultimately show ?thesis using streams ms(1,2) shell by blast
qed

definition view_example :: "demo_event list" where
  "view_example = (let out = ShellResponse_Output (Some \<lparr>ShellOutputResponse_Channel = 0, ShellOutputResponse_Data = [104, 105]\<rparr>);
       f = (\<lambda>k b. \<lparr>cKeyframe = k, cWidth = 2, cHeight = 2, cData = [b]\<rparr>)
     in [Join (Inr new_sink), FrameEv (f False 7),
         MessageEv 0 (WsData []) (\<lambda>_. None) (\<lparr>msgs = [\<lparr>ShellResponse_Message = Some out\<rparr>], rend = EOF\<rparr>, new_sink),
         PumpEv 0 0, PumpEv 0 0, LineEv ''boot'', FrameEv (f True 8), PumpEv 0 0, PumpEv 0 0, PumpEv 0 0])"

definition view_run :: "backend option" where
  "view_run = (let f = (\<lambda>k b. \<lparr>DisplayFrame_Keyframe = k, DisplayFrame_Width = 2, DisplayFrame_Height = 2, DisplayFrame_Data = [b]\<rparr>)
     in exec (demo_step (\<lambda>m. Inr (of_str (OutType m)))
       (\<lambda>_. Inr \<lparr>InType = ''open-shell'', InLine = None, InTouch = None, InPower = None\<rparr>)) view_example
       (demo_begin \<lparr>conn_addr = '':8080'', conn_open = True\<rparr> \<lparr>msgs = [f False 7, f True 8], rend = EOF\<rparr>
         \<lparr>msgs = [\<lparr>SysLogEntry_Line = ''boot''\<rparr>], rend = EOF\<rparr>))"

theorem demo_view_witness:
  "case view_run of None \<Rightarrow> False | Some w \<Rightarrow>
     video (ws (demo_clients (demo w) ! 0)) = [BinaryMessage [1], BinaryMessage [2, 1, 8]] \<and>
     (\<exists>ms. texts (ws (demo_clients (demo w) ! 0)) = map (\<lambda>m. of_str (OutType m)) ms \<and>
       lines_of ''kernlog'' ms = [''boot''] \<and> lines_of ''shell-data'' ms = [''hi''])"
proof -
  have run: "view_run \<noteq> None" "map pumps (demo_clients (demo (the view_run))) = [[PumpOver]]" by code_simp+
  have es: "joined view_example = [new_sink]"
    "concat (map frame_messages (from_keyframe (frames (since 0 view_example)))) = [BinaryMessage [1], BinaryMessage [2, 1, 8]]"
    "log_lines (since 0 view_example) = [''boot'']"
    "map (\<lambda>sh. outputs (msgs (shell_in sh)))
       (shells_of (\<lambda>_. Inr \<lparr>InType = ''open-shell'', InLine = None, InTouch = None, InPower = None\<rparr>) 0 view_example) = [[''hi'']]"
    by code_simp+
  obtain w where w: "view_run = Some w" using run(1) by auto
  from es(4) obtain sh where sh: "outputs (msgs (shell_in sh)) = [''hi'']"
    "shells_of (\<lambda>_. Inr \<lparr>InType = ''open-shell'', InLine = None, InTouch = None, InPower = None\<rparr>) 0 view_example = [sh]"
    by (auto simp: map_eq_Cons_conv)
  have "pumps (demo_clients (demo w) ! 0) = [PumpOver]" using run(2) unfolding w by auto
  then show ?thesis
    unfolding w option.case using demo_view[OF w[unfolded view_run_def Let_def], of 0] es(1-3) sh by auto
qed

end
