(* ===== verification/Repository.thy ===== *)
theory Repository
  imports RawConn "HOL-Library.Sublist"
begin

text \<open>
  \<^verbatim>\<open>builder/repository\<close>: the manifest of the SDK repository and the download of an archive from it. The
  network's and the file system's answers are given; so are the digest and the parser of the
  manifest, as functions. The file system is the map from paths to contents.
\<close>

subsection \<open>format.go\<close>

record TypeDetail =
  DetailId :: string
  DetailDisplay :: string

record TypeDetails =
  ApiLevel :: string
  Tag :: TypeDetail
  Vendor :: TypeDetail
  Abi :: string

record Revision =
  Major :: int

record ChannelRef =
  Ref :: string

record ArchiveComplete =
  CompleteSize :: int
  Checksum :: string
  Url :: string

record Archive =
  HostOs :: string
  HostArch :: string
  Complete :: ArchiveComplete

record Archives =
  ArchiveList :: "Archive list"

record RemotePackage =
  PkgPath :: string
  DisplayName :: string
  PkgRevision :: Revision
  Details :: TypeDetails
  Channel :: ChannelRef
  PkgArchives :: Archives

record Manifest =
  RemotePackages :: "RemotePackage list"

subsection \<open>HTTP\<close>

text \<open>A response: its status, the chunks of its body and the error after them, \<open>EOF\<close> at the end.\<close>

record response =
  StatusCode :: nat
  body :: "byte list list"
  body_end :: goerr

subsection \<open>repository.go\<close>

definition GetManifest :: "(byte list \<Rightarrow> goerr + Manifest) \<Rightarrow> goerr + response \<Rightarrow> Manifest res" where
  "GetManifest unmarshal resp = (case resp of
     Inl e \<Rightarrow> Err (NewError (''GET error: '' @ err_string e))
   | Inr r \<Rightarrow>
      (if StatusCode r \<noteq> 200 then Err (NewError (''status error: '' @ fmt_d (StatusCode r)))
       else if body_end r \<noteq> EOF then Err (NewError (''read body: '' @ err_string (body_end r)))
       else case unmarshal (concat (body r)) of
         Inl e \<Rightarrow> Err e
       | Inr manifest \<Rightarrow> Ok manifest))"

subsection \<open>download.go\<close>

text \<open>\<^verbatim>\<open>%x\<close> of a byte slice.\<close>

definition hex_byte :: "byte \<Rightarrow> string" where
  "hex_byte b = [digit_char (unat b div 16), digit_char (unat b mod 16)]"

definition fmt_x :: "byte list \<Rightarrow> string" where
  "fmt_x bs = concat (map hex_byte bs)"

record dl_env =
  stat_fail :: "goerr option"
  open_fail :: "goerr option"
  read_fail :: "goerr option"
  create_fail :: "goerr option"
  http :: "goerr + response"
  file_writes :: "wres list"
  bar_writes :: "goerr option list"
  rename_fail :: "goerr option"

type_synonym fs = "string \<rightharpoonup> byte list"

text \<open>
  \<^verbatim>\<open>io.Copy\<close> into the file, the progress bar and the hash, in this order: it stops at the first of them that
  fails. The result is what the file holds and what the hash has seen.
\<close>

fun copy_loop :: "byte list list \<Rightarrow> wres list \<Rightarrow> goerr option list \<Rightarrow> byte list \<times> byte list \<Rightarrow> byte list \<times> byte list" where
  "copy_loop [] ws bs (file, hashed) = (file, hashed)"
| "copy_loop (ch # chs) (WFail n e # ws) bs (file, hashed) = (file @ take n ch, hashed)"
| "copy_loop (ch # chs) (WShort n # ws) bs (file, hashed) =
     (if n < length ch then (file @ take n ch, hashed)
      else (case bs of
         Some e # bs \<Rightarrow> (file @ ch, hashed)
       | _ \<Rightarrow> copy_loop chs ws (tl bs) (file @ ch, hashed @ ch)))"
| "copy_loop (ch # chs) ws bs (file, hashed) =
     (case bs of
        Some e # bs \<Rightarrow> (file @ ch, hashed)
      | _ \<Rightarrow> copy_loop chs (tl ws) (tl bs) (file @ ch, hashed @ ch))"

definition tmp_path :: "string \<Rightarrow> string" where
  "tmp_path path = path @ ''.tmp''"

text \<open>The part after the check of an existing file.\<close>

definition fetch :: "(byte list \<Rightarrow> byte list) \<Rightarrow> dl_env \<Rightarrow> string \<Rightarrow> string \<Rightarrow> fs \<Rightarrow> unit res \<times> fs" where
  "fetch sha1 env path hash fs = (case create_fail env of
     Some e \<Rightarrow> (Err e, fs)
   | None \<Rightarrow>
      (let fs = fs(tmp_path path \<mapsto> [])
       in case http env of
         Inl e \<Rightarrow> (Err e, fs)
       | Inr resp \<Rightarrow>
          (let r = copy_loop (body resp) (file_writes env) (bar_writes env) ([], []);
               fs = fs(tmp_path path \<mapsto> fst r)
           in if fmt_x (sha1 (snd r)) \<noteq> hash then (Err (NewError ''download hash mismatch''), fs)
              else case rename_fail env of
                Some e \<Rightarrow> (Err e, fs)
              | None \<Rightarrow> (Ok (), (fs(path \<mapsto> fst r))(tmp_path path := None)))))"

definition DownloadArchive ::
  "(byte list \<Rightarrow> byte list) \<Rightarrow> dl_env \<Rightarrow> string \<Rightarrow> string \<Rightarrow> fs \<Rightarrow> unit res \<times> fs" where
  "DownloadArchive sha1 env path hash fs =
     (case stat_fail env of
        Some e \<Rightarrow> (Err e, fs)
      | None \<Rightarrow>
         (case fs path of
            None \<Rightarrow> fetch sha1 env path hash fs
          | Some content \<Rightarrow>
             (case open_fail env of
                Some e \<Rightarrow> (Panic (LogFatal e), fs)
              | None \<Rightarrow>
                 (case read_fail env of
                    Some e \<Rightarrow> (Err e, fs)
                  | None \<Rightarrow>
                     (if fmt_x (sha1 content) = hash then (Ok (), fs)
                      else fetch sha1 env path hash fs)))))"

subsection \<open>What a download leaves behind\<close>

lemma copy_loop_whole:
  "\<forall>w \<in> set ws. w = WFull \<Longrightarrow> \<forall>b \<in> set bs. b = None \<Longrightarrow>
   copy_loop chs ws bs (f, h) = (f @ concat chs, h @ concat chs)"
proof (induction chs arbitrary: ws bs f h)
  case (Cons ch chs)
  have w: "\<forall>w \<in> set (tl ws). w = WFull" using Cons.prems(1) by (cases ws) auto
  have b: "\<forall>b \<in> set (tl bs). b = None" using Cons.prems(2) by (cases bs) auto
  have "copy_loop (ch # chs) ws bs (f, h) = copy_loop chs (tl ws) (tl bs) (f @ ch, h @ ch)"
    using Cons.prems by (cases ws; cases bs) (auto split: wres.splits)
  then show ?case using Cons.IH[OF w b] by simp
qed simp

lemma tmp_path_other [simp]: "tmp_path path \<noteq> path" "path \<noteq> tmp_path path"
  by (simp_all add: tmp_path_def)

text \<open>However the copy ends, the file holds what the hash has seen and perhaps more of what was received.\<close>

lemma copy_loop_ahead:
  "copy_loop chs ws bs (f, h) = (f', h') \<Longrightarrow>
   \<exists>good extra. h' = h @ good \<and> f' = f @ good @ extra \<and> prefix (good @ extra) (concat chs)"
proof (induction chs arbitrary: ws bs f h)
  case (Cons ch chs)
  have stop: ?case if "f' = f @ take n ch" "h' = h" for n
    using that by (intro exI[of _ "[]"] exI[of _ "take n ch"]) (simp add: take_is_prefix prefix_prefix)
  have go: ?case if rest: "copy_loop chs ws' bs' (f @ ch, h @ ch) = (f', h')" for ws' bs'
  proof -
    obtain good extra where "h' = (h @ ch) @ good" "f' = (f @ ch) @ good @ extra" "prefix (good @ extra) (concat chs)"
      using Cons.IH[OF rest] by blast
    then show ?thesis by (intro exI[of _ "ch @ good"] exI[of _ extra]) simp
  qed
  have bar: "f' = f @ ch \<and> h' = h \<or> (\<exists>ws' bs'. copy_loop chs ws' bs' (f @ ch, h @ ch) = (f', h'))"
    if "(case bs of Some e # bs \<Rightarrow> (f @ ch, h) | _ \<Rightarrow> copy_loop chs us (tl bs) (f @ ch, h @ ch)) = (f', h')" for us
    using that by (auto split: list.splits option.splits)
  have "(\<exists>n. f' = f @ take n ch \<and> h' = h) \<or> f' = f @ ch \<and> h' = h \<or>
      (\<exists>ws' bs'. copy_loop chs ws' bs' (f @ ch, h @ ch) = (f', h'))"
  proof (cases ws)
    case Nil
    then show ?thesis using Cons.prems bar[of "tl []"] by simp
  next
    case (Cons w us)
    then show ?thesis using \<open>copy_loop (ch # chs) ws bs (f, h) = (f', h')\<close> bar[of us] bar[of "tl (WFull # us)"]
      by (cases w) (simp_all split: if_splits, blast+)
  qed
  then show ?case using stop stop[of "length ch"] go by auto
qed simp

text \<open>All that is written to the file and to the progress bar is taken.\<close>

definition writes_fine :: "dl_env \<Rightarrow> bool" where
  "writes_fine env \<longleftrightarrow> (\<forall>w \<in> set (file_writes env). w = WFull) \<and> (\<forall>b \<in> set (bar_writes env). b = None)"

definition received :: "dl_env \<Rightarrow> byte list \<Rightarrow> bool" where
  "received env content \<longleftrightarrow> (\<exists>resp. http env = Inr resp \<and> prefix content (concat (body resp)))"

definition verified :: "(byte list \<Rightarrow> byte list) \<Rightarrow> dl_env \<Rightarrow> string \<Rightarrow> string \<Rightarrow> fs \<Rightarrow> fs \<Rightarrow> bool" where
  "verified sha1 env path hash fs fs' \<longleftrightarrow> (\<exists>good extra. fs' path = Some (good @ extra) \<and> fmt_x (sha1 good) = hash \<and>
     (writes_fine env \<longrightarrow> extra = []) \<and> (fs' = fs \<and> extra = [] \<or> received env (good @ extra)))"

lemma fetch_effect:
  assumes "fetch sha1 env path hash fs = (r, fs')"
  shows "(if r = Ok () then verified sha1 env path hash fs fs' else fs' path = fs path) \<and>
    (\<forall>p. p \<noteq> path \<and> p \<noteq> tmp_path path \<longrightarrow> fs' p = fs p)"
proof (cases "r = Ok ()")
  case True
  then obtain resp where h: "http env = Inr resp"
    using assms by (auto simp: fetch_def Let_def split: option.splits sum.splits if_splits)
  obtain f h' where c: "copy_loop (body resp) (file_writes env) (bar_writes env) ([], []) = (f, h')" by fastforce
  obtain good extra where e: "h' = good" "f = good @ extra" "prefix (good @ extra) (concat (body resp))"
    using copy_loop_ahead[OF c] by auto
  have fine: "writes_fine env \<Longrightarrow> extra = []"
    using copy_loop_whole[of "file_writes env" "bar_writes env" "body resp" "[]" "[]"] c e by (simp add: writes_fine_def)
  have "fmt_x (sha1 good) = hash" "fs' = (fs(tmp_path path \<mapsto> []))(tmp_path path \<mapsto> good @ extra, path \<mapsto> good @ extra, tmp_path path := None)"
    using assms True h c e by (auto simp: fetch_def Let_def split: option.splits if_splits)
  then show ?thesis
    using True e(3) fine h unfolding verified_def received_def by (intro conjI) auto
next
  case False
  then show ?thesis
    using assms by (auto simp: fetch_def Let_def split: option.splits sum.splits if_splits)
qed

lemma download_effect:
  assumes "DownloadArchive sha1 env path hash fs = (r, fs')"
  shows "(if r = Ok () then verified sha1 env path hash fs fs' else fs' path = fs path) \<and>
    (\<forall>p. p \<noteq> path \<and> p \<noteq> tmp_path path \<longrightarrow> fs' p = fs p)"
proof (cases "stat_fail env = None \<and> (fs path = None \<or> open_fail env = None \<and> read_fail env = None \<and> fmt_x (sha1 (the (fs path))) \<noteq> hash)")
  case True
  then have "fetch sha1 env path hash fs = (r, fs')"
    using assms(1) by (auto simp: DownloadArchive_def split: option.splits if_splits)
  then show ?thesis by (rule fetch_effect)
next
  case False
  then show ?thesis
    using assms by (auto simp: DownloadArchive_def verified_def split: option.splits if_splits)
qed

subsection \<open>Properties\<close>

text \<open>C35: A download that reports success leaves at the destination the contents that were there, if they have the
  digest asked for, or else bytes received that begin with bytes of that digest. Nothing follows these if every
  write to the file and to the progress bar succeeds, so that the contents have the digest; if a write fails, more of
  what was received may follow, because the error of the copy is ignored. A download
  that reports an error leaves the destination as it was, and none touches a file other than the destination and
  its temporary neighbour.\<close>

theorem download_verified:
  assumes "DownloadArchive sha1 env path hash fs = (r, fs')"
  shows "(if r = Ok () then
       \<exists>good extra. fs' path = Some (good @ extra) \<and> fmt_x (sha1 good) = hash \<and>
         ((\<forall>w \<in> set (file_writes env). w = WFull) \<and> (\<forall>b \<in> set (bar_writes env). b = None) \<longrightarrow> extra = []) \<and>
         (fs' = fs \<and> extra = [] \<or> (\<exists>resp. http env = Inr resp \<and> prefix (good @ extra) (concat (body resp))))
      else fs' path = fs path) \<and> (\<forall>p. p \<noteq> path \<and> p \<noteq> tmp_path path \<longrightarrow> fs' p = fs p)"
  using download_effect[OF assms] unfolding verified_def writes_fine_def received_def .

definition demo_env :: dl_env where
  "demo_env = \<lparr>stat_fail = None, open_fail = None, read_fail = None, create_fail = None,
     http = Inr \<lparr>StatusCode = 200, body = [[1], [2, 3]], body_end = EOF\<rparr>,
     file_writes = [], bar_writes = [], rename_fail = None\<rparr>"

theorem download_verified_witness:
  "(\<exists>content. (snd (DownloadArchive (\<lambda>b. b) demo_env ''out'' ''010203'' (\<lambda>_. None))) ''out'' = Some content \<and>
      fmt_x content = ''010203'') \<and>
   (snd (DownloadArchive (\<lambda>b. b) (demo_env\<lparr>file_writes := [WFull, WFail 1 EOF]\<rparr>) ''out'' ''010203'' (\<lambda>_. None))) ''out'' = None"
proof -
  let ?bad = "demo_env\<lparr>file_writes := [WFull, WFail 1 EOF]\<rparr>"
  have "fst (DownloadArchive (\<lambda>b. b) demo_env ''out'' ''010203'' (\<lambda>_. None)) = Ok ()"
    "fst (DownloadArchive (\<lambda>b. b) ?bad ''out'' ''010203'' (\<lambda>_. None)) \<noteq> Ok ()"
    by code_simp+
  then obtain fs' r fs'' where f: "DownloadArchive (\<lambda>b. b) demo_env ''out'' ''010203'' (\<lambda>_. None) = (Ok (), fs')"
    "DownloadArchive (\<lambda>b. b) ?bad ''out'' ''010203'' (\<lambda>_. None) = (r, fs'')" "r \<noteq> Ok ()"
    by (metis prod.collapse)
  from download_verified[OF f(1)] download_verified[OF f(2)] show ?thesis using f by (auto simp: demo_env_def)
qed

text \<open>
  The error of the copy is ignored. When the disk fills up after everything the digest covers, the
  download is taken for good although the file is not what was asked for.
\<close>

lemma unverified_download:
  assumes "stat_fail env = None" "fs path = None" "create_fail env = None" "rename_fail env = None"
    and "http env = Inr \<lparr>StatusCode = 200, body = [good, extra], body_end = EOF\<rparr>"
    and "file_writes env = [WFull, WFail n e]" "bar_writes env = []" "fmt_x (sha1 good) = hash"
  shows "\<exists>fs'. DownloadArchive sha1 env path hash fs = (Ok (), fs') \<and> fs' path = Some (good @ take n extra)"
  using assms by (simp add: DownloadArchive_def fetch_def Let_def)

text \<open>A mismatch leaves the temporary file behind.\<close>

lemma mismatch_leaves_tmp:
  assumes "fetch sha1 env path hash fs = (Err (NewError ''download hash mismatch''), fs')" "create_fail env = None"
    "http env = Inr resp" "rename_fail env = None"
  shows "fs' (tmp_path path) \<noteq> None"
  using assms by (auto simp: fetch_def Let_def split: if_splits)

end
