(* ===== verification/Download.thy ===== *)
theory Download
  imports Repository
begin

text \<open>
  \<^verbatim>\<open>builder/cmd/download\<close>: which package and which archive of a manifest the commands download. A
  command ends well or with a fatal error; its downloads are recorded by their address, destination
  and checksum, and answered by \<open>dl\<close>. The flags are variables of the package, so two commands that
  declare the same variable share it.
\<close>

type_synonym download = "string \<times> string \<times> string"

subsection \<open>emulator.go\<close>

definition toolRepo :: string where
  "toolRepo = ''https://dl.google.com/android/repository/repository2-3.xml''"

record emu_flags =
  emuChannel :: string
  emuOutput :: string
  emuHostOs :: string
  emuHostArch :: string

definition emu_defaults :: emu_flags where
  "emu_defaults = \<lparr>emuChannel = ''channel-0'', emuOutput = '''', emuHostOs = ''linux'', emuHostArch = ''x86''\<rparr>"

fun first_archive :: "(Archive \<Rightarrow> bool) \<Rightarrow> Archive list \<Rightarrow> Archive option" where
  "first_archive ok [] = None"
| "first_archive ok (a # as) = (if ok a then Some a else first_archive ok as)"

text \<open>The nested loops: the first archive that fits of the first package that has one.\<close>

fun find_archive :: "(RemotePackage \<Rightarrow> bool) \<Rightarrow> (Archive \<Rightarrow> bool) \<Rightarrow> RemotePackage list \<Rightarrow> Archive option" where
  "find_archive wanted ok [] = None"
| "find_archive wanted ok (p # ps) =
     (if \<not> wanted p then find_archive wanted ok ps
      else case first_archive ok (ArchiveList (PkgArchives p)) of
        Some a \<Rightarrow> Some a
      | None \<Rightarrow> find_archive wanted ok ps)"

text \<open>The end of each command: download the archive selected, or give up.\<close>

definition download_selected ::
  "(download \<Rightarrow> unit res) \<Rightarrow> string \<Rightarrow> string \<Rightarrow> Archive option \<Rightarrow> unit res \<times> download list" where
  "download_selected dl base output sel = (case sel of
     None \<Rightarrow> (Panic (LogFatal (NewError ''Failed to find download'')), [])
   | Some a \<Rightarrow>
      (let d = (base @ Url (Complete a), output, Checksum (Complete a))
       in (case dl d of Ok _ \<Rightarrow> Ok () | Err e \<Rightarrow> Panic (LogFatal e) | Panic p \<Rightarrow> Panic p, [d])))"

definition executeEmulator ::
  "(string \<Rightarrow> Manifest res) \<Rightarrow> (download \<Rightarrow> unit res) \<Rightarrow> emu_flags \<Rightarrow> unit res \<times> download list" where
  "executeEmulator get dl flags = (case get toolRepo of
     Err e \<Rightarrow> (Panic (LogFatal e), [])
   | Panic p \<Rightarrow> (Panic p, [])
   | Ok manifest \<Rightarrow>
      download_selected dl ''https://dl.google.com/android/repository/'' (emuOutput flags)
        (find_archive
          (\<lambda>rpkg. Ref (Channel rpkg) = emuChannel flags \<and> PkgPath rpkg = ''emulator'')
          (\<lambda>a. HostOs a = emuHostOs flags \<and> HostArch a = emuHostArch flags)
          (RemotePackages manifest)))"

subsection \<open>platform.go\<close>

definition executePlatform ::
  "(string \<Rightarrow> Manifest res) \<Rightarrow> (download \<Rightarrow> unit res) \<Rightarrow> emu_flags \<Rightarrow> unit res \<times> download list" where
  "executePlatform get dl flags = (case get toolRepo of
     Err e \<Rightarrow> (Panic (LogFatal e), [])
   | Panic p \<Rightarrow> (Panic p, [])
   | Ok manifest \<Rightarrow>
      download_selected dl ''https://dl.google.com/android/repository/'' (emuOutput flags)
        (find_archive
          (\<lambda>rpkg. Ref (Channel rpkg) = emuChannel flags \<and> PkgPath rpkg = ''platform-tools'')
          (\<lambda>a. HostOs a = emuHostOs flags)
          (RemotePackages manifest)))"

subsection \<open>sysimg.go\<close>

definition defaultRepo :: string where
  "defaultRepo = ''https://dl.google.com/android/repository/sys-img/android/sys-img2-1.xml''"

definition googleRepo :: string where
  "googleRepo = ''https://dl.google.com/android/repository/sys-img/google_apis/sys-img2-1.xml''"

definition playstoreRepo :: string where
  "playstoreRepo = ''https://dl.google.com/android/repository/sys-img/google_apis_playstore/sys-img2-1.xml''"

record sysimg_flags =
  sysimgType :: string
  sysimgApi :: string
  sysimgAbi :: string
  sysimgChannel :: string
  sysimgOutput :: string

definition manifest_url :: "string \<Rightarrow> string option" where
  "manifest_url ty =
     (if ty = ''default'' then Some defaultRepo
      else if ty = ''google'' then Some googleRepo
      else if ty = ''playstore'' then Some playstoreRepo
      else None)"

definition sysimg_matches :: "sysimg_flags \<Rightarrow> RemotePackage \<Rightarrow> bool" where
  "sysimg_matches flags p \<longleftrightarrow>
     Ref (Channel p) = sysimgChannel flags \<and> Abi (Details p) = sysimgAbi flags \<and> ApiLevel (Details p) = sysimgApi flags"

text \<open>The loop over the packages: the major revision and the package found so far.\<close>

fun select_sysimg :: "sysimg_flags \<Rightarrow> RemotePackage list \<Rightarrow> int \<times> RemotePackage option \<Rightarrow> int \<times> RemotePackage option" where
  "select_sysimg flags [] cur = cur"
| "select_sysimg flags (p # ps) (currentMajor, rpkg) =
     (if \<not> sysimg_matches flags p then select_sysimg flags ps (currentMajor, rpkg)
      else if Major (PkgRevision p) < currentMajor then select_sysimg flags ps (currentMajor, rpkg)
      else select_sysimg flags ps (Major (PkgRevision p), Some p))"

definition executeSysimg ::
  "(string \<Rightarrow> Manifest res) \<Rightarrow> (download \<Rightarrow> unit res) \<Rightarrow> sysimg_flags \<Rightarrow> unit res \<times> download list" where
  "executeSysimg get dl flags = (case manifest_url (sysimgType flags) of
     None \<Rightarrow> (Panic (LogFatal (NewError (''Unknown repo'' @ sysimgType flags))), [])
   | Some url \<Rightarrow>
      (case get url of
         Err e \<Rightarrow> (Panic (LogFatal e), [])
       | Panic p \<Rightarrow> (Panic p, [])
       | Ok manifest \<Rightarrow>
          (case select_sysimg flags (RemotePackages manifest) (- 1, None) of
             (currentMajor, sel) \<Rightarrow>
               (if currentMajor = - 1 then (Panic (LogFatal (NewError ''Failed to find sysimg'')), [])
                else case sel of
                  None \<Rightarrow> (Panic (LogFatal (NewError ''Failed to find download'')), [])
                | Some rpkg \<Rightarrow>
                    download_selected dl
                      (''https://dl.google.com/android/repository/sys-img/'' @ DetailId (Tag (Details rpkg)) @ ''/'')
                      (sysimgOutput flags)
                      (first_archive (\<lambda>a. HostOs a = '''' \<or> HostOs a = ''linux'') (ArchiveList (PkgArchives rpkg)))))))"

subsection \<open>The newest image\<close>

text \<open>The specification: of the packages that match, the last one with the greatest major revision.\<close>

definition newest :: "sysimg_flags \<Rightarrow> RemotePackage list \<Rightarrow> RemotePackage option" where
  "newest flags ps = (let ms = filter (sysimg_matches flags) ps in
     if ms = [] then None
     else Some (last (filter (\<lambda>p. \<forall>q \<in> set ms. Major (PkgRevision q) \<le> Major (PkgRevision p)) ms)))"

lemma select_sysimg_append:
  "select_sysimg flags (xs @ ys) cur = select_sysimg flags ys (select_sysimg flags xs cur)"
  by (induction flags xs cur rule: select_sysimg.induct) auto

lemma exists_newest:
  fixes f :: "'a \<Rightarrow> int"
  assumes "ms \<noteq> []"
  shows "filter (\<lambda>p. \<forall>q \<in> set ms. f q \<le> f p) ms \<noteq> []"
proof -
  have "Max (f ` set ms) \<in> f ` set ms" using assms by (intro Max_in) auto
  then obtain p where "p \<in> set ms" "f p = Max (f ` set ms)" by auto
  then have "p \<in> set (filter (\<lambda>p. \<forall>q \<in> set ms. f q \<le> f p) ms)" by simp
  then show ?thesis by force
qed

lemma newest_Some:
  assumes "newest flags ps = Some p"
  shows "p \<in> set ps" "sysimg_matches flags p"
    "\<forall>q \<in> set ps. sysimg_matches flags q \<longrightarrow> Major (PkgRevision q) \<le> Major (PkgRevision p)"
proof -
  let ?ms = "filter (sysimg_matches flags) ps"
  let ?best = "filter (\<lambda>p. \<forall>q \<in> set ?ms. Major (PkgRevision q) \<le> Major (PkgRevision p)) ?ms"
  have p: "?ms \<noteq> []" "p = last ?best" using assms by (auto simp: newest_def Let_def split: if_splits)
  then have "?best \<noteq> []" using exists_newest[of ?ms "\<lambda>p. Major (PkgRevision p)"] by blast
  then have "p \<in> set ?best" unfolding p(2) by (rule last_in_set)
  then show "p \<in> set ps" "sysimg_matches flags p"
    "\<forall>q \<in> set ps. sysimg_matches flags q \<longrightarrow> Major (PkgRevision q) \<le> Major (PkgRevision p)" by auto
qed

lemma newest_snoc:
  "newest flags (ps @ [p]) =
     (if \<not> sysimg_matches flags p then newest flags ps
      else case newest flags ps of
        None \<Rightarrow> Some p
      | Some q \<Rightarrow> if Major (PkgRevision p) < Major (PkgRevision q) then Some q else Some p)"
proof (cases "sysimg_matches flags p")
  case True
  let ?f = "\<lambda>p. Major (PkgRevision p)" and ?ms = "filter (sysimg_matches flags) ps"
  show ?thesis
  proof (cases "newest flags ps")
    case None
    then have "?ms = []" by (auto simp: newest_def Let_def split: if_splits)
    then show ?thesis using True None by (simp add: newest_def)
  next
    case (Some q)
    note q = newest_Some[OF Some]
    have ms: "?ms \<noteq> []" using Some by (auto simp: newest_def Let_def split: if_splits)
    have ql: "q = last (filter (\<lambda>p. \<forall>q \<in> set ?ms. ?f q \<le> ?f p) ?ms)" using Some ms by (simp add: newest_def Let_def)
    show ?thesis
    proof (cases "?f p < ?f q")
      case less: True
      have eq: "(\<forall>q \<in> set (?ms @ [p]). ?f q \<le> ?f x) \<longleftrightarrow> (\<forall>q \<in> set ?ms. ?f q \<le> ?f x)" for x
        using less q by (auto intro: order.trans[OF less_imp_le])
      have no: "\<not> (\<forall>q \<in> set ?ms. ?f q \<le> ?f p)" using q(1,2) less by force
      have "filter (\<lambda>x. \<forall>q \<in> set (?ms @ [p]). ?f q \<le> ?f x) (?ms @ [p]) =
          filter (\<lambda>p. \<forall>q \<in> set ?ms. ?f q \<le> ?f p) (?ms @ [p])"
        by (simp only: eq)
      also have "\<dots> = filter (\<lambda>p. \<forall>q \<in> set ?ms. ?f q \<le> ?f p) ?ms"
        using no by (simp only: filter_append filter.simps if_False append_Nil2)
      finally have f: "filter (\<lambda>x. \<forall>q \<in> set (?ms @ [p]). ?f q \<le> ?f x) (?ms @ [p]) =
          filter (\<lambda>p. \<forall>q \<in> set ?ms. ?f q \<le> ?f p) ?ms" .
      have m: "filter (sysimg_matches flags) (ps @ [p]) = ?ms @ [p]" using True by simp
      have "newest flags (ps @ [p]) = Some q"
        unfolding newest_def m Let_def f ql by simp
      then show ?thesis using True Some less by simp
    next
      case False
      then have "\<forall>x \<in> set (?ms @ [p]). ?f x \<le> ?f p" using q(3) by fastforce
      then show ?thesis using True Some False by (simp add: newest_def Let_def)
    qed
  qed
qed (simp add: newest_def)

lemma select_newest:
  "\<forall>p \<in> set ps. sysimg_matches flags p \<longrightarrow> 0 \<le> Major (PkgRevision p) \<Longrightarrow>
   select_sysimg flags ps (- 1, None) = (case newest flags ps of None \<Rightarrow> (- 1, None) | Some p \<Rightarrow> (Major (PkgRevision p), Some p))"
proof (induction ps rule: rev_induct)
  case Nil
  show ?case by (simp add: newest_def)
next
  case (snoc p ps)
  then show ?case
    by (auto simp: select_sysimg_append newest_snoc split: option.splits)
qed

subsection \<open>Properties\<close>

text \<open>C36: The image downloaded is, of the packages of the wanted channel, architecture and level, the last
  listed one with the greatest major revision; of it the first archive for linux or any system, to the
  destination given and with its checksum. Without such a package or archive nothing is downloaded.\<close>

theorem sysimg_newest:
  assumes "manifest_url (sysimgType flags) = Some url" "get url = Ok m"
    and "\<forall>p \<in> set (RemotePackages m). sysimg_matches flags p \<longrightarrow> 0 \<le> Major (PkgRevision p)"
  shows "snd (executeSysimg get dl flags) =
    (case newest flags (RemotePackages m) of
       None \<Rightarrow> []
     | Some p \<Rightarrow>
        (case filter (\<lambda>a. HostOs a = '''' \<or> HostOs a = ''linux'') (ArchiveList (PkgArchives p)) of
           [] \<Rightarrow> []
         | a # _ \<Rightarrow> [(''https://dl.google.com/android/repository/sys-img/'' @ DetailId (Tag (Details p)) @ ''/'' @
                     Url (Complete a), sysimgOutput flags, Checksum (Complete a))]))"
proof -
  have fa: "first_archive ok as = (case filter ok as of [] \<Rightarrow> None | a # _ \<Rightarrow> Some a)" for ok as
    by (induction "as") auto
  have "newest flags (RemotePackages m) = Some p \<Longrightarrow> Major (PkgRevision p) \<noteq> - 1" for p
    using newest_Some[of flags "RemotePackages m" p] assms(3) by force
  then show ?thesis
    using assms(1,2) select_newest[OF assms(3)]
    by (auto simp: executeSysimg_def download_selected_def fa Let_def split: option.splits list.splits)
qed

definition demo_pkg :: "int \<Rightarrow> string \<Rightarrow> RemotePackage" where
  "demo_pkg major url = \<lparr>PkgPath = ''img'', DisplayName = '''', PkgRevision = \<lparr>Major = major\<rparr>,
     Details = \<lparr>ApiLevel = ''33'', Tag = \<lparr>DetailId = ''android'', DetailDisplay = ''''\<rparr>,
       Vendor = \<lparr>DetailId = '''', DetailDisplay = ''''\<rparr>, Abi = ''x86_64''\<rparr>,
     Channel = \<lparr>Ref = ''channel-0''\<rparr>,
     PkgArchives = \<lparr>ArchiveList = [\<lparr>HostOs = '''', HostArch = '''',
       Complete = \<lparr>CompleteSize = 1, Checksum = ''c'', Url = url\<rparr>\<rparr>]\<rparr>\<rparr>"

definition demo_sysimg :: sysimg_flags where
  "demo_sysimg = \<lparr>sysimgType = ''default'', sysimgApi = ''33'', sysimgAbi = ''x86_64'', sysimgChannel = ''channel-0'', sysimgOutput = ''o''\<rparr>"

theorem sysimg_newest_witness:
  "snd (executeSysimg (\<lambda>_. Ok \<lparr>RemotePackages = [demo_pkg 2 ''a'', demo_pkg 3 ''b'', demo_pkg 1 ''c'']\<rparr>) (\<lambda>_. Ok ()) demo_sysimg) =
     [(''https://dl.google.com/android/repository/sys-img/android/b'', ''o'', ''c'')]"
proof -
  have n: "newest demo_sysimg [demo_pkg 2 ''a'', demo_pkg 3 ''b'', demo_pkg 1 ''c''] = Some (demo_pkg 3 ''b'')" by code_simp
  show ?thesis
    using sysimg_newest[of demo_sysimg defaultRepo "\<lambda>_. Ok \<lparr>RemotePackages = [demo_pkg 2 ''a'', demo_pkg 3 ''b'', demo_pkg 1 ''c'']\<rparr>"
        "\<lparr>RemotePackages = [demo_pkg 2 ''a'', demo_pkg 3 ''b'', demo_pkg 1 ''c'']\<rparr>" "\<lambda>_. Ok ()"]
    by (simp add: n) (simp add: demo_pkg_def demo_sysimg_def manifest_url_def)
qed

text \<open>A package of revision \<open>-1\<close> is found and then taken for not found.\<close>

lemma negative_revision_missed:
  "fst (executeSysimg (\<lambda>_. Ok \<lparr>RemotePackages = [demo_pkg (- 1) ''a'']\<rparr>) (\<lambda>_. Ok ()) demo_sysimg) =
     Panic (LogFatal (NewError ''Failed to find sysimg''))"
  by (simp add: executeSysimg_def demo_sysimg_def demo_pkg_def manifest_url_def sysimg_matches_def)

end
