(* ===== verification/Ramdisk.thy ===== *)
theory Ramdisk
  imports Bytes "HOL-Library.Sublist"
begin

text \<open>
  \<^verbatim>\<open>builder/cmd/patchramdisk.go\<close>: replacing the kernel modules and the init binary of a ramdisk image.
  The archive format and the compression are third-party packages, so reading an archive, writing
  a record of one, its trailer, and decompressing are parameters; the writer's state is of any
  type. So is the order in which Go goes through a map.
\<close>

subsection \<open>Paths\<close>

text \<open>\<^verbatim>\<open>path.Clean\<close> and \<^verbatim>\<open>path.Join\<close>: \<open>out\<close> is the stack of the parts kept.\<close>

fun clean_parts :: "bool \<Rightarrow> string list \<Rightarrow> string list \<Rightarrow> string list" where
  "clean_parts rooted [] out = rev out"
| "clean_parts rooted (p # ps) out =
     (if p = '''' \<or> p = ''.'' then clean_parts rooted ps out
      else if p = ''..'' then
        (if out \<noteq> [] \<and> hd out \<noteq> ''..'' then clean_parts rooted ps (tl out)
         else if rooted then clean_parts rooted ps out
         else clean_parts rooted ps (p # out))
      else clean_parts rooted ps (p # out))"

definition path_clean :: "string \<Rightarrow> string" where
  "path_clean s =
     (if s = '''' then ''.''
      else let rooted = (hd s = CHR ''/''); body = join_with ''/'' (clean_parts rooted (Split s ''/'') [])
        in if rooted then ''/'' @ body else if body = '''' then ''.'' else body)"

definition path_join :: "string \<Rightarrow> string \<Rightarrow> string" where
  "path_join a b =
     (if a = '''' \<and> b = '''' then ''''
      else if a = '''' then path_clean b
      else path_clean (a @ ''/'' @ b))"

subsection \<open>Archives\<close>

text \<open>A record with all its fields; the ones behind the data are the positions in the archive read.\<close>

record cpio_record =
  recIno :: u64
  recMode :: u64
  recUID :: u64
  recGID :: u64
  recNLink :: u64
  recMTime :: u64
  recFileSize :: u64
  recDev :: u64
  recMajor :: u64
  recMinor :: u64
  recRmajor :: u64
  recRminor :: u64
  recName :: string
  recData :: "byte list"
  RecPos :: i64
  RecLen :: u64
  FilePos :: i64

text \<open>The names in the order of the archive, and the record of a name.\<close>

record archive =
  Order :: "string list"
  Files :: "string \<Rightarrow> cpio_record"

text \<open>The flags of the command; a flag not given is empty.\<close>

record ramdisk_flags =
  ramdiskInput :: string
  ramdiskModules :: string
  ramdiskInit :: string
  ramdiskOutput :: string

definition is_module :: "ramdisk_flags \<Rightarrow> string \<Rightarrow> bool" where
  "is_module flags name \<longleftrightarrow>
     ramdiskModules flags \<noteq> '''' \<and> HasPrefix name ''lib/modules/'' \<and> HasSuffix name ''.ko''"

subsection \<open>A segment\<close>

record 'w seg_state =
  writer :: 'w
  lastIno :: u64
  hasModules :: bool
  oldModules :: "string list"
  hasInit :: bool

definition start_segment :: "'w \<Rightarrow> 'w seg_state" where
  "start_segment w = \<lparr>writer = w, lastIno = 0, hasModules = False, oldModules = [], hasInit = False\<rparr>"

text \<open>The loop over the records of the archive: a module is put aside, the init binary renamed.\<close>

fun pass_records ::
  "ramdisk_flags \<Rightarrow> (string \<Rightarrow> cpio_record) \<Rightarrow> (cpio_record \<Rightarrow> 'w \<Rightarrow> unit res \<times> 'w) \<Rightarrow>
   string list \<Rightarrow> 'w seg_state \<Rightarrow> unit res \<times> 'w seg_state" where
  "pass_records flags files wr [] s = (Ok (), s)"
| "pass_records flags files wr (name # names) s =
     (if is_module flags name then
        pass_records flags files wr names
          (s\<lparr>hasModules := True, oldModules := List.insert (TrimPrefix name ''lib/modules/'') (oldModules s)\<rparr>)
      else
        (let isInit = (ramdiskInit flags \<noteq> '''' \<and> name = ''init'');
             r = (if isInit then (files name)\<lparr>recName := ''original-init''\<rparr> else files name);
             s = s\<lparr>hasInit := (hasInit s \<or> isInit), lastIno := max (lastIno s) (recIno r)\<rparr>
         in on_ok (map_prod id (\<lambda>w. s\<lparr>writer := w\<rparr>) (wr r (writer s))) (\<lambda>s. s)
              (\<lambda>_ s. pass_records flags files wr names s)))"

definition file_record :: "u64 \<Rightarrow> u64 \<Rightarrow> string \<Rightarrow> byte list \<Rightarrow> cpio_record" where
  "file_record ino mode name content = \<lparr>recIno = ino, recMode = mode, recUID = 0, recGID = 0, recNLink = 1,
     recMTime = 0, recFileSize = word_of_nat (length content), recDev = 0, recMajor = 0, recMinor = 0, recRmajor = 0,
     recRminor = 0, recName = name, recData = content, RecPos = 0, RecLen = 0, FilePos = 0\<rparr>"

text \<open>Opening, reading and closing a replacement is one outcome; then it is written under a new inode.\<close>

definition add_file ::
  "(string \<Rightarrow> goerr + byte list) \<Rightarrow> (cpio_record \<Rightarrow> 'w \<Rightarrow> unit res \<times> 'w) \<Rightarrow> string \<Rightarrow> u64 \<Rightarrow> string \<Rightarrow>
   'w seg_state \<Rightarrow> unit res \<times> 'w seg_state" where
  "add_file rd wr file mode name s = (case rd file of
     Inl e \<Rightarrow> (Err e, s)
   | Inr content \<Rightarrow>
      (let s = s\<lparr>lastIno := lastIno s + 1\<rparr>
       in map_prod id (\<lambda>w. s\<lparr>writer := w\<rparr>) (wr (file_record (lastIno s) mode name content) (writer s))))"

fun replace_modules ::
  "ramdisk_flags \<Rightarrow> (string \<Rightarrow> goerr + byte list) \<Rightarrow> (cpio_record \<Rightarrow> 'w \<Rightarrow> unit res \<times> 'w) \<Rightarrow>
   string list \<Rightarrow> 'w seg_state \<Rightarrow> unit res \<times> 'w seg_state" where
  "replace_modules flags rd wr [] s = (Ok (), s)"
| "replace_modules flags rd wr (name # names) s =
     on_ok (add_file rd wr (path_join (ramdiskModules flags) name) 33188 (''lib/modules/'' @ name) s) (\<lambda>s. s)
       (\<lambda>_ s. replace_modules flags rd wr names s)"

definition replace_init ::
  "ramdisk_flags \<Rightarrow> (string \<Rightarrow> goerr + byte list) \<Rightarrow> (cpio_record \<Rightarrow> 'w \<Rightarrow> unit res \<times> 'w) \<Rightarrow>
   'w seg_state \<Rightarrow> unit res \<times> 'w seg_state" where
  "replace_init flags rd wr s =
     (if hasInit s then add_file rd wr (ramdiskInit flags) 33256 ''init'' s else (Ok (), s))"

text \<open>The new archive; \<open>iter\<close> is the order in which the map of the modules is gone through.\<close>

definition patch_archive ::
  "ramdisk_flags \<Rightarrow> (string \<Rightarrow> goerr + byte list) \<Rightarrow> (string list \<Rightarrow> string list) \<Rightarrow>
   (cpio_record \<Rightarrow> 'w \<Rightarrow> unit res \<times> 'w) \<Rightarrow> ('w \<Rightarrow> unit res \<times> 'w) \<Rightarrow> archive \<Rightarrow> 'w \<Rightarrow> unit res \<times> 'w" where
  "patch_archive flags rd iter wr trailer a w =
     map_prod id writer
       (on_ok (pass_records flags (Files a) wr (Order a) (start_segment w)) (\<lambda>s. s) (\<lambda>_ s.
        on_ok (if hasModules s then replace_modules flags rd wr (iter (oldModules s)) s else (Ok (), s)) (\<lambda>s. s) (\<lambda>_ s.
        on_ok (replace_init flags rd wr s) (\<lambda>s. s) (\<lambda>_ s.
        map_prod id (\<lambda>w. s\<lparr>writer := w\<rparr>) (trailer (writer s))))))"

text \<open>
  The new segment: the buffer in front of the bytes is flushed, and \<open>bytes_of\<close> are the bytes behind it.
\<close>

definition processSegment ::
  "ramdisk_flags \<Rightarrow> (byte list \<Rightarrow> goerr + archive) \<Rightarrow> (string \<Rightarrow> goerr + byte list) \<Rightarrow> (string list \<Rightarrow> string list) \<Rightarrow>
   (cpio_record \<Rightarrow> 'w \<Rightarrow> unit res \<times> 'w) \<Rightarrow> ('w \<Rightarrow> unit res \<times> 'w) \<Rightarrow> ('w \<Rightarrow> unit res \<times> 'w) \<Rightarrow> 'w \<Rightarrow>
   ('w \<Rightarrow> byte list) \<Rightarrow> byte list \<Rightarrow> byte list res" where
  "processSegment flags parse rd iter wr trailer flush w0 bytes_of segment = (case parse segment of
     Inl e \<Rightarrow> Err e
   | Inr a \<Rightarrow>
      (case on_ok (patch_archive flags rd iter wr trailer a w0) (\<lambda>w. w) (\<lambda>_ w. flush w) of
         (Ok _, w) \<Rightarrow> Ok (bytes_of w)
       | (Err e, _) \<Rightarrow> Err e
       | (Panic p, _) \<Rightarrow> Panic p))"

subsection \<open>The image\<close>

definition isAllZero :: "byte list \<Rightarrow> bool" where
  "isAllZero s \<longleftrightarrow> (\<forall>v \<in> set s. v = 0)"

definition trailer_mark :: "byte list" where
  "trailer_mark = of_str ''TRAILER!!!'' @ [0]"

definition newc_magic :: "byte list" where
  "newc_magic = of_str ''070701''"

definition padding :: "nat \<Rightarrow> nat" where
  "padding n = 256 - n mod 256"

fun patch_segments :: "(byte list \<Rightarrow> byte list res) \<Rightarrow> byte list list \<Rightarrow> byte list \<Rightarrow> byte list res" where
  "patch_segments process [] out = Ok out"
| "patch_segments process (segment # segments) out =
     (if isAllZero segment then Ok out
      else case Index segment newc_magic of
        None \<Rightarrow> Err (NewError ''invalid ramdisk format'')
      | Some startPos \<Rightarrow>
          bind_res (process (drop startPos segment)) (\<lambda>newSegment.
            let out = out @ newSegment
            in patch_segments process segments (out @ replicate (padding (length out)) 0)))"

text \<open>The command: its result, and the image it hands to the store if it comes to that.\<close>

definition executePatchRamdisk ::
  "ramdisk_flags \<Rightarrow> (string \<Rightarrow> goerr + byte list) \<Rightarrow> (byte list \<Rightarrow> goerr + byte list) \<Rightarrow>
   (byte list \<Rightarrow> byte list res) \<Rightarrow> (byte list \<Rightarrow> goerr option) \<Rightarrow> unit res \<times> byte list option" where
  "executePatchRamdisk flags rd lz4 process store = (case rd (ramdiskInput flags) of
     Inl e \<Rightarrow> (Err e, None)
   | Inr compressed \<Rightarrow> (case lz4 compressed of
       Inl e \<Rightarrow> (Err e, None)
     | Inr ramdisk \<Rightarrow> (case patch_segments process (Split ramdisk trailer_mark) [] of
         Err e \<Rightarrow> (Err e, None)
       | Panic p \<Rightarrow> (Panic p, None)
       | Ok img \<Rightarrow> (case store img of Some e \<Rightarrow> Err e | None \<Rightarrow> Ok (), Some img))))"

subsection \<open>The records of the new archive\<close>

text \<open>A writer that only keeps the records, in order.\<close>

definition keep_record :: "cpio_record \<Rightarrow> cpio_record list \<Rightarrow> unit res \<times> cpio_record list" where
  "keep_record r rs = (Ok (), rs @ [r])"

definition keep_all :: "cpio_record list \<Rightarrow> unit res \<times> cpio_record list" where
  "keep_all rs = (Ok (), rs)"

lemma keep_simps [simp]:
  "map_prod id f (keep_record r rs) = (Ok (), f (rs @ [r]))" "map_prod id f (keep_all rs) = (Ok (), f rs)"
  by (simp_all add: keep_record_def keep_all_def)

text \<open>The specification: what is passed on, which modules are replaced, and the new files.\<close>

definition old_module :: "ramdisk_flags \<Rightarrow> string \<Rightarrow> bool" where
  "old_module flags name \<longleftrightarrow> ramdiskModules flags \<noteq> '''' \<and> suffix ''.ko'' name \<and> prefix ''lib/modules/'' name"

definition fresh_file :: "u64 \<Rightarrow> u64 \<Rightarrow> string \<Rightarrow> byte list \<Rightarrow> cpio_record" where
  "fresh_file ino mode name content = \<lparr>recIno = ino, recMode = mode, recUID = 0, recGID = 0, recNLink = 1,
     recMTime = 0, recFileSize = word_of_nat (length content), recDev = 0, recMajor = 0, recMinor = 0, recRmajor = 0,
     recRminor = 0, recName = name, recData = content, RecPos = 0, RecLen = 0, FilePos = 0\<rparr>"

definition is_init :: "ramdisk_flags \<Rightarrow> string \<Rightarrow> bool" where
  "is_init flags name \<longleftrightarrow> ramdiskInit flags \<noteq> '''' \<and> name = ''init''"

definition passed :: "ramdisk_flags \<Rightarrow> (string \<Rightarrow> cpio_record) \<Rightarrow> string list \<Rightarrow> cpio_record list" where
  "passed flags files names =
     map (\<lambda>n. if is_init flags n then (files n)\<lparr>recName := ''original-init''\<rparr> else files n)
       (filter (\<lambda>n. \<not> old_module flags n) names)"

definition module_names :: "ramdisk_flags \<Rightarrow> string list \<Rightarrow> string list \<Rightarrow> string list" where
  "module_names flags names old =
     fold (\<lambda>n ms. List.insert (TrimPrefix n ''lib/modules/'') ms) (filter (old_module flags) names) old"

definition last_ino :: "cpio_record list \<Rightarrow> u64" where
  "last_ino rs = fold (\<lambda>r m. max m (recIno r)) rs 0"

fun module_files :: "u64 \<Rightarrow> (string \<Rightarrow> byte list) \<Rightarrow> string list \<Rightarrow> cpio_record list" where
  "module_files ino content [] = []"
| "module_files ino content (m # ms) =
     fresh_file (ino + 1) 33188 (''lib/modules/'' @ m) (content m) # module_files (ino + 1) content ms"

text \<open>The files read, in their order, what the first that cannot be read fails of, and the contents of one that can.\<close>

definition replacements :: "ramdisk_flags \<Rightarrow> string list \<Rightarrow> string list \<Rightarrow> string list" where
  "replacements flags names ms = map (path_join (ramdiskModules flags)) ms @
     (if \<exists>n \<in> set names. is_init flags n then [ramdiskInit flags] else [])"

fun read_error :: "('f \<Rightarrow> goerr + 'c) \<Rightarrow> 'f list \<Rightarrow> goerr option" where
  "read_error rd [] = None"
| "read_error rd (f # fs) = (case rd f of Inl e \<Rightarrow> Some e | Inr _ \<Rightarrow> read_error rd fs)"

definition contents :: "(string \<Rightarrow> goerr + byte list) \<Rightarrow> string \<Rightarrow> byte list" where
  "contents rd f = (case rd f of Inl _ \<Rightarrow> [] | Inr b \<Rightarrow> b)"

lemma read_error_append: "read_error rd (fs @ gs) = (case read_error rd fs of None \<Rightarrow> read_error rd gs | e \<Rightarrow> e)"
  by (induction fs) (auto split: sum.splits)

lemma file_record_fresh: "file_record = fresh_file"
  by (intro ext) (simp add: file_record_def fresh_file_def)

lemma is_module_old: "is_module flags n \<longleftrightarrow> old_module flags n"
  by (auto simp: is_module_def old_module_def HasPrefix_iff HasSuffix_iff prefix_def suffix_def)

lemma pass_records_kept:
  "pass_records flags files keep_record names s =
     (Ok (), s\<lparr>writer := writer s @ passed flags files names,
       lastIno := fold (\<lambda>r m. max m (recIno r)) (passed flags files names) (lastIno s),
       hasModules := (hasModules s \<or> (\<exists>n \<in> set names. old_module flags n)),
       oldModules := module_names flags names (oldModules s),
       hasInit := (hasInit s \<or> (\<exists>n \<in> set names. is_init flags n \<and> \<not> old_module flags n))\<rparr>)"
proof (induction names arbitrary: s)
  case Nil
  show ?case by (simp add: passed_def module_names_def)
next
  case (Cons n names)
  show ?case
  proof (cases "old_module flags n")
    case True
    then show ?thesis by (simp add: is_module_old Cons.IH passed_def module_names_def)
  next
    case False
    then show ?thesis
      unfolding pass_records.simps is_init_def[symmetric] Let_def
      by (cases "is_init flags n") (auto simp: is_module_old Cons.IH passed_def module_names_def)
  qed
qed

lemma replace_modules_kept:
  "case read_error rd (map (path_join (ramdiskModules flags)) ms) of
     Some e \<Rightarrow> fst (replace_modules flags rd keep_record ms s) = Err e
   | None \<Rightarrow> replace_modules flags rd keep_record ms s =
       (Ok (), s\<lparr>writer := writer s @ module_files (lastIno s) (\<lambda>m. contents rd (path_join (ramdiskModules flags) m)) ms,
         lastIno := lastIno s + word_of_nat (length ms)\<rparr>)"
proof (induction ms arbitrary: s)
  case (Cons m ms)
  show ?case
  proof (cases "rd (path_join (ramdiskModules flags) m)")
    case (Inr b)
    then show ?thesis
      using Cons.IH[of "s\<lparr>lastIno := lastIno s + 1, writer := writer s @ [fresh_file (lastIno s + 1) 33188 (''lib/modules/'' @ m) b]\<rparr>"]
      by (auto simp: add_file_def Let_def add_ac file_record_fresh contents_def split: option.splits)
  qed (simp add: add_file_def)
qed simp

lemma length_passed: "length (module_files ino content ms) = length ms"
  by (induction ms arbitrary: ino) simp_all

lemma module_names_init_mem: "is_init flags n \<Longrightarrow> \<not> old_module flags n"
  by (simp add: is_init_def old_module_def)

lemma distinct_module_names: "distinct old \<Longrightarrow> distinct (module_names flags names old)"
  unfolding module_names_def by (induction names arbitrary: old) auto

lemma set_module_names:
  "set (module_names flags names old) = set old \<union> {m. \<exists>n \<in> set names. old_module flags n \<and> n = ''lib/modules/'' @ m}"
proof (induction names arbitrary: old)
  case (Cons n names)
  show ?case
  proof (cases "old_module flags n")
    case True
    then obtain m where "n = ''lib/modules/'' @ m" unfolding old_module_def prefix_def by blast
    moreover have "TrimPrefix (''lib/modules/'' @ m) ''lib/modules/'' = m" by (rule TrimPrefix_append)
    ultimately show ?thesis
      using Cons.IH[of "List.insert m old"] True by (auto simp: module_names_def)
  qed (use Cons.IH[of old] in \<open>auto simp: module_names_def\<close>)
qed (simp add: module_names_def)

subsection \<open>Properties\<close>

text \<open>C30: Patching reads a file of the same name for each module of the archive, if a directory of modules was given,
  and the new init binary, if one was given and the archive has one, and fails of the first that cannot be read. Otherwise
  the new archive has the records of the old one in their order, less the modules and with the
  init binary renamed, then one record for each module with the contents read, and then the new init: nothing else is
  dropped or changed in any field. The order of the modules is the one in which Go goes through the map.\<close>

theorem patched_records:
  fixes flags a rd iter
  defines "ms \<equiv> iter (module_names flags (Order a) [])"
  assumes "set ms = set (module_names flags (Order a) [])" "distinct ms"
  shows "case read_error rd (replacements flags (Order a) ms) of
     Some e \<Rightarrow> fst (patch_archive flags rd iter keep_record keep_all a []) = Err e
   | None \<Rightarrow> patch_archive flags rd iter keep_record keep_all a [] =
       (Ok (), let old = passed flags (Files a) (Order a);
           new = module_files (last_ino old) (\<lambda>m. contents rd (path_join (ramdiskModules flags) m)) ms
         in old @ new @ (if \<exists>n \<in> set (Order a). is_init flags n
            then [fresh_file (last_ino old + word_of_nat (length ms) + 1) 33256 ''init'' (contents rd (ramdiskInit flags))] else []))"
proof -
  let ?old = "passed flags (Files a) (Order a)" and ?c = "\<lambda>m. contents rd (path_join (ramdiskModules flags) m)"
  let ?ini = "\<exists>n \<in> set (Order a). is_init flags n"
  have none: "\<not> (\<exists>n \<in> set (Order a). old_module flags n) \<Longrightarrow> ms = []"
    using set_module_names[of flags "Order a" "[]"] assms(2) by auto
  have init: "(\<exists>n \<in> set (Order a). is_init flags n \<and> \<not> old_module flags n) = ?ini"
    using module_names_init_mem by blast
  let ?s1 = "\<lparr>writer = ?old, lastIno = last_ino ?old, hasModules = (\<exists>n \<in> set (Order a). old_module flags n),
    oldModules = module_names flags (Order a) [], hasInit = ?ini\<rparr>"
  let ?s2 = "?s1\<lparr>writer := ?old @ module_files (last_ino ?old) ?c ms, lastIno := last_ino ?old + word_of_nat (length ms)\<rparr>"
  let ?mods = "if hasModules ?s1 then replace_modules flags rd keep_record ms ?s1 else (Ok (), ?s1)"
  have pass: "pass_records flags (Files a) keep_record (Order a) (start_segment []) = (Ok (), ?s1)"
    by (simp add: pass_records_kept start_segment_def init last_ino_def)
  have mods: "case read_error rd (map (path_join (ramdiskModules flags)) ms) of
      Some e \<Rightarrow> fst ?mods = Err e | None \<Rightarrow> ?mods = (Ok (), ?s2)"
  proof (cases "hasModules ?s1")
    case True
    show ?thesis
      using replace_modules_kept[where flags = flags and ms = ms and rd = rd and s = ?s1] unfolding if_P[OF True]
      by (simp only: seg_state.simps)
  next
    case False
    then have "ms = []" using none by simp
    then show ?thesis using False by simp
  qed
  have patch: "patch_archive flags rd iter keep_record keep_all a [] =
      map_prod id writer (on_ok ?mods (\<lambda>s. s) (\<lambda>_ s.
        on_ok (replace_init flags rd keep_record s) (\<lambda>s. s) (\<lambda>_ s. map_prod id (\<lambda>w. s\<lparr>writer := w\<rparr>) (keep_all (writer s)))))"
    unfolding patch_archive_def pass ms_def by simp
  show ?thesis
  proof (cases "read_error rd (map (path_join (ramdiskModules flags)) ms)")
    case None
    then have m: "?mods = (Ok (), ?s2)" using mods by (simp only: option.case)
    show ?thesis
      using None unfolding patch m on_ok_simps
      by (simp add: replace_init_def add_file_def Let_def read_error_append replacements_def file_record_fresh contents_def
          split: sum.splits)
  next
    case (Some e)
    then have "fst ?mods = Err e" using mods by (simp only: option.case)
    then obtain s' where m: "?mods = (Err e, s')" by (cases ?mods rule: res_pair_cases) (simp_all only: fst_conv res.distinct res.inject)
    show ?thesis
      using Some unfolding patch m on_ok_simps by (simp add: read_error_append replacements_def)
  qed
qed

definition demo_archive :: archive where
  "demo_archive = \<lparr>Order = [''init'', ''lib/modules/a.ko'', ''etc''],
     Files = (\<lambda>n. file_record 5 33188 n [1])\<rparr>"

definition demo_flags :: ramdisk_flags where
  "demo_flags = \<lparr>ramdiskInput = ''in'', ramdiskModules = ''mods'', ramdiskInit = ''new'', ramdiskOutput = ''out''\<rparr>"

definition modules_only :: ramdisk_flags where
  "modules_only = demo_flags\<lparr>ramdiskInit := ''''\<rparr>"

theorem patched_records_witness:
  "map recName (snd (patch_archive demo_flags (\<lambda>f. Inr (of_str f)) (\<lambda>ms. ms) keep_record keep_all demo_archive [])) =
     [''original-init'', ''etc'', ''lib/modules/a.ko'', ''init''] \<and>
   patch_archive modules_only (\<lambda>f. if f = '''' then Inl EOF else Inr (of_str f)) (\<lambda>ms. ms) keep_record keep_all demo_archive [] =
     (Ok (), [fresh_file 5 33188 ''init'' [1], fresh_file 5 33188 ''etc'' [1],
       fresh_file 6 33188 ''lib/modules/a.ko'' (of_str ''mods/a.ko'')]) \<and>
   fst (patch_archive demo_flags (\<lambda>_. Inl EOF) (\<lambda>ms. ms) keep_record keep_all demo_archive []) = Err EOF"
proof -
  have ms: "module_names demo_flags (Order demo_archive) [] = [''a.ko'']" "module_names modules_only (Order demo_archive) [] = [''a.ko'']"
    by code_simp+
  have old: "map recName (passed demo_flags (Files demo_archive) (Order demo_archive)) = [''original-init'', ''etc'']"
      "passed modules_only (Files demo_archive) (Order demo_archive) = [fresh_file 5 33188 ''init'' [1], fresh_file 5 33188 ''etc'' [1]]"
    by code_simp+
  have r: "replacements demo_flags (Order demo_archive) [''a.ko''] = [''mods/a.ko'', ''new'']"
      "replacements modules_only (Order demo_archive) [''a.ko''] = [''mods/a.ko'']" "path_join (ramdiskModules modules_only) ''a.ko'' = ''mods/a.ko''"
    by code_simp+
  have i: "\<exists>n \<in> set (Order demo_archive). is_init demo_flags n" "\<not> (\<exists>n \<in> set (Order demo_archive). is_init modules_only n)"
    by (simp_all add: demo_archive_def demo_flags_def modules_only_def is_init_def)
  note P = patched_records[of "\<lambda>ms. ms"]
  show ?thesis
    using P[of demo_flags demo_archive "\<lambda>f. Inr (of_str f)"] P[of demo_flags demo_archive "\<lambda>_. Inl EOF"]
      P[of modules_only demo_archive "\<lambda>f. if f = '''' then Inl EOF else Inr (of_str f)"]
    by (simp add: ms i old r Let_def fresh_file_def last_ino_def contents_def)
qed

text \<open>New inodes come after every inode passed on, so they are not in use, unless the counter wraps.\<close>

lemma last_ino_max: "r \<in> set rs \<Longrightarrow> recIno r \<le> last_ino rs"
proof -
  have "m \<le> fold (\<lambda>r m. max m (recIno r)) rs m \<and> (r \<in> set rs \<longrightarrow> recIno r \<le> fold (\<lambda>r m. max m (recIno r)) rs m)" for m
  proof (induction rs arbitrary: m)
    case (Cons x rs)
    have "max m (recIno x) \<le> fold (\<lambda>r m. max m (recIno r)) rs (max m (recIno x))" using Cons by blast
    then have "m \<le> fold (\<lambda>r m. max m (recIno r)) rs (max m (recIno x)) \<and> recIno x \<le> fold (\<lambda>r m. max m (recIno r)) rs (max m (recIno x))"
      by simp
    then show ?case using Cons by auto
  qed simp
  then show "r \<in> set rs \<Longrightarrow> recIno r \<le> last_ino rs" unfolding last_ino_def by blast
qed

subsection \<open>The image\<close>

definition padded :: "byte list \<Rightarrow> byte list" where
  "padded b = b @ replicate (padding (length b)) 0"

lemma length_padded: "length (padded b) = 256 * Suc (length b div 256)"
proof -
  have "length b mod 256 < 256" "length b = 256 * (length b div 256) + length b mod 256" by simp_all
  then show ?thesis
    unfolding padded_def padding_def length_append length_replicate mult_Suc_right by linarith
qed

lemma padding_shift: "256 dvd k \<Longrightarrow> padding (k + n) = padding n"
  by (auto simp: padding_def elim: dvdE)

lemma dvd_concat_padded: "256 dvd length (concat (map padded bs))"
  by (induction bs) (auto simp: length_padded)

lemma patch_segments_image:
  "256 dvd length out \<Longrightarrow> patch_segments process segs out = Ok img \<Longrightarrow>
   \<exists>news. list_all2 (\<lambda>seg new. \<exists>i. Index seg newc_magic = Some i \<and> process (drop i seg) = Ok new)
       (takeWhile (\<lambda>seg. \<not> isAllZero seg) segs) news \<and> img = out @ concat (map padded news)"
proof (induction process segs out rule: patch_segments.induct)
  case (2 process seg segs out)
  show ?case
  proof (cases "isAllZero seg")
    case False
    then obtain i new where i: "Index seg newc_magic = Some i" "process (drop i seg) = Ok new"
      and p: "patch_segments process segs (out @ padded new) = Ok img"
      using "2.prems" by (auto simp: bind_res_eq_Ok Let_def padded_def padding_shift split: option.splits)
    have eq: "(out @ new) @ replicate (padding (length (out @ new))) 0 = out @ padded new"
      using "2.prems"(1) by (simp add: padded_def padding_shift)
    have d: "256 dvd length (out @ padded new)" using "2.prems"(1) by (simp add: length_padded)
    obtain news where "list_all2 (\<lambda>seg new. \<exists>i. Index seg newc_magic = Some i \<and> process (drop i seg) = Ok new)
       (takeWhile (\<lambda>seg. \<not> isAllZero seg) segs) news" "img = out @ padded new @ concat (map padded news)"
      using "2.IH"[OF False i(1) refl, of new, unfolded eq, OF d p] by (auto simp: append_assoc)
    then show ?thesis
      using False i by (intro exI[of _ "new # news"]) auto
  qed (use "2.prems" in auto)
qed auto

lemma image_parts:
  assumes "executePatchRamdisk flags rd lz4 process store = (r, Some img)"
  shows "\<exists>compressed ramdisk news. rd (ramdiskInput flags) = Inr compressed \<and> lz4 compressed = Inr ramdisk \<and>
    list_all2 (\<lambda>seg new. \<exists>i. Index seg newc_magic = Some i \<and> process (drop i seg) = Ok new)
       (takeWhile (\<lambda>seg. \<not> isAllZero seg) (Split ramdisk trailer_mark)) news \<and>
    img = concat (map padded news) \<and> 256 dvd length img \<and>
    (\<forall>n. 1 \<le> padding n \<and> padding n \<le> 256)"
proof -
  obtain compressed ramdisk where r: "rd (ramdiskInput flags) = Inr compressed" "lz4 compressed = Inr ramdisk"
    "patch_segments process (Split ramdisk trailer_mark) [] = Ok img"
    using assms by (auto simp: executePatchRamdisk_def split: sum.splits res.splits)
  moreover have "1 \<le> padding n \<and> padding n \<le> 256" for n
    using mod_less_divisor[of 256 n] by (simp add: padding_def)
  ultimately show ?thesis
    using patch_segments_image[of "[]" process "Split ramdisk trailer_mark" img] dvd_concat_padded by auto
qed

text \<open>C31: A stored image is the new segments one after the other, each made from the archive found in the
  segment of the old image at the same place and filled up with between 1 and 256 zero bytes to a
  multiple of 256; segments after the first one that is all zero are left out.\<close>

theorem image_layout:
  assumes "executePatchRamdisk flags rd lz4 process store = (Ok (), Some img)"
  shows "\<exists>compressed ramdisk news. rd (ramdiskInput flags) = Inr compressed \<and> lz4 compressed = Inr ramdisk \<and>
    list_all2 (\<lambda>seg new. \<exists>i. Index seg newc_magic = Some i \<and> process (drop i seg) = Ok new)
       (takeWhile (\<lambda>seg. \<not> isAllZero seg) (Split ramdisk trailer_mark)) news \<and>
    img = concat (map padded news) \<and> 256 dvd length img \<and>
    (\<forall>n. 1 \<le> padding n \<and> padding n \<le> 256)"
  using assms by (rule image_parts)

theorem image_layout_witness:
  "256 dvd length (padded [48, 55, 48, 55, 48, 49, 9]) \<and>
   executePatchRamdisk demo_flags (\<lambda>_. Inr (newc_magic @ [9])) Inr Ok (\<lambda>_. None) = (Ok (), Some (padded [48, 55, 48, 55, 48, 49, 9]))"
proof -
  have e: "executePatchRamdisk demo_flags (\<lambda>_. Inr (newc_magic @ [9])) Inr Ok (\<lambda>_. None) =
      (Ok (), Some (padded [48, 55, 48, 55, 48, 49, 9]))" by code_simp
  from image_layout[OF this] show ?thesis using e by blast
qed

end
