(* ===== verification/Builder.thy ===== *)
theory Builder
  imports Download Ramdisk
begin

text \<open>
  The command line of the builder: \<^verbatim>\<open>builder/main.go\<close>, \<^verbatim>\<open>builder/cmd/root.go\<close>, \<^verbatim>\<open>builder/cmd/download/download.go\<close> and
  the commands and flags that the other files register. Commands are data, and the variables the flags
  are bound to are a store, so that two flags bound to the same variable share it. The cobra package is
  a parameter: from the commands and the arguments it finds the command meant and the values given.
\<close>

subsection \<open>Commands and flags\<close>

datatype cli_var =
    EmuHostOs | EmuHostArch | EmuChannel | EmuOutput
  | SysimgType | SysimgApi | SysimgAbi | SysimgChannel | SysimgOutput
  | RamdiskInput | RamdiskModules | RamdiskInit | RamdiskOutput

type_synonym vars = "cli_var \<Rightarrow> string"

record flag =
  flag_var :: cli_var
  flag_name :: string
  flag_default :: string

datatype action = ExecuteEmulator | ExecutePlatform | ExecuteSysimg | ExecutePatchRamdisk

datatype command = Command (use: string) (action: "action option") (flags: "flag list") (required: "string list") (subs: "command list")

definition emulatorCmd :: command where
  "emulatorCmd = Command ''emulator'' (Some ExecuteEmulator)
     [\<lparr>flag_var = EmuHostOs, flag_name = ''host-os'', flag_default = ''linux''\<rparr>,
      \<lparr>flag_var = EmuHostArch, flag_name = ''host-arch'', flag_default = ''x86''\<rparr>,
      \<lparr>flag_var = EmuChannel, flag_name = ''channel'', flag_default = ''channel-0''\<rparr>,
      \<lparr>flag_var = EmuOutput, flag_name = ''output'', flag_default = ''''\<rparr>]
     [''output''] []"

text \<open>The flags of \<^verbatim>\<open>platform-tools\<close> are bound to the variables of \<^verbatim>\<open>emulator\<close>.\<close>

definition platformCmd :: command where
  "platformCmd = Command ''platform-tools'' (Some ExecutePlatform)
     [\<lparr>flag_var = EmuHostOs, flag_name = ''host-os'', flag_default = ''linux''\<rparr>,
      \<lparr>flag_var = EmuChannel, flag_name = ''channel'', flag_default = ''channel-0''\<rparr>,
      \<lparr>flag_var = EmuOutput, flag_name = ''output'', flag_default = ''''\<rparr>]
     [''output''] []"

definition sysimgCmd :: command where
  "sysimgCmd = Command ''sysimg'' (Some ExecuteSysimg)
     [\<lparr>flag_var = SysimgType, flag_name = ''type'', flag_default = ''''\<rparr>,
      \<lparr>flag_var = SysimgApi, flag_name = ''api'', flag_default = ''''\<rparr>,
      \<lparr>flag_var = SysimgAbi, flag_name = ''abi'', flag_default = ''x86_64''\<rparr>,
      \<lparr>flag_var = SysimgChannel, flag_name = ''channel'', flag_default = ''channel-0''\<rparr>,
      \<lparr>flag_var = SysimgOutput, flag_name = ''output'', flag_default = ''''\<rparr>]
     [''type'', ''api'', ''output''] []"

definition patchRamdiskCmd :: command where
  "patchRamdiskCmd = Command ''patch-ramdisk'' (Some ExecutePatchRamdisk)
     [\<lparr>flag_var = RamdiskInput, flag_name = ''input'', flag_default = ''''\<rparr>,
      \<lparr>flag_var = RamdiskModules, flag_name = ''modules'', flag_default = ''''\<rparr>,
      \<lparr>flag_var = RamdiskInit, flag_name = ''init'', flag_default = ''''\<rparr>,
      \<lparr>flag_var = RamdiskOutput, flag_name = ''output'', flag_default = ''''\<rparr>]
     [''input'', ''output''] []"

definition downloadCmd :: command where
  "downloadCmd = Command ''download'' None [] [] [sysimgCmd, emulatorCmd, platformCmd]"

definition rootCmd :: command where
  "rootCmd = Command ''builder'' None [] [] [downloadCmd, patchRamdiskCmd]"

text \<open>Binding a flag stores its default in the variable; all of them are bound before \<^verbatim>\<open>main\<close>.\<close>

definition bind_flags :: "flag list \<Rightarrow> vars \<Rightarrow> vars" where
  "bind_flags fs v = fold (\<lambda>f v. v(flag_var f := flag_default f)) fs v"

definition initial_vars :: vars where
  "initial_vars = bind_flags (flags emulatorCmd @ flags platformCmd @ flags sysimgCmd @ flags patchRamdiskCmd) (\<lambda>_. '''')"

subsection \<open>Running a command\<close>

definition emu_flags_of :: "vars \<Rightarrow> emu_flags" where
  "emu_flags_of v = \<lparr>emuChannel = v EmuChannel, emuOutput = v EmuOutput, emuHostOs = v EmuHostOs, emuHostArch = v EmuHostArch\<rparr>"

definition sysimg_flags_of :: "vars \<Rightarrow> sysimg_flags" where
  "sysimg_flags_of v = \<lparr>sysimgType = v SysimgType, sysimgApi = v SysimgApi, sysimgAbi = v SysimgAbi,
     sysimgChannel = v SysimgChannel, sysimgOutput = v SysimgOutput\<rparr>"

definition ramdisk_flags_of :: "vars \<Rightarrow> ramdisk_flags" where
  "ramdisk_flags_of v = \<lparr>ramdiskInput = v RamdiskInput, ramdiskModules = v RamdiskModules, ramdiskInit = v RamdiskInit,
     ramdiskOutput = v RamdiskOutput\<rparr>"

text \<open>What the commands are given: the manifests and downloads, the files, lz4, the archives and the store.\<close>

record outside =
  get_manifest :: "string \<Rightarrow> Manifest res"
  download_to :: "download \<Rightarrow> unit res"
  read_file :: "string \<Rightarrow> goerr + byte list"
  unpack :: "byte list \<Rightarrow> goerr + byte list"
  segment :: "ramdisk_flags \<Rightarrow> byte list \<Rightarrow> byte list res"
  write_image :: "string \<Rightarrow> byte list \<Rightarrow> goerr option"

text \<open>What was done: the downloads, and the image written with its path.\<close>

definition run_action :: "outside \<Rightarrow> action \<Rightarrow> vars \<Rightarrow> unit res \<times> download list \<times> (string \<times> byte list) option" where
  "run_action ext act v = (case act of
     ExecuteEmulator \<Rightarrow> (case executeEmulator (get_manifest ext) (download_to ext) (emu_flags_of v) of (r, ds) \<Rightarrow> (r, ds, None))
   | ExecutePlatform \<Rightarrow> (case executePlatform (get_manifest ext) (download_to ext) (emu_flags_of v) of (r, ds) \<Rightarrow> (r, ds, None))
   | ExecuteSysimg \<Rightarrow> (case executeSysimg (get_manifest ext) (download_to ext) (sysimg_flags_of v) of (r, ds) \<Rightarrow> (r, ds, None))
   | ExecutePatchRamdisk \<Rightarrow>
       (case executePatchRamdisk (ramdisk_flags_of v) (read_file ext) (unpack ext) (segment ext (ramdisk_flags_of v))
           (write_image ext (v RamdiskOutput)) of
          (r, img) \<Rightarrow> (r, [], map_option (Pair (v RamdiskOutput)) img)))"

text \<open>A value given goes to the variable its flag is bound to.\<close>

definition set_flag :: "command \<Rightarrow> string \<times> string \<Rightarrow> vars \<Rightarrow> vars" where
  "set_flag cmd x v = (case find (\<lambda>f. flag_name f = fst x) (flags cmd) of
     None \<Rightarrow> v
   | Some f \<Rightarrow> v(flag_var f := snd x))"

definition exit_code :: "unit res \<Rightarrow> nat" where
  "exit_code r = (case r of Ok _ \<Rightarrow> 0 | Err _ \<Rightarrow> 1 | Panic (LogFatal _) \<Rightarrow> 1 | Panic _ \<Rightarrow> 2)"

text \<open>
  The program: its exit code and what it did. An error of cobra or of the command is printed, and a
  command without an action of its own only prints its usage, as asking for help does.
\<close>

definition Execute ::
  "(command \<Rightarrow> string list \<Rightarrow> goerr + (command \<times> (string \<times> string) list) option) \<Rightarrow> outside \<Rightarrow> string list \<Rightarrow>
   nat \<times> download list \<times> (string \<times> byte list) option" where
  "Execute cobra ext args = (case cobra rootCmd args of
     Inl e \<Rightarrow> (1, [], None)
   | Inr None \<Rightarrow> (0, [], None)
   | Inr (Some (cmd, vals)) \<Rightarrow>
       (case action cmd of
          None \<Rightarrow> (0, [], None)
        | Some act \<Rightarrow>
           (case run_action ext act (fold (set_flag cmd) vals initial_vars) of
              (r, ds, img) \<Rightarrow> (exit_code r, ds, img))))"

definition builder_main ::
  "(command \<Rightarrow> string list \<Rightarrow> goerr + (command \<times> (string \<times> string) list) option) \<Rightarrow> outside \<Rightarrow> string list \<Rightarrow>
   nat \<times> download list \<times> (string \<times> byte list) option" where
  "builder_main cobra ext args = Execute cobra ext args"

subsection \<open>What is relied on\<close>

text \<open>
  What the documentation of cobra says: it only runs commands that were added, only takes values of
  flags that were declared, and refuses to run a command without its required flags.
\<close>

inductive added :: "command \<Rightarrow> command \<Rightarrow> bool" for root where
  added_root: "added root root"
| added_sub: "added root c \<Longrightarrow> d \<in> set (subs c) \<Longrightarrow> added root d"

definition cobra_ok :: "(command \<Rightarrow> string list \<Rightarrow> goerr + (command \<times> (string \<times> string) list) option) \<Rightarrow> bool" where
  "cobra_ok cobra \<longleftrightarrow> (\<forall>root args cmd vals. cobra root args = Inr (Some (cmd, vals)) \<longrightarrow>
     added root cmd \<and> fst ` set vals \<subseteq> flag_name ` set (flags cmd) \<and> set (required cmd) \<subseteq> fst ` set vals)"

lemmas commands = rootCmd_def downloadCmd_def emulatorCmd_def platformCmd_def sysimgCmd_def patchRamdiskCmd_def

lemma added_commands:
  assumes "added rootCmd c"
  shows "c \<in> {rootCmd, downloadCmd, emulatorCmd, platformCmd, sysimgCmd, patchRamdiskCmd}"
  using assms
proof induction
  case (added_sub c d)
  then show ?case by (auto simp: commands)
qed simp

text \<open>The value a variable ends with: the last one given for its flag, or its default.\<close>

definition value_of :: "(string \<times> string) list \<Rightarrow> string \<Rightarrow> string \<Rightarrow> string" where
  "value_of vals name dflt = (case map_of (rev vals) name of None \<Rightarrow> dflt | Some x \<Rightarrow> x)"

lemma value_of_snoc: "value_of (vals @ [(n, x)]) name dflt = (if n = name then x else value_of vals name dflt)"
  by (simp add: value_of_def)

lemma fold_set_flag:
  assumes "distinct (map flag_name (flags cmd))" "distinct (map flag_var (flags cmd))" "f \<in> set (flags cmd)"
  shows "fold (set_flag cmd) vals v (flag_var f) = value_of vals (flag_name f) (v (flag_var f))"
proof (induction vals rule: rev_induct)
  case (snoc y vals)
  obtain n x where y: "y = (n, x)" by fastforce
  show ?case
  proof (cases "find (\<lambda>f. flag_name f = n) (flags cmd)")
    case None
    then have "n \<noteq> flag_name f" using assms(3) by (auto simp: find_None_iff)
    then show ?thesis using snoc None y by (simp add: set_flag_def value_of_snoc)
  next
    case (Some g)
    then have g: "g \<in> set (flags cmd)" "flag_name g = n" by (auto simp: find_Some_iff)
    have "flag_var g = flag_var f \<longleftrightarrow> g = f" "flag_name g = flag_name f \<longleftrightarrow> g = f"
      using assms g(1) by (auto dest: inj_onD simp: distinct_map)
    then show ?thesis using snoc Some y g by (auto simp: set_flag_def value_of_snoc)
  qed
qed (simp add: value_of_def)

lemma fold_set_flag_other:
  "x \<notin> flag_var ` set (flags cmd) \<Longrightarrow> fold (set_flag cmd) vals v x = v x"
proof (induction vals rule: rev_induct)
  case (snoc y vals)
  then show ?case by (auto simp: set_flag_def find_Some_iff split: option.splits)
qed simp

lemma initial_values:
  "initial_vars EmuHostOs = ''linux''" "initial_vars EmuHostArch = ''x86''" "initial_vars EmuChannel = ''channel-0''"
  "initial_vars EmuOutput = ''''" "initial_vars SysimgType = ''''" "initial_vars SysimgApi = ''''"
  "initial_vars SysimgAbi = ''x86_64''" "initial_vars SysimgChannel = ''channel-0''" "initial_vars SysimgOutput = ''''"
  "initial_vars RamdiskInput = ''''" "initial_vars RamdiskModules = ''''" "initial_vars RamdiskInit = ''''"
  "initial_vars RamdiskOutput = ''''"
  by (simp_all add: initial_vars_def bind_flags_def commands)

lemma initial_emu_flags: "emu_flags_of initial_vars = emu_defaults"
  by (simp add: emu_flags_of_def initial_values emu_defaults_def)

text \<open>The flags each command runs with.\<close>

lemma flag_value:
  assumes "\<lparr>flag_var = x, flag_name = n, flag_default = d\<rparr> \<in> set (flags c)"
    and "c \<in> {emulatorCmd, platformCmd, sysimgCmd, patchRamdiskCmd}" "initial_vars x = d"
  shows "fold (set_flag c) vals initial_vars x = value_of vals n d"
proof -
  have "distinct (map flag_name (flags c)) \<and> distinct (map flag_var (flags c))"
    using assms(2) by (auto simp: commands)
  then show ?thesis using fold_set_flag[of c _ vals initial_vars, OF _ _ assms(1)] assms(3) by simp
qed

definition emulator_flags :: "(string \<times> string) list \<Rightarrow> emu_flags" where
  "emulator_flags vals = \<lparr>emuChannel = value_of vals ''channel'' ''channel-0'', emuOutput = value_of vals ''output'' '''',
     emuHostOs = value_of vals ''host-os'' ''linux'', emuHostArch = value_of vals ''host-arch'' ''x86''\<rparr>"

definition system_flags :: "(string \<times> string) list \<Rightarrow> sysimg_flags" where
  "system_flags vals = \<lparr>sysimgType = value_of vals ''type'' '''', sysimgApi = value_of vals ''api'' '''',
     sysimgAbi = value_of vals ''abi'' ''x86_64'', sysimgChannel = value_of vals ''channel'' ''channel-0'',
     sysimgOutput = value_of vals ''output'' ''''\<rparr>"

definition patch_flags :: "(string \<times> string) list \<Rightarrow> ramdisk_flags" where
  "patch_flags vals = \<lparr>ramdiskInput = value_of vals ''input'' '''', ramdiskModules = value_of vals ''modules'' '''',
     ramdiskInit = value_of vals ''init'' '''', ramdiskOutput = value_of vals ''output'' ''''\<rparr>"

lemma emulator_runs_with:
  "emu_flags_of (fold (set_flag emulatorCmd) vals initial_vars) = emulator_flags vals"
  by (simp add: emu_flags_of_def emulator_flags_def)
    (intro conjI flag_value, simp_all add: initial_values, simp_all add: emulatorCmd_def)

lemma platform_runs_with:
  "emu_flags_of (fold (set_flag platformCmd) vals initial_vars) = (emulator_flags vals)\<lparr>emuHostArch := ''x86''\<rparr>"
proof -
  have "fold (set_flag platformCmd) vals initial_vars EmuHostArch = ''x86''"
    using fold_set_flag_other[of EmuHostArch platformCmd vals initial_vars] by (simp add: initial_values platformCmd_def)
  then show ?thesis
    by (simp add: emu_flags_of_def emulator_flags_def)
      (intro conjI flag_value, simp_all add: initial_values, simp_all add: platformCmd_def)
qed

lemma sysimg_runs_with:
  "sysimg_flags_of (fold (set_flag sysimgCmd) vals initial_vars) = system_flags vals"
  by (simp add: sysimg_flags_of_def system_flags_def)
    (intro conjI flag_value, simp_all add: initial_values, simp_all add: sysimgCmd_def)

lemma patch_runs_with:
  "ramdisk_flags_of (fold (set_flag patchRamdiskCmd) vals initial_vars) = patch_flags vals"
  by (simp add: ramdisk_flags_of_def patch_flags_def)
    (intro conjI flag_value, simp_all add: initial_values, simp_all add: patchRamdiskCmd_def)

text \<open>Where the commands put what they make.\<close>

lemma download_selected_output: "(u, out, x) \<in> set (snd (download_selected dl base output sel)) \<Longrightarrow> out = output"
  by (auto simp: download_selected_def Let_def split: option.splits)

lemma emulator_output: "(u, out, x) \<in> set (snd (executeEmulator get dl fl)) \<Longrightarrow> out = emuOutput fl"
  by (auto simp: executeEmulator_def split: res.splits dest: download_selected_output)

lemma platform_output: "(u, out, x) \<in> set (snd (executePlatform get dl fl)) \<Longrightarrow> out = emuOutput fl"
  by (auto simp: executePlatform_def split: res.splits dest: download_selected_output)

lemma sysimg_output: "(u, out, x) \<in> set (snd (executeSysimg get dl fl)) \<Longrightarrow> out = sysimgOutput fl"
  by (auto simp: executeSysimg_def split: res.splits option.splits prod.splits if_splits dest: download_selected_output)

lemma value_given: "name \<in> fst ` set vals \<Longrightarrow> (name, value_of vals name dflt) \<in> set vals"
  by (auto simp: value_of_def map_of_eq_None_iff split: option.splits dest: map_of_SomeD)

text \<open>What a command does for the values given.\<close>

definition asked :: "outside \<Rightarrow> action \<Rightarrow> (string \<times> string) list \<Rightarrow> unit res \<times> download list \<times> (string \<times> byte list) option" where
  "asked ext act vals = (case act of
     ExecuteEmulator \<Rightarrow>
       (case executeEmulator (get_manifest ext) (download_to ext) (emulator_flags vals) of (r, ds) \<Rightarrow> (r, ds, None))
   | ExecutePlatform \<Rightarrow>
       (case executePlatform (get_manifest ext) (download_to ext) ((emulator_flags vals)\<lparr>emuHostArch := ''x86''\<rparr>) of
          (r, ds) \<Rightarrow> (r, ds, None))
   | ExecuteSysimg \<Rightarrow>
       (case executeSysimg (get_manifest ext) (download_to ext) (system_flags vals) of (r, ds) \<Rightarrow> (r, ds, None))
   | ExecutePatchRamdisk \<Rightarrow>
       (case executePatchRamdisk (patch_flags vals) (read_file ext) (unpack ext) (segment ext (patch_flags vals))
           (write_image ext (value_of vals ''output'' '''')) of
          (r, img) \<Rightarrow> (r, [], map_option (Pair (value_of vals ''output'' '''')) img)))"

definition runnable :: "(command \<times> action) set" where
  "runnable = {(emulatorCmd, ExecuteEmulator), (platformCmd, ExecutePlatform), (sysimgCmd, ExecuteSysimg),
     (patchRamdiskCmd, ExecutePatchRamdisk)}"

lemma run_action_asked:
  assumes "(cmd, act) \<in> runnable"
  shows "run_action ext act (fold (set_flag cmd) vals initial_vars) = asked ext act vals"
proof -
  have "fold (set_flag patchRamdiskCmd) vals initial_vars RamdiskOutput = value_of vals ''output'' ''''"
    using arg_cong[OF patch_runs_with[of vals], of ramdiskOutput] by (simp add: ramdisk_flags_of_def patch_flags_def)
  then show ?thesis
    using assms by (auto simp: runnable_def run_action_def asked_def emulator_runs_with platform_runs_with
        sysimg_runs_with patch_runs_with)
qed

lemma asked_output:
  assumes "asked ext act vals = (r, ds, img)"
  shows "(u, out, x) \<in> set ds \<Longrightarrow> out = value_of vals ''output'' ''''"
    "img = Some (path, data) \<Longrightarrow> path = value_of vals ''output'' ''''"
  using assms
    emulator_output[of u out x "get_manifest ext" "download_to ext" "emulator_flags vals"]
    platform_output[of u out x "get_manifest ext" "download_to ext" "(emulator_flags vals)\<lparr>emuHostArch := ''x86''\<rparr>"]
    sysimg_output[of u out x "get_manifest ext" "download_to ext" "system_flags vals"]
  by (cases act; auto simp: asked_def emulator_flags_def system_flags_def split: prod.splits)+

lemma command_actions:
  assumes "added rootCmd cmd"
  shows "case action cmd of None \<Rightarrow> cmd \<in> {rootCmd, downloadCmd}
    | Some act \<Rightarrow> (cmd, act) \<in> runnable \<and> ''output'' \<in> set (required cmd)"
  using added_commands[OF assms] by (auto simp: runnable_def commands)

lemma builder_runs:
  assumes "cobra_ok cobra" "cobra rootCmd args = Inr (Some (cmd, vals))" "action cmd = Some act"
  shows "(cmd, act) \<in> runnable" "(''output'', value_of vals ''output'' '''') \<in> set vals"
    "builder_main cobra ext args = (case asked ext act vals of (r, ds, img) \<Rightarrow> (exit_code r, ds, img))"
proof -
  have ok: "added rootCmd cmd" "set (required cmd) \<subseteq> fst ` set vals" using assms(1,2) unfolding cobra_ok_def by blast+
  from command_actions[OF ok(1)] show run: "(cmd, act) \<in> runnable" and "(''output'', value_of vals ''output'' '''') \<in> set vals"
    using assms(3) ok(2) by (auto intro!: value_given)
  show "builder_main cobra ext args = (case asked ext act vals of (r, ds, img) \<Rightarrow> (exit_code r, ds, img))"
    using assms(2,3) run_action_asked[OF run] by (simp add: builder_main_def Execute_def)
qed

lemma exit_code_says:
  "case r of Ok _ \<Rightarrow> exit_code r = 0 | Err _ \<Rightarrow> exit_code r = 1 | Panic q \<Rightarrow> exit_code r = (if \<exists>e. q = LogFatal e then 1 else 2)"
  by (simp add: exit_code_def split: res.split gopanic.split)

text \<open>C38: What the builder does for a command line: only what the command it names does, with the values
  given for the flags and the defaults of the others, although \<^verbatim>\<open>platform-tools\<close> and \<^verbatim>\<open>emulator\<close> share
  their variables; the destination of every download it asks for and of the image is a path given
  with \<^verbatim>\<open>output\<close> (the temporary file that a download makes beside it is the subject of \<open>BuilderRun\<close>); and it exits
  with 0 exactly when neither the command line nor the command has failed, with 1 for an error, fatal or not, and
  with 2 for any other panic.\<close>

theorem builder_obeys:
  assumes "cobra_ok cobra"
  shows "case builder_main cobra ext args of (code, ds, img) \<Rightarrow> (case cobra rootCmd args of
     Inl e \<Rightarrow> code = 1 \<and> ds = [] \<and> img = None
   | Inr None \<Rightarrow> code = 0 \<and> ds = [] \<and> img = None
   | Inr (Some (cmd, vals)) \<Rightarrow>
      (case action cmd of
         None \<Rightarrow> cmd \<in> {rootCmd, downloadCmd} \<and> code = 0 \<and> ds = [] \<and> img = None
       | Some act \<Rightarrow> (cmd, act) \<in> runnable \<and>
           (\<exists>r. asked ext act vals = (r, ds, img) \<and>
             (case r of Ok _ \<Rightarrow> code = 0 | Err _ \<Rightarrow> code = 1 | Panic q \<Rightarrow> code = (if \<exists>e. q = LogFatal e then 1 else 2))) \<and>
           (\<forall>u out x. (u, out, x) \<in> set ds \<longrightarrow> (''output'', out) \<in> set vals) \<and>
           (\<forall>path data. img = Some (path, data) \<longrightarrow> (''output'', path) \<in> set vals)))"
proof (cases "\<exists>cmd vals. cobra rootCmd args = Inr (Some (cmd, vals))")
  case True
  then obtain cmd vals where c: "cobra rootCmd args = Inr (Some (cmd, vals))" by blast
  then have "added rootCmd cmd" using assms unfolding cobra_ok_def by blast
  note A = command_actions[OF this]
  show ?thesis
  proof (cases "action cmd")
    case (Some act)
    obtain r ds img where r: "asked ext act vals = (r, ds, img)" using prod_cases3 by blast
    note B = builder_runs[OF assms c Some]
    show ?thesis using c Some B(1,2) B(3)[of ext] r asked_output[OF r] exit_code_says[of r] by auto
  qed (use A c in \<open>simp add: builder_main_def Execute_def\<close>)
next
  case False
  then show ?thesis by (cases "cobra rootCmd args") (auto simp: builder_main_def Execute_def split: option.splits)
qed

text \<open>A cobra that knows one command line, as far as the example needs.\<close>

definition sample_cobra :: "command \<Rightarrow> string list \<Rightarrow> goerr + (command \<times> (string \<times> string) list) option" where
  "sample_cobra root args =
     (if root = rootCmd \<and> args = [''download'', ''emulator'', ''--output'', ''emu.zip'']
      then Inr (Some (emulatorCmd, [(''output'', ''emu.zip'')]))
      else Inl (NewError ''unknown command''))"

lemma sample_cobra_ok: "cobra_ok sample_cobra"
proof -
  have "added rootCmd downloadCmd" by (rule added_sub[OF added_root]) (simp add: rootCmd_def)
  then have "added rootCmd emulatorCmd" by (rule added_sub) (simp add: downloadCmd_def)
  then show ?thesis by (auto simp: cobra_ok_def sample_cobra_def split: if_splits) (simp_all add: emulatorCmd_def)
qed

theorem builder_obeys_witness:
  "cobra_ok sample_cobra \<and>
   (case builder_main sample_cobra \<lparr>get_manifest = (\<lambda>_. Err EOF), download_to = (\<lambda>_. Ok ()), read_file = (\<lambda>_. Inl EOF),
       unpack = Inr, segment = (\<lambda>_. Ok), write_image = (\<lambda>_ _. None)\<rparr>
       [''download'', ''emulator'', ''--output'', ''emu.zip''] of (code, ds, img) \<Rightarrow> code = 1 \<and> img = None)"
proof -
  let ?ext = "\<lparr>get_manifest = (\<lambda>_. Err EOF), download_to = (\<lambda>_. Ok ()), read_file = (\<lambda>_. Inl EOF),
       unpack = Inr, segment = (\<lambda>_. Ok), write_image = (\<lambda>_ _. None)\<rparr>"
  let ?args = "[''download'', ''emulator'', ''--output'', ''emu.zip'']"
  have "sample_cobra rootCmd ?args = Inr (Some (emulatorCmd, [(''output'', ''emu.zip'')]))" by (simp add: sample_cobra_def)
  moreover have "action emulatorCmd = Some ExecuteEmulator" by (simp add: emulatorCmd_def)
  moreover have "asked ?ext ExecuteEmulator [(''output'', ''emu.zip'')] = (Panic (LogFatal EOF), [], None)"
    by (simp add: asked_def executeEmulator_def)
  ultimately show ?thesis
    using builder_obeys[OF sample_cobra_ok, of ?ext ?args] sample_cobra_ok by (auto split: prod.splits)
qed

end
