(* ===== verification/BuilderRun.thy ===== *)
theory BuilderRun
  imports Builder
begin

text \<open>
  The builder on a file system: the commands of \<open>Builder\<close> with the manifests that \<open>Repository\<close> fetches,
  the downloads it makes and the segments that \<open>Ramdisk\<close> patches. The third-party packages and the
  faults of network and disk stay parameters; what they do to the files is the map from paths to contents.
\<close>

subsection \<open>Surroundings\<close>

text \<open>The packages: the XML parser, the digest, lz4, the archive reader and writer, and the order of Go's maps.\<close>

record 'w packages =
  unmarshal :: "byte list \<Rightarrow> goerr + Manifest"
  digest :: "byte list \<Rightarrow> byte list"
  decompress :: "byte list \<Rightarrow> goerr + byte list"
  read_archive :: "byte list \<Rightarrow> goerr + archive"
  map_order :: "string list \<Rightarrow> string list"
  write_record :: "cpio_record \<Rightarrow> 'w \<Rightarrow> unit res \<times> 'w"
  write_trailer :: "'w \<Rightarrow> unit res \<times> 'w"
  flush_writer :: "'w \<Rightarrow> unit res \<times> 'w"
  new_writer :: 'w
  written :: "'w \<Rightarrow> byte list"

text \<open>
  The network and the disk: the answer to each request, the faults of a download, of a read and of a
  write. A write that fails leaves the file alone or with some contents.
\<close>

record world =
  answer :: "string \<Rightarrow> goerr + response"
  faults :: dl_env
  read_fault :: "string \<Rightarrow> goerr option"
  write_fault :: "string \<Rightarrow> byte list \<Rightarrow> (goerr \<times> byte list option) option"

definition read_disk :: "world \<Rightarrow> fs \<Rightarrow> string \<Rightarrow> goerr + byte list" where
  "read_disk env files path = (case read_fault env path of
     Some e \<Rightarrow> Inl e
   | None \<Rightarrow> (case files path of None \<Rightarrow> Inl (SysError ''no such file or directory'') | Some content \<Rightarrow> Inr content))"

definition download_on :: "'w packages \<Rightarrow> world \<Rightarrow> download \<Rightarrow> fs \<Rightarrow> unit res \<times> fs" where
  "download_on pk env d files = (case d of (url, path, hash) \<Rightarrow>
     DownloadArchive (digest pk) ((faults env)\<lparr>http := answer env url\<rparr>) path hash files)"

definition store_on :: "world \<Rightarrow> string \<times> byte list \<Rightarrow> fs \<Rightarrow> fs" where
  "store_on env x files = (case x of (path, content) \<Rightarrow> (case write_fault env path content of
     None \<Rightarrow> files(path \<mapsto> content)
   | Some (_, None) \<Rightarrow> files
   | Some (_, Some left) \<Rightarrow> files(path \<mapsto> left)))"

definition outside_of :: "'w packages \<Rightarrow> world \<Rightarrow> fs \<Rightarrow> outside" where
  "outside_of pk env files = \<lparr>
     get_manifest = (\<lambda>url. GetManifest (unmarshal pk) (answer env url)),
     download_to = (\<lambda>d. fst (download_on pk env d files)),
     read_file = read_disk env files,
     unpack = decompress pk,
     segment = (\<lambda>flags. processSegment flags (read_archive pk) (read_disk env files) (map_order pk)
       (write_record pk) (write_trailer pk) (flush_writer pk) (new_writer pk) (written pk)),
     write_image = (\<lambda>path content. map_option fst (write_fault env path content))\<rparr>"

text \<open>The program with what it leaves on the disk.\<close>

definition run_builder ::
  "(command \<Rightarrow> string list \<Rightarrow> goerr + (command \<times> (string \<times> string) list) option) \<Rightarrow> 'w packages \<Rightarrow> world \<Rightarrow>
   string list \<Rightarrow> fs \<Rightarrow> nat \<times> fs" where
  "run_builder cobra pk env args files = (case builder_main cobra (outside_of pk env files) args of (code, ds, img) \<Rightarrow>
     (code, (case img of None \<Rightarrow> (\<lambda>f. f) | Some x \<Rightarrow> store_on env x) (fold (\<lambda>d f. snd (download_on pk env d f)) ds files)))"

subsection \<open>Selection\<close>

lemma first_archive_Some: "first_archive ok as = Some a \<Longrightarrow> a \<in> set as \<and> ok a"
  by (induction "as") (auto split: if_splits)

lemma find_archive_Some:
  "find_archive wanted ok ps = Some a \<Longrightarrow> \<exists>p \<in> set ps. wanted p \<and> a \<in> set (ArchiveList (PkgArchives p)) \<and> ok a"
  by (induction ps) (auto split: if_splits option.splits dest: first_archive_Some)

text \<open>What each download command asks for, and where it looks for it.\<close>

fun repository_of :: "action \<Rightarrow> (string \<times> string) list \<Rightarrow> string option" where
  "repository_of ExecuteEmulator vals = Some toolRepo"
| "repository_of ExecutePlatform vals = Some toolRepo"
| "repository_of ExecuteSysimg vals = manifest_url (value_of vals ''type'' '''')"
| "repository_of ExecutePatchRamdisk vals = None"

fun fitting :: "action \<Rightarrow> (string \<times> string) list \<Rightarrow> Manifest \<Rightarrow> RemotePackage \<Rightarrow> Archive \<Rightarrow> bool" where
  "fitting ExecuteEmulator vals m p a \<longleftrightarrow>
     Ref (Channel p) = value_of vals ''channel'' ''channel-0'' \<and> PkgPath p = ''emulator'' \<and>
     HostOs a = value_of vals ''host-os'' ''linux'' \<and> HostArch a = value_of vals ''host-arch'' ''x86''"
| "fitting ExecutePlatform vals m p a \<longleftrightarrow>
     Ref (Channel p) = value_of vals ''channel'' ''channel-0'' \<and> PkgPath p = ''platform-tools'' \<and>
     HostOs a = value_of vals ''host-os'' ''linux''"
| "fitting ExecuteSysimg vals m p a \<longleftrightarrow>
     sysimg_matches (system_flags vals) p \<and>
     (\<forall>q \<in> set (RemotePackages m). sysimg_matches (system_flags vals) q \<longrightarrow> Major (PkgRevision q) \<le> Major (PkgRevision p)) \<and>
     (HostOs a = '''' \<or> HostOs a = ''linux'')"
| "fitting ExecutePatchRamdisk vals m p a \<longleftrightarrow> False"

definition listed :: "'w packages \<Rightarrow> world \<Rightarrow> action \<Rightarrow> (string \<times> string) list \<Rightarrow> Archive \<Rightarrow> bool" where
  "listed pk env act vals a \<longleftrightarrow> (\<exists>url m p. repository_of act vals = Some url \<and>
     GetManifest (unmarshal pk) (answer env url) = Ok m \<and> p \<in> set (RemotePackages m) \<and>
     a \<in> set (ArchiveList (PkgArchives p)) \<and> fitting act vals m p a)"

text \<open>The selection of an image: the greatest revision met, and the package that has it.\<close>

lemma select_greatest:
  "select_sysimg fl ps (k, cur) = (m, sel) \<Longrightarrow>
   k \<le> m \<and> (\<forall>q \<in> set ps. sysimg_matches fl q \<longrightarrow> Major (PkgRevision q) \<le> m) \<and>
   (m = k \<and> sel = cur \<or> (\<exists>p \<in> set ps. sel = Some p \<and> sysimg_matches fl p \<and> Major (PkgRevision p) = m))"
proof (induction ps arbitrary: k cur)
  case (Cons p ps)
  show ?case
  proof (cases "sysimg_matches fl p \<and> \<not> Major (PkgRevision p) < k")
    case True
    then have "select_sysimg fl ps (Major (PkgRevision p), Some p) = (m, sel)" using Cons.prems by simp
    note IH = Cons.IH[OF this]
    from IH True show ?thesis by auto
  next
    case False
    then have "select_sysimg fl ps (k, cur) = (m, sel)" using Cons.prems by (auto split: if_splits)
    note IH = Cons.IH[OF this]
    from IH False show ?thesis by auto
  qed
qed simp

subsection \<open>What a command leaves on the disk\<close>

text \<open>A disk and a progress bar that take all that is written to them.\<close>

definition takes_all :: "world \<Rightarrow> bool" where
  "takes_all env \<longleftrightarrow> (\<forall>w \<in> set (file_writes (faults env)). w = WFull) \<and> (\<forall>b \<in> set (bar_writes (faults env)). b = None)"

text \<open>The file asked for is there with its checksum, with more behind it only if a write failed, or nothing has
  happened to it; other files are untouched.\<close>

definition left_by :: "'w packages \<Rightarrow> world \<Rightarrow> fs \<Rightarrow> string \<Rightarrow> (Archive \<Rightarrow> bool) \<Rightarrow> unit res \<Rightarrow> fs \<Rightarrow> bool" where
  "left_by pk env files out good r files' \<longleftrightarrow>
     (if exit_code r = 0 then \<exists>a content extra. good a \<and> files' out = Some (content @ extra) \<and>
        fmt_x (digest pk content) = Checksum (Complete a) \<and> (takes_all env \<longrightarrow> extra = [])
      else files' out = files out) \<and>
     (\<forall>p. p \<noteq> out \<and> p \<noteq> tmp_path out \<longrightarrow> files' p = files p)"

abbreviation downloads_on :: "'w packages \<Rightarrow> world \<Rightarrow> download list \<Rightarrow> fs \<Rightarrow> fs" where
  "downloads_on pk env ds files \<equiv> fold (\<lambda>d f. snd (download_on pk env d f)) ds files"

lemma exit_code_simps [simp]: "exit_code (Ok u) = 0" "0 < exit_code (Err e)" "0 < exit_code (Panic q)"
  by (simp_all add: exit_code_def split: gopanic.splits)

lemma exit_code_Ok: "exit_code r = 0 \<longleftrightarrow> r = Ok ()"
  by (cases r) auto

lemma left_by_nothing: "0 < exit_code r \<Longrightarrow> left_by pk env files out good r files"
  by (simp add: left_by_def)

lemma download_selected_leaves:
  assumes "download_selected (\<lambda>d. fst (download_on pk env d files)) base out sel = (r, ds)"
    and "\<And>a. sel = Some a \<Longrightarrow> good a"
  shows "left_by pk env files out good r (downloads_on pk env ds files)"
proof (cases sel)
  case None
  then show ?thesis using assms(1) by (auto simp: download_selected_def intro: left_by_nothing)
next
  case (Some a)
  let ?d = "(base @ Url (Complete a), out, Checksum (Complete a))"
  obtain q files' where q: "download_on pk env ?d files = (q, files')" by fastforce
  then have D: "DownloadArchive (digest pk) ((faults env)\<lparr>http := answer env (base @ Url (Complete a))\<rparr>) out
      (Checksum (Complete a)) files = (q, files')"
    by (simp add: download_on_def)
  have "ds = [?d]" "exit_code r = 0 \<longleftrightarrow> q = Ok ()"
    using assms(1) Some q by (auto simp: download_selected_def exit_code_Ok Let_def split: res.splits)
  moreover have "\<exists>content extra. files' out = Some (content @ extra) \<and> fmt_x (digest pk content) = Checksum (Complete a) \<and>
      (takes_all env \<longrightarrow> extra = [])" if "q = Ok ()"
    using download_effect[OF D] that by (simp add: verified_def writes_fine_def takes_all_def) blast
  ultimately show ?thesis
    using download_effect[OF D] assms(2)[OF Some] q by (auto simp: left_by_def)
qed

text \<open>The three commands: a manifest that cannot be had ends them before anything is touched.\<close>

lemma emulator_leaves:
  assumes "executeEmulator (get_manifest (outside_of pk env files)) (download_to (outside_of pk env files)) fl = (r, ds)"
  shows "left_by pk env files (emuOutput fl) (\<lambda>a. \<exists>m p. GetManifest (unmarshal pk) (answer env toolRepo) = Ok m \<and>
      p \<in> set (RemotePackages m) \<and> a \<in> set (ArchiveList (PkgArchives p)) \<and> Ref (Channel p) = emuChannel fl \<and>
      PkgPath p = ''emulator'' \<and> HostOs a = emuHostOs fl \<and> HostArch a = emuHostArch fl) r (downloads_on pk env ds files)"
proof (cases "GetManifest (unmarshal pk) (answer env toolRepo)")
  case (Ok m)
  show ?thesis
    by (rule download_selected_leaves)
      (use assms Ok in \<open>auto simp: executeEmulator_def outside_of_def dest!: find_archive_Some\<close>)
qed (use assms in \<open>auto simp: executeEmulator_def outside_of_def intro!: left_by_nothing\<close>)

lemma platform_leaves:
  assumes "executePlatform (get_manifest (outside_of pk env files)) (download_to (outside_of pk env files)) fl = (r, ds)"
  shows "left_by pk env files (emuOutput fl) (\<lambda>a. \<exists>m p. GetManifest (unmarshal pk) (answer env toolRepo) = Ok m \<and>
      p \<in> set (RemotePackages m) \<and> a \<in> set (ArchiveList (PkgArchives p)) \<and> Ref (Channel p) = emuChannel fl \<and>
      PkgPath p = ''platform-tools'' \<and> HostOs a = emuHostOs fl) r (downloads_on pk env ds files)"
proof (cases "GetManifest (unmarshal pk) (answer env toolRepo)")
  case (Ok m)
  show ?thesis
    by (rule download_selected_leaves)
      (use assms Ok in \<open>auto simp: executePlatform_def outside_of_def dest!: find_archive_Some\<close>)
qed (use assms in \<open>auto simp: executePlatform_def outside_of_def intro!: left_by_nothing\<close>)

lemma sysimg_leaves:
  assumes "executeSysimg (get_manifest (outside_of pk env files)) (download_to (outside_of pk env files)) fl = (r, ds)"
  shows "left_by pk env files (sysimgOutput fl) (\<lambda>a. \<exists>url m p. manifest_url (sysimgType fl) = Some url \<and>
      GetManifest (unmarshal pk) (answer env url) = Ok m \<and> p \<in> set (RemotePackages m) \<and>
      a \<in> set (ArchiveList (PkgArchives p)) \<and> sysimg_matches fl p \<and>
      (\<forall>q \<in> set (RemotePackages m). sysimg_matches fl q \<longrightarrow> Major (PkgRevision q) \<le> Major (PkgRevision p)) \<and>
      (HostOs a = '''' \<or> HostOs a = ''linux'')) r (downloads_on pk env ds files)"
proof (cases "manifest_url (sysimgType fl)")
  case (Some url)
  show ?thesis
  proof (cases "GetManifest (unmarshal pk) (answer env url)")
    case (Ok m)
    obtain k sel where sel: "select_sysimg fl (RemotePackages m) (- 1, None) = (k, sel)" by fastforce
    show ?thesis
    proof (cases "k = - 1 \<or> sel = None")
      case True
      then show ?thesis
        using assms Some Ok sel by (auto simp: executeSysimg_def outside_of_def intro!: left_by_nothing split: if_splits)
    next
      case False
      then obtain p where p: "sel = Some p" "p \<in> set (RemotePackages m)" "sysimg_matches fl p"
        "\<forall>q \<in> set (RemotePackages m). sysimg_matches fl q \<longrightarrow> Major (PkgRevision q) \<le> Major (PkgRevision p)"
        using select_greatest[OF sel] by auto
      show ?thesis
        by (rule download_selected_leaves)
          (use assms Some Ok sel False p in \<open>auto simp: executeSysimg_def outside_of_def dest!: first_archive_Some\<close>)
    qed
  qed (use assms Some in \<open>auto simp: executeSysimg_def outside_of_def intro!: left_by_nothing\<close>)
qed (use assms in \<open>auto simp: executeSysimg_def intro!: left_by_nothing\<close>)

text \<open>The image: every segment of the old one patched and padded, up to one that is all zero.\<close>

definition patched_image :: "'w packages \<Rightarrow> world \<Rightarrow> fs \<Rightarrow> ramdisk_flags \<Rightarrow> byte list \<Rightarrow> bool" where
  "patched_image pk env files fl img \<longleftrightarrow> (\<exists>compressed ramdisk news.
     read_disk env files (ramdiskInput fl) = Inr compressed \<and> decompress pk compressed = Inr ramdisk \<and>
     list_all2 (\<lambda>seg new. \<exists>i. Index seg newc_magic = Some i \<and> segment (outside_of pk env files) fl (drop i seg) = Ok new)
       (takeWhile (\<lambda>seg. \<not> isAllZero seg) (Split ramdisk trailer_mark)) news \<and>
     img = concat (map padded news))"

lemma patch_leaves:
  assumes "executePatchRamdisk fl (read_file (outside_of pk env files)) (unpack (outside_of pk env files))
      (segment (outside_of pk env files) fl) (write_image (outside_of pk env files) out) = (r, img)"
    and "files' = (case map_option (Pair out) img of None \<Rightarrow> (\<lambda>f. f) | Some x \<Rightarrow> store_on env x) files"
  shows "(exit_code r = 0 \<longrightarrow> (\<exists>img. patched_image pk env files fl img \<and> files' out = Some img)) \<and>
    (exit_code r \<noteq> 0 \<and> (\<forall>c. write_fault env out c = None) \<longrightarrow> files' out = files out) \<and>
    (\<forall>p. p \<noteq> out \<longrightarrow> files' p = files p)"
proof (cases img)
  case None
  then have "exit_code r \<noteq> 0"
    using assms(1) by (auto simp: executePatchRamdisk_def exit_code_Ok split: sum.splits res.splits)
  then show ?thesis using assms(2) None by simp
next
  case (Some c)
  have e: "executePatchRamdisk fl (read_disk env files) (decompress pk) (segment (outside_of pk env files) fl)
      (\<lambda>content. map_option fst (write_fault env out content)) = (r, Some c)"
    using assms(1) Some by (simp add: outside_of_def)
  from image_parts[OF e] have img: "patched_image pk env files fl c"
    unfolding patched_image_def by (auto simp: outside_of_def)
  have r: "exit_code r = 0 \<longleftrightarrow> write_fault env out c = None"
    using e by (auto simp: executePatchRamdisk_def exit_code_Ok split: sum.splits res.splits option.splits)
  have "files' = store_on env (out, c) files" using assms(2) Some by simp
  then show ?thesis using img r by (auto simp: store_on_def split: option.splits)
qed

text \<open>The downloads for what was asked.\<close>

lemma left_by_mono: "left_by pk env files out good r files' \<Longrightarrow> (\<And>a. good a \<Longrightarrow> good' a) \<Longrightarrow> left_by pk env files out good' r files'"
  unfolding left_by_def by (metis (full_types))

lemma asked_leaves:
  assumes "asked (outside_of pk env files) act vals = (r, ds, img)" "act \<noteq> ExecutePatchRamdisk"
  shows "img = None \<and> left_by pk env files (value_of vals ''output'' '''') (listed pk env act vals) r (downloads_on pk env ds files)"
proof (cases act)
  case ExecuteEmulator
  then have e: "executeEmulator (get_manifest (outside_of pk env files)) (download_to (outside_of pk env files))
      (emulator_flags vals) = (r, ds)" "img = None"
    using assms(1) by (auto simp: asked_def split: prod.splits)
  have "left_by pk env files (emuOutput (emulator_flags vals)) (listed pk env act vals) r (downloads_on pk env ds files)"
    by (rule left_by_mono[OF emulator_leaves[OF e(1)]]) (auto simp: listed_def ExecuteEmulator emulator_flags_def)
  then show ?thesis using e(2) by (simp add: emulator_flags_def)
next
  case ExecutePlatform
  then have e: "executePlatform (get_manifest (outside_of pk env files)) (download_to (outside_of pk env files))
      ((emulator_flags vals)\<lparr>emuHostArch := ''x86''\<rparr>) = (r, ds)" "img = None"
    using assms(1) by (auto simp: asked_def split: prod.splits)
  have "left_by pk env files (emuOutput ((emulator_flags vals)\<lparr>emuHostArch := ''x86''\<rparr>)) (listed pk env act vals) r (downloads_on pk env ds files)"
    by (rule left_by_mono[OF platform_leaves[OF e(1)]]) (auto simp: listed_def ExecutePlatform emulator_flags_def)
  then show ?thesis using e(2) by (simp add: emulator_flags_def)
next
  case ExecuteSysimg
  then have e: "executeSysimg (get_manifest (outside_of pk env files)) (download_to (outside_of pk env files))
      (system_flags vals) = (r, ds)" "img = None"
    using assms(1) by (auto simp: asked_def split: prod.splits)
  have ty: "sysimgType (system_flags vals) = value_of vals ''type'' ''''" by (simp add: system_flags_def)
  have "left_by pk env files (sysimgOutput (system_flags vals)) (listed pk env act vals) r (downloads_on pk env ds files)"
    by (rule left_by_mono[OF sysimg_leaves[OF e(1)]]) (auto simp: listed_def ExecuteSysimg ty)
  then show ?thesis using e(2) by (simp add: system_flags_def)
qed (use assms(2) in simp)

subsection \<open>Properties\<close>

text \<open>C37: From the command line to the disk: a download command that exits with 0 leaves at the path given with
  \<^verbatim>\<open>output\<close> contents with the checksum of an archive that the repository's manifest lists and that fits
  the flags, for an image of the greatest revision that fits. If a write to the disk or to the progress bar has failed,
  more of what was received may follow these contents; if none has, nothing does. A download command
  that fails leaves that path alone; patching
  leaves the patched image of the input. No command touches any other file but the temporary one of a download.\<close>

theorem builder_end_to_end:
  assumes "cobra_ok cobra" "cobra rootCmd args = Inr (Some (cmd, vals))" "action cmd = Some act"
    and "run_builder cobra pk env args files = (code, files')" "out = value_of vals ''output'' ''''"
  shows "(''output'', out) \<in> set vals \<and>
    (\<forall>p. p \<noteq> out \<and> p \<noteq> tmp_path out \<longrightarrow> files' p = files p) \<and>
    (if act = ExecutePatchRamdisk then
       (code = 0 \<longrightarrow> (\<exists>img. patched_image pk env files (patch_flags vals) img \<and> files' out = Some img)) \<and>
       (code \<noteq> 0 \<and> (\<forall>c. write_fault env out c = None) \<longrightarrow> files' out = files out)
     else if code = 0 then
       \<exists>a content extra. listed pk env act vals a \<and> files' out = Some (content @ extra) \<and>
         fmt_x (digest pk content) = Checksum (Complete a) \<and> (takes_all env \<longrightarrow> extra = [])
     else files' out = files out)"
proof -
  let ?ext = "outside_of pk env files"
  obtain r ds img where asked: "asked ?ext act vals = (r, ds, img)" using prod_cases3 by blast
  note B = builder_runs[OF assms(1-3)]
  have code: "code = exit_code r"
    and files': "files' = (case img of None \<Rightarrow> (\<lambda>f. f) | Some x \<Rightarrow> store_on env x) (downloads_on pk env ds files)"
    using assms(4) B(3)[of ?ext] asked by (simp_all add: run_builder_def)
  show ?thesis
  proof (cases "act = ExecutePatchRamdisk")
    case True
    then obtain c where "executePatchRamdisk (patch_flags vals) (read_file ?ext) (unpack ?ext) (segment ?ext (patch_flags vals))
        (write_image ?ext out) = (r, c)" "img = map_option (Pair out) c" "ds = []"
      using asked assms(5) by (auto simp: asked_def split: prod.splits)
    with patch_leaves[OF this(1) refl] show ?thesis
      using B(2) code files' True assms(5) by simp
  next
    case False
    note L = asked_leaves[OF asked False]
    then have "left_by pk env files out (listed pk env act vals) r files'" using files' assms(5) by simp
    note left = this[unfolded left_by_def, folded code]
    show ?thesis
      unfolding if_not_P[OF False] by (intro conjI B(2)[folded assms(5)] left[THEN conjunct1] left[THEN conjunct2])
  qed
qed

definition sample_emu_archive :: Archive where
  "sample_emu_archive = \<lparr>HostOs = ''linux'', HostArch = ''x86'',
     Complete = \<lparr>CompleteSize = 3, Checksum = ''010203'', Url = ''emulator.zip''\<rparr>\<rparr>"

definition sample_emu_package :: RemotePackage where
  "sample_emu_package = (demo_pkg 1 '''')\<lparr>PkgPath := ''emulator'', PkgArchives := \<lparr>ArchiveList = [sample_emu_archive]\<rparr>\<rparr>"

definition sample_packages :: "byte list packages" where
  "sample_packages = \<lparr>unmarshal = (\<lambda>_. Inr \<lparr>RemotePackages = [sample_emu_package]\<rparr>), digest = (\<lambda>b. b),
     decompress = Inr, read_archive = (\<lambda>_. Inl EOF), map_order = (\<lambda>ms. ms), write_record = (\<lambda>r w. (Ok (), w)),
     write_trailer = (\<lambda>w. (Ok (), w)), flush_writer = (\<lambda>w. (Ok (), w)), new_writer = [], written = (\<lambda>w. w)\<rparr>"

definition sample_world :: world where
  "sample_world = \<lparr>answer = (\<lambda>_. Inr \<lparr>StatusCode = 200, body = [[1], [2, 3]], body_end = EOF\<rparr>), faults = demo_env,
     read_fault = (\<lambda>_. None), write_fault = (\<lambda>_ _. None)\<rparr>"

theorem builder_end_to_end_witness:
  "\<exists>content a. listed sample_packages sample_world ExecuteEmulator [(''output'', ''emu.zip'')] a \<and>
     snd (run_builder sample_cobra sample_packages sample_world [''download'', ''emulator'', ''--output'', ''emu.zip''] (\<lambda>_. None))
       ''emu.zip'' = Some content \<and> fmt_x content = Checksum (Complete a)"
proof -
  let ?args = "[''download'', ''emulator'', ''--output'', ''emu.zip'']"
  let ?r = "run_builder sample_cobra sample_packages sample_world ?args (\<lambda>_. None)"
  have code: "fst ?r = 0" by code_simp
  have out: "''emu.zip'' = value_of [(''output'', ''emu.zip'')] ''output'' ''''" by code_simp
  have fine: "takes_all sample_world" by (simp add: takes_all_def sample_world_def demo_env_def)
  have "sample_cobra rootCmd ?args = Inr (Some (emulatorCmd, [(''output'', ''emu.zip'')]))" by (simp add: sample_cobra_def)
  moreover have "action emulatorCmd = Some ExecuteEmulator" by (simp add: emulatorCmd_def)
  moreover have "run_builder sample_cobra sample_packages sample_world ?args (\<lambda>_. None) = (0, snd ?r)"
    using code by (metis prod.collapse)
  moreover have "digest sample_packages = (\<lambda>b. b)" by (simp add: sample_packages_def)
  ultimately show ?thesis
    using builder_end_to_end[OF sample_cobra_ok _ _ _ out, of ?args emulatorCmd ExecuteEmulator sample_packages sample_world "\<lambda>_. None" 0 "snd ?r"] fine
    by auto
qed

end
