(* ===== verification/TestRun.thy ===== *)
theory TestRun
  imports RawConn Machine
begin

text \<open>
  \<^verbatim>\<open>agent/util/testutil/testutil.go\<close>, the functions that a unit test runs in parallel with a time limit, and
  \<^verbatim>\<open>agent/server/adb/raw_test.go\<close>: what its seven tests expect of a connection holds of the model of
  \<open>RawConn\<close>. Both ends of a test's pipe hand over one write at a time, so each write is a chunk.
\<close>

subsection \<open>testutil.go\<close>

text \<open>
  The goroutine of \<^verbatim>\<open>wrapWait\<close>: waiting for the group, handing over on its channel, which has no
  buffer, or gone.
\<close>

datatype waiter = Grouped | Handing | WaiterGone

text \<open>\<open>outcome\<close> is what \<^verbatim>\<open>RunParallel\<close> has returned.\<close>

record parallel =
  functions_done :: "bool list"
  waiter :: waiter
  outcome :: "goerr option option"

definition RunParallel :: "nat \<Rightarrow> parallel" where
  "RunParallel n = \<lparr>functions_done = replicate n False, waiter = Grouped, outcome = None\<rparr>"

text \<open>A function ends; the group is empty; the select takes the hand-over; it takes the timer.\<close>

datatype parallel_event = FunctionEnds nat | GroupEmpty | HandOver | TimerFires

fun parallel_step :: "parallel_event \<Rightarrow> parallel \<Rightarrow> parallel option" where
  "parallel_step (FunctionEnds i) w =
     (if i < length (functions_done w) \<and> \<not> functions_done w ! i
      then Some (w\<lparr>functions_done := (functions_done w)[i := True]\<rparr>) else None)"
| "parallel_step GroupEmpty w =
     (if waiter w = Grouped \<and> list_all (\<lambda>d. d) (functions_done w) then Some (w\<lparr>waiter := Handing\<rparr>) else None)"
| "parallel_step HandOver w =
     (if waiter w = Handing \<and> outcome w = None then Some (w\<lparr>waiter := WaiterGone, outcome := Some None\<rparr>) else None)"
| "parallel_step TimerFires w =
     (if outcome w = None then Some (w\<lparr>outcome := Some (Some (NewError ''test parallel timeout''))\<rparr>) else None)"

definition parallel_inv :: "parallel_event list \<Rightarrow> parallel \<Rightarrow> bool" where
  "parallel_inv h w \<longleftrightarrow> (waiter w \<noteq> Grouped \<longrightarrow> list_all (\<lambda>d. d) (functions_done w)) \<and>
     (waiter w = WaiterGone \<longleftrightarrow> outcome w = Some None)"

interpretation parallel: machine parallel_step "RunParallel n" "\<lambda>_. True" parallel_inv
proof
  fix h e s s'
  assume "parallel_inv h s" "parallel_step e s = Some s'"
  then show "parallel_inv (h @ [e]) s'"
    by (cases e) (auto simp: parallel_inv_def list_all_length nth_list_update split: if_splits)
qed (simp_all add: parallel_inv_def RunParallel_def)

text \<open>The weight of what is still to happen: no schedule goes on for ever.\<close>

definition parallel_weight :: "parallel \<Rightarrow> nat" where
  "parallel_weight w = length (filter Not (functions_done w)) +
     (case waiter w of Grouped \<Rightarrow> 2 | Handing \<Rightarrow> 1 | WaiterGone \<Rightarrow> 0) + (if outcome w = None then 1 else 0)"

lemma filter_Not_update:
  "i < length ds \<Longrightarrow> \<not> ds ! i \<Longrightarrow> length (filter Not (ds[i := True])) < length (filter Not ds)"
proof (induction ds arbitrary: i)
  case (Cons d ds)
  then show ?case by (cases i) auto
qed simp

interpretation parallel_end: progress parallel_step parallel_weight
proof
  fix e s s'
  assume "parallel_step e s = Some s'"
  then show "parallel_weight s' < parallel_weight s"
    by (cases e) (auto simp: parallel_weight_def filter_Not_update split: if_splits)
qed

text \<open>No error means that every function has ended, whatever the schedule.\<close>

lemma parallel_sound:
  assumes "exec parallel_step es (RunParallel n) = Some w" "outcome w = Some None"
  shows "list_all (\<lambda>d. d) (functions_done w)"
  using parallel.inv_exec[OF TrueI assms(1)] assms(2) by (auto simp: parallel_inv_def)

text \<open>It always returns: while it has not, a function still runs or the select can take a branch; the timer always can.\<close>

lemma parallel_returns: "outcome w = None \<Longrightarrow> parallel_step TimerFires w \<noteq> None"
  by simp

text \<open>After a time-out the goroutine that waits for the functions is never released.\<close>

lemma parallel_leaks:
  assumes "exec parallel_step es w = Some w'" "outcome w = Some (Some e)" "waiter w \<noteq> WaiterGone"
  shows "outcome w' = Some (Some e) \<and> waiter w' \<noteq> WaiterGone"
  using assms
proof (induction es arbitrary: w)
  case (Cons x es)
  then obtain w1 where w1: "parallel_step x w = Some w1" "exec parallel_step es w1 = Some w'"
    using exec_Cons_Some by metis
  have "outcome w1 = Some (Some e)" "waiter w1 \<noteq> WaiterGone"
    using w1(1) Cons.prems(2,3) by (cases x; auto split: if_splits)+
  with Cons.IH w1(2) show ?case by blast
qed simp

subsection \<open>raw_test.go\<close>

definition pipe_end :: "byte list list \<Rightarrow> conn" where
  "pipe_end writes = \<lparr>inq = writes, inend = EOF, outb = [], wscript = [], closed = False, close_err = None\<rparr>"

lemma test_WriteMessage:
  "case WriteMessage (of_str ''example message'') (pipe_end []) of (r, c) \<Rightarrow>
     r = Ok () \<and> to_str (outb c) = ''000fexample message''"
  by code_simp

lemma test_WriteShellBlob:
  "case WriteShellBlob 123 (of_str ''example message'') (pipe_end []) of (r, c) \<Rightarrow>
     r = Ok () \<and> outb c = [123, 15, 0, 0, 0] @ of_str ''example message''"
  by code_simp

lemma test_ReadHexPrefixedBlob:
  "fst (ReadHexPrefixedBlob (pipe_end [of_str ''000fexample message''])) = Ok (of_str ''example message'')"
  by code_simp

lemma test_ReadShellBlob:
  "fst (ReadShellBlob (pipe_end [[123, 15, 0, 0, 0] @ of_str ''example message''])) =
     Ok (123, of_str ''example message'')"
  by code_simp

lemma test_ReadStatus:
  "case ReadStatus (pipe_end [of_str ''ABCD'', of_str ''EFGH'']) of (r, c) \<Rightarrow> r = Ok ''ABCD'' \<and> fst (ReadStatus c) = Ok ''EFGH''"
  by code_simp

lemma ReadLine_write:
  assumes "newline \<notin> set l" "length l + length s < 4096"
  shows "ReadLine (pipe_end ((l @ newline # s) # q)) = (Ok (Some (to_str (dropCR l))), pipe_end q)"
  using scan_first_chunk[OF assms] by (simp add: ReadLine_def pipe_end_def)

lemma ReadLine_end: "fst (ReadLine (pipe_end [])) = Ok None"
proof -
  have "scan_first EOF 0 [] [] = scan_first EOF 4096 [] []"
    by (subst scan_first.simps) (simp add: grow_def maxTokenSize_def)
  also have "\<dots> = (NoToken, [])" by (subst scan_first.simps) simp
  finally show ?thesis by (simp add: ReadLine_def pipe_end_def)
qed

text \<open>The test passes because each line is a write of its own; in one write the second line is lost.\<close>

lemma test_ReadLine:
  defines "l1 \<equiv> of_str ''Example line''" and "l2 \<equiv> of_str ''Another line''"
  shows "case ReadLine (pipe_end [l1 @ [newline], l2 @ [newline]]) of (r, c) \<Rightarrow>
      r = Ok (Some ''Example line'') \<and> fst (ReadLine c) = Ok (Some ''Another line'')"
    and "case ReadLine (pipe_end [l1 @ newline # l2 @ [newline]]) of (r, c) \<Rightarrow>
      r = Ok (Some ''Example line'') \<and> fst (ReadLine c) = Ok None"
proof -
  have l: "newline \<notin> set l1" "newline \<notin> set l2" "length l1 = 12" "length l2 = 12"
    "to_str (dropCR l1) = ''Example line''" "to_str (dropCR l2) = ''Another line''"
    unfolding l1_def l2_def by code_simp+
  show "case ReadLine (pipe_end [l1 @ [newline], l2 @ [newline]]) of (r, c) \<Rightarrow>
      r = Ok (Some ''Example line'') \<and> fst (ReadLine c) = Ok (Some ''Another line'')"
    using l by (simp add: ReadLine_write)
  show "case ReadLine (pipe_end [l1 @ newline # l2 @ [newline]]) of (r, c) \<Rightarrow>
      r = Ok (Some ''Example line'') \<and> fst (ReadLine c) = Ok None"
    using l by (simp add: ReadLine_write ReadLine_end)
qed

lemma test_SendCommand:
  "case SendCommand (of_str ''example command'') (pipe_end [of_str ''OKAY'', of_str ''FAIL'', of_str ''000dExample Error'']) of (r, c) \<Rightarrow>
     r = Ok () \<and> outb c = of_str ''000fexample command'' \<and>
     fst (SendCommand (of_str ''bad command'') c) = Err (NewError ''server error: Example Error'')"
  by code_simp

end
