(* ===== verification/Spec2Isabelle.thy ===== *)
theory Spec2Isabelle
  imports VideoStream ShellRun SyslogStream Control EmulatorExit DemoRun BuilderRun TestRun
begin

text \<open>
  A model of Droidmole. An agent runs next to an Android emulator in a container, controls it, and
  gives remote clients its display, its logs, its files and its shell over gRPC. The repository has
  four Go programs: the agent (\<^verbatim>\<open>src/agent/server\<close>, \<^verbatim>\<open>agent/util\<close>), the client library (\<^verbatim>\<open>agent/client\<close>),
  a demonstration web backend on top of it (\<^verbatim>\<open>demo/backend\<close>), and the builder that downloads system
  images and patches ramdisks (\<^verbatim>\<open>builder\<close>). This theory imports the whole development and has no
  definitions of its own; each property carries its number in the theory it belongs to.

  \<^bold>\<open>Conventions.\<close> A Go error is a value of \<open>goerr\<close>, a panic or a fatal log one of \<open>gopanic\<close>, and a
  result is \<open>Ok\<close>, \<open>Err\<close> or \<open>Panic\<close> (\<open>'a res\<close>). An operation on a state is a function that returns its
  result with the new state; \<open>on_ok r cleanup k\<close> is the idiom \<^verbatim>\<open>if err != nil { cleanup; return err }\<close> and
  \<open>deferring\<close> is \<^verbatim>\<open>defer\<close> (\<open>Prelude\<close>). A struct is a record, a pointer that may be nil an option, a
  machine integer a word; \<^verbatim>\<open>int\<close> is \<open>int\<close> or \<open>nat\<close> where the code cannot wrap. What the environment
  answers (the system, the network, a library) is an argument: either the list of outcomes of the
  calls, or a function from the call to its outcome. Code that several goroutines run is a
  transition system whose events are its critical sections, so that every interleaving is an
  execution. \<open>Machine\<close> has the executions, the locale \<open>machine\<close> with the invariant rule, interpreted on
  the broadcaster, the server (four times, for four invariants), the log, the shell session, its end,
  the end of an emulator process, the demo backend and the test support, and the locale \<open>progress\<close> that
  bounds the number of events, interpreted on the shell session, its end, the end of an emulator process
  and the test support.

  \<^bold>\<open>The device protocol.\<close> \<open>Bytes\<close> and \<open>Scanner\<close> have the byte formats of the standard library that the
  code uses (hexadecimal, little endian, \<^verbatim>\<open>bufio.Scanner\<close>, \<^verbatim>\<open>strings.Fields\<close>). \<open>RawConn\<close> is
  \<^verbatim>\<open>adb/raw.go\<close>: a connection is the bytes still to come, in the chunks in which they arrive, the bytes
  written, and whether it is closed. Its properties are the framing: what is written is read back, for any
  segmentation. Three locales are the contracts of the layer: \<open>conn_op\<close> and \<open>closing_op\<close> (an operation that does
  not depend on the segmentation, leaves a closed connection alone, and closes it on an error),
  interpreted on every command of the adb client, and \<open>framing\<close> (a writer and a reader that undoes it),
  interpreted on the three formats; \<open>codec\<close> is the same for fixed-size structures. \<open>AdbClient\<close> is
  \<^verbatim>\<open>adb/adb.go\<close> and \<^verbatim>\<open>client.go\<close>, \<open>AdbSync\<close> is \<^verbatim>\<open>adb/sync.go\<close>: waiting for a ready device, listing, stat,
  pull and push against the bytes of the device, and that no error path leaves a connection open.

  \<^bold>\<open>The agent.\<close> \<open>Broadcaster\<close> is \<^verbatim>\<open>util/broadcaster\<close>, \<open>Vpx\<close> and \<open>Encoder\<close> are \<^verbatim>\<open>util/vpx\<close>, \<open>EmuConfig\<close> and \<open>Emulator\<close> are
  \<^verbatim>\<open>server/emulator\<close> (configuration, process, log, connection to the emulator's own service), \<open>EmulatorExit\<close>
  interleaves the goroutines that see to the end of the process, and \<open>Server\<close> has \<^verbatim>\<open>server.go\<close> with the
  calls of \<^verbatim>\<open>controller.go\<close> that change its state. An execution of the server mixes the
  calls with the reports of any number of emulators. Its properties say that the state is the
  truth about the emulators in every orderly execution, what is wrong in the others, that it is well
  formed and published in all of them, and that it refines a life cycle of four states. \<open>Display\<close> is
  \<^verbatim>\<open>display.go\<close>, \<open>Syslog\<close> is \<^verbatim>\<open>server/syslog\<close> (its socket, its processor and its listeners, which refine bounded mailboxes), \<open>ShellServer\<close> is the session of \<^verbatim>\<open>server/shell\<close>
  and \<open>ShellRun\<close> its end (the channels closed, the goroutines recovering, nothing left behind),
  \<open>SyncServer\<close> is \<^verbatim>\<open>server/sync\<close>, and \<open>Handlers\<close> has the remaining calls of \<^verbatim>\<open>controller.go\<close> and the start of the
  agent. \<open>Protocol\<close> and \<open>EmuProtocol\<close> have the messages of the two gRPC services and \<open>Grpc\<close> the ends of a
  stream.

  \<^bold>\<open>The clients.\<close> \<open>SyncClient\<close>, \<open>ShellClient\<close> and \<open>AgentClient\<close> are \<^verbatim>\<open>agent/client\<close>. They come with the properties
  that put both sides together: what a client asks for and what it gets, down to the bytes
  exchanged with the device. \<open>Demo\<close> has the operations of the web backend and \<open>DemoRun\<close> its goroutines
  interleaved (the loops over the agent's streams, the reader of each websocket, one goroutine for each
  shell), with what a web client is shown.

  \<^bold>\<open>The composition.\<close> \<open>Hosting\<close> has a component that owns a broadcaster, with the listeners around it: the
  locale \<open>broadcast_host\<close> asks that each step leaves the broadcaster alone or broadcasts one acceptable
  value, and gives what the listeners get, in every interleaving. It is interpreted on the server's states
  (\<open>StateStream\<close>) and on its frames (\<open>VideoStream\<close>), where the listeners' values go through the streams of the
  agent to the client. \<open>SyslogStream\<close> follows the log from the text on its socket to the client, and
  \<open>Control\<close> a start from the client's call to the files and the process it makes, and on to the running
  emulator or the end of the agent.

  \<^bold>\<open>The builder.\<close> \<open>Repository\<close> and \<open>Download\<close> are \<^verbatim>\<open>builder/repository\<close> and \<^verbatim>\<open>builder/cmd/download\<close>: selection of an
  archive and its verified download. \<open>Ramdisk\<close> is \<^verbatim>\<open>builder/cmd/patchramdisk.go\<close>: the records of the patched
  archive against a specification, and the layout of the image. \<open>Builder\<close> is the command line: the commands
  and flags as data with the variables the flags are bound to, and what a run does, for any
  cobra that behaves as documented. \<open>BuilderRun\<close> puts the four together on a file system, from the command
  line and the answers of the network to the files that are left.

  \<^bold>\<open>The tests.\<close> \<open>TestRun\<close> has the test support (\<^verbatim>\<open>agent/util/testutil\<close>) and the expectations of the unit test
  of the connection (\<^verbatim>\<open>adb/raw_test.go\<close>), proved of \<open>RawConn\<close>.

  \<^bold>\<open>Bounds.\<close> No definition has fuel: loops over a finite input recurse on what is left of it, with the
  measures in their termination proofs, and loops that would wait for more stop with \<open>None\<close>
  (or, for a connection, with the error of the ended stream) when the input given is used up.
  Messages are below 64 KiB where the format has four digits, and blobs below \<open>2 ^ 32\<close> bytes. The
  broadcaster is right for fewer than \<open>2 ^ 64\<close> broadcasts, and wrong at that number. A frame has at most
  \<open>2 ^ 26\<close> bytes where the conversion is exact, because the code computes sizes in \<^verbatim>\<open>float32\<close>.
  A channel of the log holds 100 lines.

  \<^bold>\<open>Not modelled.\<close> The generated gRPC stubs and the reflection part of the generated messages; what the code
  calls but does not contain, all of it parameters here: libvpx, the emulator's service, the
  standard library's processes, files, sockets and HTTP, JSON, XML, LZ4, cpio, SHA-1, websockets and
  cobra; log output, but for what the end of a shell prints; Go interfaces
  (\<^verbatim>\<open>Adb\<close>, \<^verbatim>\<open>RawConnection\<close>, \<^verbatim>\<open>Monitor\<close>, \<^verbatim>\<open>InputEvent\<close>) and the structs that only hold what they are built
  from, because each has one implementation here; the cgo declarations of \<^verbatim>\<open>vpx.go\<close> and its \<^verbatim>\<open>CodecEncCfg.Free\<close>,
  which is never called. The programs in other languages (the init
  injector, the build scripts, the web page) are outside this development. Time appears only as
  the order of events, and as the clock value that a display stream reads.
\<close>

end
